(* ===== verification/Prelude.thy ===== *)
theory Prelude
  imports Main "HOL-Library.Word"
begin

unbundle bit_operations_syntax

text \<open>
  Vocabulary and automation shared by every component of the development.

  The machine types of the Rust sources are words of their width; \<open>i16\<close> and \<open>u16\<close> are the
  same type, read with \<open>sint\<close> or \<open>unat\<close>.  A Rust \<open>str\<close> is the list of its UTF-8 bytes, a
  \<open>string\<close> whose characters are bytes.  \<open>None\<close> is a panic wherever an \<open>option\<close> is called an
  outcome; a \<open>Result\<close> is a sum with the error on the left.  Unsigned addition and subtraction
  take a flag that says whether the build has overflow checks (Cargo's dev profile has them,
  its release profile wraps), so both builds are covered by one definition.
\<close>

section \<open>Machine types\<close>

type_synonym u8 = "8 word"
type_synonym u16 = "16 word"
type_synonym u32 = "32 word"
type_synonym u64 = "64 word"
type_synonym i16 = "16 word"

type_synonym 'a outcome = "'a option"

named_theorems model_defs \<open>definitions that unfold a step of the model\<close>
named_theorems len_simps \<open>lengths of encoded and decoded data\<close>

section \<open>Unsigned arithmetic with and without overflow checks\<close>

definition add_checked :: "bool \<Rightarrow> 'a::len word \<Rightarrow> 'a word \<Rightarrow> 'a word outcome" where
  "add_checked chk a b =
     (if chk \<and> 2 ^ LENGTH('a) \<le> unat a + unat b then None else Some (a + b))"

definition sub_checked :: "bool \<Rightarrow> 'a::len word \<Rightarrow> 'a word \<Rightarrow> 'a word outcome" where
  "sub_checked chk a b = (if chk \<and> a < b then None else Some (a - b))"

lemma add_checked_in_range [simp]:
  "unat (a :: 'a::len word) + unat b < 2 ^ LENGTH('a) \<Longrightarrow> add_checked chk a b = Some (a + b)"
  by (simp add: add_checked_def)

lemma sub_checked_in_range [simp]: "b \<le> a \<Longrightarrow> sub_checked chk a b = Some (a - b)"
  by (simp add: sub_checked_def not_less)

lemma add_checked_wraps [simp]: "add_checked False a b = Some (a + b)"
  by (simp add: add_checked_def)

lemma sub_checked_wraps [simp]: "sub_checked False a b = Some (a - b)"
  by (simp add: sub_checked_def)

section \<open>Slices\<close>

text \<open>\<open>[T]::chunks\<close>: consecutive pieces of \<open>n\<close> elements, the last one possibly shorter.\<close>

function slice_chunks :: "nat \<Rightarrow> 'a list \<Rightarrow> 'a list list" where
  "slice_chunks n xs =
     (if xs = [] \<or> n = 0 then [] else take n xs # slice_chunks n (drop n xs))"
  by pat_completeness auto
termination
  by (relation "measure (\<lambda>(n, xs). length xs)") auto

declare slice_chunks.simps [simp del]

text \<open>\<open>[T]::chunks_exact\<close>: the same pieces without a shorter last one.\<close>

definition slice_chunks_exact :: "nat \<Rightarrow> 'a list \<Rightarrow> 'a list list" where
  "slice_chunks_exact n xs = filter (\<lambda>c. length c = n) (slice_chunks n xs)"

lemma slice_chunks_Nil [simp]: "slice_chunks n [] = []"
  by (simp add: slice_chunks.simps)

lemma slice_chunks_two [simp]:
  "slice_chunks 2 (a # b # xs) = [a, b] # slice_chunks 2 xs"
  "slice_chunks 2 [a] = [[a]]"
  by (simp_all add: slice_chunks.simps [of 2 "a # b # xs"] slice_chunks.simps [of 2 "[a]"])

lemma slice_chunks_exact_two [simp]:
  "slice_chunks_exact 2 (a # b # xs) = [a, b] # slice_chunks_exact 2 xs"
  "slice_chunks_exact 2 [a] = []"
  "slice_chunks_exact 2 [] = []"
  by (simp_all add: slice_chunks_exact_def)

text \<open>Lists taken two at a time.\<close>

lemma induct_two [case_names Nil One Two]:
  assumes "P []" and "\<And>a. P [a]" and "\<And>a b xs. P xs \<Longrightarrow> P (a # b # xs)"
  shows "P xs"
  by (induction xs rule: induct_list012) (use assms in auto)

lemma length_slice_chunks_two [len_simps]:
  "length (slice_chunks 2 xs) = (length xs + 1) div 2"
  by (induction xs rule: induct_two) auto

lemma length_slice_chunks_exact_two [len_simps]:
  "length (slice_chunks_exact 2 xs) = length xs div 2"
  by (induction xs rule: induct_two) auto

section \<open>Bytes, exhaustively\<close>

lemma byte_in_range: "(b :: u8) \<in> set (map of_nat [0..<256])"
proof -
  have "unat b < 256"
    using unsigned_less [of b] by simp
  then have "of_nat (unat b) \<in> (of_nat :: nat \<Rightarrow> u8) ` set [0..<256]"
    by (intro imageI) simp
  then show ?thesis by simp
qed

lemma all_bytesI: "list_all P (map of_nat [0..<256]) \<Longrightarrow> P (b :: u8)"
  using byte_in_range [of b] by (auto simp: list_all_iff)

lemma byte_bit_beyond [simp]: "8 \<le> n \<Longrightarrow> \<not> bit (b :: u8) n"
  by (auto dest: bit_imp_le_length)

section \<open>Maps over lists\<close>

lemma length_concat_replicate [len_simps]:
  "length (concat (map (\<lambda>x. replicate n (f x)) xs)) = n * length xs"
  by (induction xs) auto

section \<open>Ownership\<close>

text \<open>
  Several owners hold distinct things out of a stock \<open>F0\<close>, of which \<open>F\<close> is left.  An owner moves from
  \<open>h\<close> to \<open>h'\<close>: what is new was left over, and what is gone is left over again.
\<close>

definition owns :: "'a set \<Rightarrow> 'a list list \<Rightarrow> 'a set \<Rightarrow> bool" where
  "owns F0 hs F \<longleftrightarrow> distinct (concat hs) \<and> set (concat hs) \<subseteq> F0 \<and> F = F0 - set (concat hs)"

definition moves :: "'a list \<Rightarrow> 'a set \<Rightarrow> 'a list \<Rightarrow> 'a set \<Rightarrow> bool" where
  "moves h F h' F' \<longleftrightarrow> distinct h' \<and> set h' \<subseteq> set h \<union> F \<and> F' = (F \<union> set h) - set h'"

lemma owns_start [simp]: "owns F [] F"
  by (simp add: owns_def)

lemma owns_fresh [simp]: "owns F0 (hs @ [[]]) F \<longleftrightarrow> owns F0 hs F"
  by (simp add: owns_def)

lemma owns_nth:
  "owns F0 hs F \<Longrightarrow> i < length hs \<Longrightarrow> distinct (hs ! i) \<and> set (hs ! i) \<inter> F = {}"
  unfolding owns_def by (metis Diff_disjoint Int_Diff UN_upper distinct_concat_iff inf.absorb1 inf_commute nth_mem set_concat)

lemma moves_same: "distinct h \<Longrightarrow> set h \<inter> F = {} \<Longrightarrow> moves h F h F"
  by (auto simp: moves_def)

lemma owns_moves:
  assumes "owns F0 hs F" and "i < length hs" and "moves (hs ! i) F h' F'"
  shows "owns F0 (hs[i := h']) F'"
proof -
  have old: "concat hs = concat (take i hs) @ hs ! i @ concat (drop (Suc i) hs)"
    using arg_cong [OF id_take_nth_drop [OF assms(2)], of concat] by simp
  have new: "concat (hs[i := h']) = concat (take i hs) @ h' @ concat (drop (Suc i) hs)"
    using assms(2) by (simp add: upd_conv_take_nth_drop)
  define A C h where "A = concat (take i hs)" and "C = concat (drop (Suc i) hs)" and "h = hs ! i"
  have "distinct (A @ h @ C)" "set (A @ h @ C) \<subseteq> F0" "F = F0 - set (A @ h @ C)"
    using assms(1) unfolding owns_def old A_def C_def h_def by simp_all
  then have "distinct (A @ h' @ C) \<and> set (A @ h' @ C) \<subseteq> F0 \<and> F' = F0 - set (A @ h' @ C)"
    using assms(3) unfolding moves_def h_def [symmetric] by auto
  then show ?thesis unfolding owns_def new A_def C_def by simp
qed

section \<open>Pulling from a generator\<close>

text \<open>\<open>n\<close> calls of a generator one after the other; \<open>None\<close> if one of them panics.\<close>

fun iter_pull :: "('s \<Rightarrow> ('p \<times> 's) outcome) \<Rightarrow> nat \<Rightarrow> 's \<Rightarrow> ('p list \<times> 's) outcome" where
  "iter_pull nxt 0 s = Some ([], s)"
| "iter_pull nxt (Suc n) s =
     (case nxt s of
        None \<Rightarrow> None
      | Some (p, s) \<Rightarrow>
          (case iter_pull nxt n s of
             None \<Rightarrow> None
           | Some (ps, s) \<Rightarrow> Some (p # ps, s)))"

lemma iter_pull_numeral [simp]:
  "iter_pull nxt (numeral k) s =
     (case nxt s of
        None \<Rightarrow> None
      | Some (p, s) \<Rightarrow>
          (case iter_pull nxt (pred_numeral k) s of
             None \<Rightarrow> None
           | Some (ps, s) \<Rightarrow> Some (p # ps, s)))"
  by (simp add: numeral_eq_Suc)

lemma iter_pull_snoc:
  "iter_pull nxt n s = Some (ps, u) \<Longrightarrow> nxt u = Some (p, v) \<Longrightarrow>
   iter_pull nxt (Suc n) s = Some (ps @ [p], v)"
proof (induction n arbitrary: s ps)
  case 0
  then show ?case by simp
next
  case (Suc n)
  then obtain q s1 qs where "nxt s = Some (q, s1)" "iter_pull nxt n s1 = Some (qs, u)" "ps = q # qs"
    by (auto split: option.splits)
  with Suc.IH [of s1 qs] Suc.prems(2) show ?case
    by (simp only: iter_pull.simps(2) [of nxt "Suc n" s]) simp
qed

text \<open>
  A round-robin generator: it visits \<open>cap\<close> items in turn, and \<open>idx\<close> is the place of the next one.
\<close>

locale round_robin =
  fixes nxt :: "'s \<Rightarrow> ('p \<times> 's) outcome"
    and ok :: "'s \<Rightarrow> bool"
    and cap :: "'s \<Rightarrow> nat"
    and idx :: "'s \<Rightarrow> nat"
    and item :: "'s \<Rightarrow> nat \<Rightarrow> 'p"
  assumes nxt_ok: "ok s \<Longrightarrow> \<exists>s'. nxt s = Some (item s (idx s), s') \<and> ok s' \<and>
      cap s' = cap s \<and> item s' = item s \<and> idx s' = (idx s + 1) mod cap s"
    and idx_less: "ok s \<Longrightarrow> idx s < cap s"
    and item_inj: "ok s \<Longrightarrow> inj_on (item s) {..<cap s}"
begin

definition round :: "'s \<Rightarrow> nat \<Rightarrow> 'p list" where
  "round s n = map (\<lambda>k. item s ((idx s + k) mod cap s)) [0..<n]"

lemma round_Suc:
  assumes "ok s" and "cap s' = cap s" and "item s' = item s" and "idx s' = (idx s + 1) mod cap s"
  shows "round s (Suc n) = item s (idx s) # round s' n"
proof -
  have "[0..<Suc n] = 0 # map Suc [0..<n]"
    by (simp add: upt_conv_Cons map_Suc_upt del: upt_Suc)
  then show ?thesis
    using idx_less [OF assms(1)]
    by (simp add: round_def assms(2-4) mod_add_left_eq comp_def del: upt_Suc)
qed

lemma pull_round:
  "ok s \<Longrightarrow> \<exists>s'. iter_pull nxt n s = Some (round s n, s') \<and> ok s' \<and> cap s' = cap s \<and>
     item s' = item s \<and> idx s' = (idx s + n) mod cap s"
proof (induction n arbitrary: s)
  case 0
  then show ?case using idx_less [of s] by (simp add: round_def)
next
  case (Suc n)
  obtain u where u: "nxt s = Some (item s (idx s), u)" "ok u" "cap u = cap s" "item u = item s"
    "idx u = (idx s + 1) mod cap s"
    using nxt_ok [OF Suc.prems] by blast
  obtain v where v: "iter_pull nxt n u = Some (round u n, v)" "ok v" "cap v = cap u"
    "item v = item u" "idx v = (idx u + n) mod cap u"
    using Suc.IH [OF u(2)] by blast
  then show ?case
    using u round_Suc [OF Suc.prems u(3-5)] by (simp add: mod_add_left_eq)
qed

lemma set_full_round: "ok s \<Longrightarrow> set (round s (cap s)) = item s ` {..<cap s}"
proof -
  assume ok: "ok s"
  have lt: "idx s < cap s" by (rule idx_less [OF ok])
  have "(\<lambda>k. (idx s + k) mod cap s) ` {..<cap s} = {..<cap s}"
  proof (intro equalityI subsetI)
    fix j assume j: "j \<in> {..<cap s}"
    define k where "k = (if idx s \<le> j then j - idx s else cap s + j - idx s)"
    have "k < cap s" "(idx s + k) mod cap s = j"
      using j lt by (auto simp: k_def)
    then show "j \<in> (\<lambda>k. (idx s + k) mod cap s) ` {..<cap s}" by (force intro: rev_image_eqI)
  qed (use lt in auto)
  moreover have "set (round s (cap s)) = item s ` (\<lambda>k. (idx s + k) mod cap s) ` {..<cap s}"
    by (auto simp: round_def)
  ultimately show ?thesis by simp
qed

lemma distinct_full_round: "ok s \<Longrightarrow> distinct (round s (cap s))"
proof (rule card_distinct)
  assume ok: "ok s"
  have "length (round s (cap s)) = cap s" by (simp add: round_def)
  then show "card (set (round s (cap s))) = length (round s (cap s))"
    by (simp add: set_full_round [OF ok] card_image [OF item_inj [OF ok]])
qed

end

end
