(* ===== verification/RustStr.thy ===== *)
theory RustStr
  imports Prelude
begin

text \<open>
  The string operations of the Rust standard library that the server uses, on the UTF-8 bytes
  of a \<open>str\<close>: \<open>eq_ignore_ascii_case\<close>, decimal \<open>Display\<close>, \<open>u8::from_str\<close> and
  \<open>split_whitespace\<close>.
\<close>

section \<open>ASCII case\<close>

definition ascii_lower :: "char \<Rightarrow> char" where
  "ascii_lower c =
     (let n = (of_char c :: nat) in if 65 \<le> n \<and> n \<le> 90 then char_of (n + 32) else c)"

definition eq_ignore_ascii_case :: "string \<Rightarrow> string \<Rightarrow> bool" where
  "eq_ignore_ascii_case s t \<longleftrightarrow> map ascii_lower s = map ascii_lower t"

lemma eq_ignore_ascii_case_refl [simp]: "eq_ignore_ascii_case s s"
  by (simp add: eq_ignore_ascii_case_def)

lemma eq_ignore_ascii_case_cong:
  "eq_ignore_ascii_case s t \<Longrightarrow> eq_ignore_ascii_case s u \<longleftrightarrow> eq_ignore_ascii_case t u"
  by (simp add: eq_ignore_ascii_case_def)

text \<open>The letters and digits of the codec names.\<close>

lemma ascii_lower_codec_chars [simp]:
  "ascii_lower CHR ''T'' = CHR ''t''" "ascii_lower CHR ''P'' = CHR ''p''" "ascii_lower CHR ''C'' = CHR ''c''"
  "ascii_lower CHR ''M'' = CHR ''m''" "ascii_lower CHR ''U'' = CHR ''u''"
  "ascii_lower CHR ''A'' = CHR ''a''" "ascii_lower CHR ''G'' = CHR ''g''"
  "ascii_lower CHR ''O'' = CHR ''o''" "ascii_lower CHR ''L'' = CHR ''l''"
  "ascii_lower CHR ''p'' = CHR ''p''" "ascii_lower CHR ''c'' = CHR ''c''"
  "ascii_lower CHR ''m'' = CHR ''m''" "ascii_lower CHR ''u'' = CHR ''u''"
  "ascii_lower CHR ''a'' = CHR ''a''" "ascii_lower CHR ''g'' = CHR ''g''"
  "ascii_lower CHR ''o'' = CHR ''o''" "ascii_lower CHR ''l'' = CHR ''l''"
  "ascii_lower CHR ''s'' = CHR ''s''" "ascii_lower CHR ''1'' = CHR ''1''"
  "ascii_lower CHR ''2'' = CHR ''2''" "ascii_lower CHR ''6'' = CHR ''6''"
  "ascii_lower CHR ''7'' = CHR ''7''"
  by code_simp+

section \<open>Decimal numbers\<close>

definition digit_char :: "nat \<Rightarrow> char" where
  "digit_char d = char_of (48 + d)"

definition digit_value :: "char \<Rightarrow> nat option" where
  "digit_value c =
     (let n = (of_char c :: nat) in if 48 \<le> n \<and> n \<le> 57 then Some (n - 48) else None)"

lemma digit_chars:
  "digit_char 0 = CHR ''0''" "digit_char 1 = CHR ''1''" "digit_char 2 = CHR ''2''"
  "digit_char 4 = CHR ''4''" "digit_char 6 = CHR ''6''" "digit_char 8 = CHR ''8''"
  "digit_char 9 = CHR ''9''"
  by code_simp+

text \<open>\<open>Display\<close> of an unsigned integer.\<close>

fun show_nat :: "nat \<Rightarrow> string" where
  "show_nat n = (if n < 10 then [digit_char n] else show_nat (n div 10) @ [digit_char (n mod 10)])"

declare show_nat.simps [simp del]

text \<open>
  \<open>u8::from_str\<close>: an optional plus sign, at least one digit, and an error as soon as the value
  leaves the range.
\<close>

fun parse_digits :: "nat \<Rightarrow> nat \<Rightarrow> string \<Rightarrow> nat option" where
  "parse_digits bound acc [] = Some acc"
| "parse_digits bound acc (c # cs) =
     (case digit_value c of
        None \<Rightarrow> None
      | Some d \<Rightarrow> (if acc * 10 + d < bound then parse_digits bound (acc * 10 + d) cs else None))"

definition parse_u8 :: "string \<Rightarrow> u8 option" where
  "parse_u8 s =
     (case s of
        [] \<Rightarrow> None
      | c # cs \<Rightarrow>
          (if c = CHR ''+'' then (if cs = [] then None else map_option of_nat (parse_digits 256 0 cs))
           else map_option of_nat (parse_digits 256 0 s)))"

lemma digit_value_digit_char [simp]: "d < 10 \<Longrightarrow> digit_value (digit_char d) = Some d"
  by (simp add: digit_value_def digit_char_def)

lemma parse_digits_append:
  "parse_digits b acc (xs @ ys) =
     (case parse_digits b acc xs of None \<Rightarrow> None | Some a \<Rightarrow> parse_digits b a ys)"
  by (induction b acc xs rule: parse_digits.induct) (auto split: option.splits)

lemma parse_show_digits: "n < b \<Longrightarrow> parse_digits b 0 (show_nat n) = Some n"
proof (induction n rule: show_nat.induct)
  case (1 n)
  show ?case
  proof (cases "n < 10")
    case True
    then show ?thesis using 1 by (simp add: show_nat.simps [of n])
  next
    case False
    then have "parse_digits b 0 (show_nat (n div 10)) = Some (n div 10)"
      using 1 by simp
    moreover have "n div 10 * 10 + n mod 10 = n" by simp
    ultimately show ?thesis
      using False 1 by (simp add: show_nat.simps [of n] parse_digits_append)
  qed
qed

lemma digit_char_props:
  "d < 10 \<Longrightarrow> of_char (digit_char d) = 48 + d" "d < 10 \<Longrightarrow> digit_char d \<noteq> CHR ''+''"
proof -
  assume d: "d < 10"
  show v: "of_char (digit_char d) = 48 + d" using d by (simp add: digit_char_def)
  show "digit_char d \<noteq> CHR ''+''"
    using v arg_cong [of "digit_char d" "CHR ''+''" "of_char :: char \<Rightarrow> nat"] by auto
qed

lemma show_nat_chars: "c \<in> set (show_nat n) \<Longrightarrow> \<exists>d<10. c = digit_char d"
proof (induction n rule: show_nat.induct)
  case (1 n)
  have "n mod 10 < 10" by simp
  with 1 show ?case
    by (subst (asm) show_nat.simps) (auto split: if_splits intro: exI [of _ "n mod 10"])
qed

lemma show_nat_not_Nil [simp]: "show_nat n \<noteq> []"
  by (subst show_nat.simps) simp

lemma parse_show_u8: "parse_u8 (show_nat (unat (w :: u8))) = Some w"
proof -
  have "unat w < 256" using unsigned_less [of w] by simp
  then have p: "parse_digits 256 0 (show_nat (unat w)) = Some (unat w)"
    by (rule parse_show_digits)
  obtain c cs where s: "show_nat (unat w) = c # cs"
    by (cases "show_nat (unat w)") auto
  then obtain d where "d < 10" "c = digit_char d"
    using show_nat_chars [of c "unat w"] by auto
  then have "c \<noteq> CHR ''+''" by (simp add: digit_char_props(2))
  then show ?thesis using p s by (simp add: parse_u8_def)
qed

lemma show_nat_inj: "show_nat m = show_nat n \<Longrightarrow> m = n"
proof -
  assume eq: "show_nat m = show_nat n"
  have "parse_digits (Suc (m + n)) 0 (show_nat m) = Some m"
    by (rule parse_show_digits) simp
  moreover have "parse_digits (Suc (m + n)) 0 (show_nat n) = Some n"
    by (rule parse_show_digits) simp
  ultimately show "m = n" unfolding eq by (metis option.inject)
qed

section \<open>Splitting at white space\<close>

text \<open>
  The length of the Unicode \<open>White_Space\<close> character a byte string begins with, 0 if none does.
  UTF-8 is self-synchronising, so on a valid \<open>str\<close> this finds exactly the white space.
\<close>

fun ws_prefix :: "nat list \<Rightarrow> nat" where
  "ws_prefix [] = 0"
| "ws_prefix (a # bs) =
     (if a = 32 \<or> (9 \<le> a \<and> a \<le> 13) then 1
      else case bs of
        [] \<Rightarrow> 0
      | b # cs \<Rightarrow>
          (if a = 194 \<and> (b = 133 \<or> b = 160) then 2
           else case cs of
             [] \<Rightarrow> 0
           | c # _ \<Rightarrow>
               (if (a = 225 \<and> b = 154 \<and> c = 128)
                   \<or> (a = 226 \<and> b = 128 \<and> ((128 \<le> c \<and> c \<le> 138) \<or> c = 168 \<or> c = 169 \<or> c = 175))
                   \<or> (a = 226 \<and> b = 129 \<and> c = 159)
                   \<or> (a = 227 \<and> b = 128 \<and> c = 128) then 3 else 0)))"

text \<open>The pieces between runs of white space; empty pieces are not produced.\<close>

definition flush_piece :: "string \<Rightarrow> string list \<Rightarrow> string list" where
  "flush_piece cur rest = (if cur = [] then rest else cur # rest)"

fun split_ws_aux :: "nat \<Rightarrow> string \<Rightarrow> string \<Rightarrow> string list" where
  "split_ws_aux skip cur [] = flush_piece cur []"
| "split_ws_aux (Suc k) cur (c # cs) = split_ws_aux k cur cs"
| "split_ws_aux 0 cur (c # cs) =
     (let w = ws_prefix (map of_char (c # cs))
      in if w = 0 then split_ws_aux 0 (cur @ [c]) cs
         else flush_piece cur (split_ws_aux (w - 1) [] cs))"

definition split_whitespace :: "string \<Rightarrow> string list" where
  "split_whitespace s = split_ws_aux 0 [] s"

text \<open>Bytes below 128 that are not white space start no white-space character.\<close>

definition ascii_graphic :: "char \<Rightarrow> bool" where
  "ascii_graphic c \<longleftrightarrow> 33 \<le> (of_char c :: nat) \<and> (of_char c :: nat) \<le> 126"

lemma ws_prefix_graphic: "ascii_graphic c \<Longrightarrow> ws_prefix (of_char c # bs) = 0"
  by (auto simp: ascii_graphic_def split: list.splits)

lemma split_ws_aux_graphic:
  "list_all ascii_graphic xs \<Longrightarrow> split_ws_aux 0 cur (xs @ ys) = split_ws_aux 0 (cur @ xs) ys"
  by (induction xs arbitrary: cur) (auto simp: ws_prefix_graphic simp del: ws_prefix.simps)

lemma split_whitespace_word:
  "list_all ascii_graphic xs \<Longrightarrow> xs \<noteq> [] \<Longrightarrow> split_whitespace xs = [xs]"
  using split_ws_aux_graphic [of xs "[]" "[]"] by (simp add: split_whitespace_def flush_piece_def)

lemma split_ws_aux_words:
  "list_all (\<lambda>w. w \<noteq> [] \<and> list_all ascii_graphic w) ws \<Longrightarrow> cur = [] \<Longrightarrow>
   split_ws_aux 0 cur (concat (map (\<lambda>w. w @ '' '') ws)) = ws"
proof (induction ws arbitrary: cur)
  case Nil
  then show ?case by (simp add: flush_piece_def)
next
  case (Cons w ws)
  have "split_ws_aux 0 w ('' '' @ concat (map (\<lambda>w. w @ '' '') ws)) = w # ws"
    using Cons by (simp add: flush_piece_def)
  then show ?case
    using Cons.prems split_ws_aux_graphic [of w "[]" "'' '' @ concat (map (\<lambda>w. w @ '' '') ws)"]
    by simp
qed

lemma show_nat_graphic [simp]: "list_all ascii_graphic (show_nat n)"
  using show_nat_chars [of _ n] by (fastforce simp: list_all_iff ascii_graphic_def digit_char_props)

section \<open>Lines\<close>

definition CRLF :: string where
  "CRLF = [CHR 0x0D, CHR 0x0A]"

text \<open>The lines of a text in which every line ends with \<open>CRLF\<close>; what follows the last is dropped.\<close>

fun crlf_lines_aux :: "string \<Rightarrow> string \<Rightarrow> string list" where
  "crlf_lines_aux cur [] = []"
| "crlf_lines_aux cur [c] = []"
| "crlf_lines_aux cur (c # d # cs) =
     (if c = CHR 0x0D \<and> d = CHR 0x0A then cur # crlf_lines_aux [] cs
      else crlf_lines_aux (cur @ [c]) (d # cs))"

definition crlf_lines :: "string \<Rightarrow> string list" where
  "crlf_lines s = crlf_lines_aux [] s"

definition printable :: "char \<Rightarrow> bool" where
  "printable c \<longleftrightarrow> 32 \<le> (of_char c :: nat) \<and> (of_char c :: nat) \<le> 126"

lemma printable_not_CR: "printable c \<Longrightarrow> c \<noteq> CHR 0x0D"
  by (auto simp: printable_def)

lemma ascii_graphic_printable: "ascii_graphic c \<Longrightarrow> printable c"
  by (simp add: printable_def ascii_graphic_def)

lemma graphic_printable [simp]: "list_all ascii_graphic s \<Longrightarrow> list_all printable s"
  by (auto simp: list_all_iff ascii_graphic_printable)

lemma crlf_lines_aux_line:
  "list_all printable l \<Longrightarrow> crlf_lines_aux cur (l @ CRLF @ rest) = (cur @ l) # crlf_lines_aux [] rest"
proof (induction l arbitrary: cur)
  case Nil
  then show ?case by (simp add: CRLF_def)
next
  case (Cons c l)
  obtain d ds where "l @ CRLF @ rest = d # ds" by (cases "l @ CRLF @ rest") (auto simp: CRLF_def)
  then show ?case using Cons printable_not_CR [of c] by simp
qed

lemma crlf_lines_line:
  "list_all printable l \<Longrightarrow> crlf_lines (l @ CRLF @ rest) = l # crlf_lines rest"
  using crlf_lines_aux_line [of l "[]" rest] by (simp add: crlf_lines_def)

lemma crlf_lines_Nil [simp]: "crlf_lines [] = []"
  by (simp add: crlf_lines_def)

end
