(* ===== verification/Codec.thy ===== *)
theory Codec
  imports RustStr
begin

text \<open>
  The codec vocabulary of \<open>codec/mod.rs\<close>: which codecs exist, how a name of an SDP offer becomes
  a kind, the preference order, and the RTP clock step.  Which kinds a build has is decided by
  its Cargo features, a parameter here.
\<close>

section \<open>Kinds and features\<close>

record features =
  feat_opus :: bool
  feat_g722 :: bool

datatype codec_kind = L16 | Opus | G722 | Pcmu | Pcma

text \<open>The derived \<open>Ord\<close> of the source: declaration order.\<close>

primrec kind_rank :: "codec_kind \<Rightarrow> nat" where
  "kind_rank L16 = 0"
| "kind_rank Opus = 1"
| "kind_rank G722 = 2"
| "kind_rank Pcmu = 3"
| "kind_rank Pcma = 4"

lemma kind_rank_inject [simp]: "kind_rank a = kind_rank b \<longleftrightarrow> a = b"
  by (cases a; cases b) auto

instantiation codec_kind :: linorder
begin

definition less_eq_codec_kind :: "codec_kind \<Rightarrow> codec_kind \<Rightarrow> bool" where
  "less_eq_codec_kind a b \<longleftrightarrow> kind_rank a \<le> kind_rank b"

definition less_codec_kind :: "codec_kind \<Rightarrow> codec_kind \<Rightarrow> bool" where
  "less_codec_kind a b \<longleftrightarrow> kind_rank a < kind_rank b"

instance
proof
  fix a b :: codec_kind
  show "a \<le> b \<Longrightarrow> b \<le> a \<Longrightarrow> a = b"
    using kind_rank_inject [of a b] by (simp add: less_eq_codec_kind_def)
qed (auto simp: less_eq_codec_kind_def less_codec_kind_def)

end

text \<open>\<open>CodecKind::iter\<close>: the kinds of this build.\<close>

definition kind_enabled :: "features \<Rightarrow> codec_kind \<Rightarrow> bool" where
  "kind_enabled fs k =
     (case k of Opus \<Rightarrow> feat_opus fs | G722 \<Rightarrow> feat_g722 fs | _ \<Rightarrow> True)"

definition kind_iter :: "features \<Rightarrow> codec_kind list" where
  "kind_iter fs = filter (kind_enabled fs) [L16, Opus, G722, Pcmu, Pcma]"

section \<open>Names\<close>

definition from_name :: "features \<Rightarrow> string \<Rightarrow> codec_kind option" where
  "from_name fs codec_name =
     (if eq_ignore_ascii_case codec_name ''pcmu'' then Some Pcmu
      else if eq_ignore_ascii_case codec_name ''pcma'' then Some Pcma
      else if feat_g722 fs \<and> eq_ignore_ascii_case codec_name ''g722'' then Some G722
      else if feat_opus fs \<and> eq_ignore_ascii_case codec_name ''opus'' then Some Opus
      else if eq_ignore_ascii_case codec_name ''l16'' then Some L16
      else None)"

primrec kind_name :: "codec_kind \<Rightarrow> string" where
  "kind_name Pcmu = ''PCMU''"
| "kind_name Pcma = ''PCMA''"
| "kind_name G722 = ''G722''"
| "kind_name Opus = ''opus''"
| "kind_name L16 = ''L16''"

datatype timestamp_increment = TimestampIncrement (ticks: u32)

text \<open>The internal sample rate, and the samples of a frame of 20 ms.\<close>

definition SAMPLE_RATE_HZ :: u32 where
  "SAMPLE_RATE_HZ = 16000"

definition SAMPLES_PER_FRAME :: nat where
  "SAMPLES_PER_FRAME = (unat SAMPLE_RATE_HZ * 20) div 1000"

lemma SAMPLES_PER_FRAME_eq [simp]: "SAMPLES_PER_FRAME = 320"
  by (simp add: SAMPLES_PER_FRAME_def SAMPLE_RATE_HZ_def)

record codec_init_error =
  err_kind :: codec_kind
  err_reason :: string

definition show_codec_init_error :: "codec_init_error \<Rightarrow> string" where
  "show_codec_init_error e =
     ''failed to initialize '' @ kind_name (err_kind e) @ '' codec: '' @ err_reason e"

section \<open>Names and kinds\<close>

lemma set_kind_iter: "k \<in> set (kind_iter fs) \<longleftrightarrow> kind_enabled fs k"
  by (cases k) (auto simp: kind_iter_def)

lemma from_name_kind_name: "from_name fs (kind_name k) = (if kind_enabled fs k then Some k else None)"
  by (cases k) (simp_all add: from_name_def kind_enabled_def eq_ignore_ascii_case_def)

lemma from_name_cong:
  "eq_ignore_ascii_case s t \<Longrightarrow> from_name fs s = from_name fs t"
  by (simp add: from_name_def eq_ignore_ascii_case_cong [of s t])

lemma from_name_enabled: "from_name fs s = Some k \<Longrightarrow> kind_enabled fs k"
  by (auto simp: from_name_def kind_enabled_def split: if_splits)

lemma from_name_SomeD: "from_name fs s = Some k \<Longrightarrow> eq_ignore_ascii_case s (kind_name k)"
  by (auto simp: from_name_def eq_ignore_ascii_case_def split: if_splits)

lemma kind_name_inject: "kind_name a = kind_name b \<longleftrightarrow> a = b"
  by (cases a; cases b) auto

text \<open>
  Names and kinds agree: a name parses to a kind exactly when the build has the kind and the name
  is the kind's canonical name up to ASCII case, so unknown names and the names of disabled
  codecs are rejected, and no name is ambiguous.\<close>

lemma from_name_iff:
  "from_name fs s = Some k \<longleftrightarrow> kind_enabled fs k \<and> eq_ignore_ascii_case s (kind_name k)"
  using from_name_cong [of s "kind_name k" fs] from_name_kind_name [of fs k]
    from_name_enabled from_name_SomeD by (metis option.distinct(1))

end
