(* ===== verification/CodecL16.thy ===== *)
theory CodecL16
  imports Codec
begin

text \<open>
  \<open>codec/l16.rs\<close>: uncompressed samples in network byte order.  The \<open>expect\<close> on a two-byte chunk
  is a branch of the model, and \<open>l16_decode_total\<close> shows that it is never taken.
\<close>

definition from_be_bytes_i16 :: "u8 list \<Rightarrow> i16 outcome" where
  "from_be_bytes_i16 chunk =
     (case chunk of [hi, lo] \<Rightarrow> Some (push_bit 8 (ucast hi) OR ucast lo) | _ \<Rightarrow> None)"

definition to_be_bytes_i16 :: "i16 \<Rightarrow> u8 list" where
  "to_be_bytes_i16 s = [ucast (drop_bit 8 s), ucast s]"

definition l16_decode :: "u8 list \<Rightarrow> i16 list outcome" where
  "l16_decode payload = those (map from_be_bytes_i16 (slice_chunks_exact 2 payload))"

definition l16_encode :: "i16 list \<Rightarrow> u8 list" where
  "l16_encode samples = concat (map to_be_bytes_i16 samples)"

definition l16_samples_per_frame :: nat where
  "l16_samples_per_frame = SAMPLES_PER_FRAME"

definition l16_rtp_timestamp_increment :: timestamp_increment where
  "l16_rtp_timestamp_increment = TimestampIncrement 320"

declare l16_samples_per_frame_def [simp] l16_rtp_timestamp_increment_def [simp]

lemma from_to_be_bytes: "from_be_bytes_i16 (to_be_bytes_i16 s) = Some s"
proof -
  have "push_bit 8 (ucast (ucast (drop_bit 8 s) :: u8)) OR ucast (ucast s :: u8) = s"
    by (rule bit_word_eqI) (auto simp: bit_simps)
  then show ?thesis by (simp add: from_be_bytes_i16_def to_be_bytes_i16_def)
qed

lemma to_from_be_bytes: "from_be_bytes_i16 [a, b] = Some s \<Longrightarrow> to_be_bytes_i16 s = [a, b]"
  by (auto simp: from_be_bytes_i16_def to_be_bytes_i16_def intro!: bit_word_eqI
      simp: bit_simps dest: bit_imp_le_length)

lemma l16_decode_simps [simp]:
  "l16_decode [] = Some []"
  "l16_decode [a] = Some []"
  "l16_decode (a # b # p) =
     map_option ((#) (push_bit 8 (ucast a) OR ucast b)) (l16_decode p)"
  by (simp_all add: l16_decode_def from_be_bytes_i16_def split: option.splits)

lemma l16_encode_simps [simp]:
  "l16_encode [] = []"
  "l16_encode (s # ss) = to_be_bytes_i16 s @ l16_encode ss"
  by (simp_all add: l16_encode_def)

lemma length_l16_encode [len_simps]: "length (l16_encode s) = 2 * length s"
  by (induction s) (auto simp: to_be_bytes_i16_def)

lemma l16_encode_empty_iff: "l16_encode s = [] \<longleftrightarrow> s = []"
  by (cases s) (auto simp: to_be_bytes_i16_def)

lemma l16_decode_total: "\<exists>s. l16_decode p = Some s \<and> length s = length p div 2"
  by (induction p rule: induct_two) auto

lemma l16_decode_encode: "l16_decode (l16_encode s) = Some s"
proof (induction s)
  case (Cons x s)
  have "l16_decode (to_be_bytes_i16 x @ q) = map_option ((#) x) (l16_decode q)" for q
    using from_to_be_bytes [of x] by (simp add: to_be_bytes_i16_def from_be_bytes_i16_def)
  then show ?case using Cons by simp
qed simp

lemma l16_encode_decode: "l16_decode p = Some s \<Longrightarrow> l16_encode s = take (2 * (length p div 2)) p"
proof (induction p arbitrary: s rule: induct_two)
  case (Two a b p)
  then obtain t where t: "l16_decode p = Some t" and s: "s = (push_bit 8 (ucast a) OR ucast b) # t"
    by auto
  then show ?case
    using Two.IH [OF t] to_from_be_bytes [of a b "push_bit 8 (ucast a) OR ucast b"]
    by (simp add: from_be_bytes_i16_def)
qed auto

end
