(* ===== verification/G711.thy ===== *)
theory G711
  imports Prelude
begin

text \<open>
  What the two G.711 codecs (\<open>codec/pcmu.rs\<close>, \<open>codec/pcma.rs\<close>) share: a sample compander used
  through a 256-entry decode table, and the factor-two resampling between the 8 kHz wire
  format and the internal 16 kHz.  The locale \<open>g711_codec\<close> states what a compander must satisfy
  and proves the facts on whole frames once; \<open>g711_lossless\<close> is the contract of a compander
  that gets every byte back.
\<close>

section \<open>Leading zeros of a 32-bit word\<close>

definition leading_zeros :: "u32 \<Rightarrow> nat" where
  "leading_zeros w = length (takeWhile (\<lambda>i. \<not> bit w i) (rev [0..<32]))"

lemma leading_zeros_of_int:
  fixes n :: int
  assumes "2 ^ k \<le> n" and "n < 2 ^ Suc k" and k: "k < 32"
  shows "leading_zeros (word_of_int n) = 31 - k"
proof -
  have top: "n div 2 ^ k = 1"
    using assms(1,2) by (intro int_div_pos_eq [where r = "n - 2 ^ k"]) auto
  have above: "n div 2 ^ i = 0" if "k < i" for i
  proof -
    have "n < 2 ^ i"
      using assms(2) that power_increasing [of "Suc k" i "2::int"] by linarith
    moreover have "0 \<le> n"
      using assms(1) by (rule order_trans [rotated]) simp
    ultimately show ?thesis by simp
  qed
  have bits: "bit (word_of_int n :: u32) i \<longleftrightarrow> odd (n div 2 ^ i)" if "i < 32" for i
    using that by (simp add: bit_word_of_int_iff bit_iff_odd [of n])
  have "[0..<32] = [0..<k] @ [k..<32]"
    using k upt_add_eq_append [of 0 k "32 - k"] by simp
  moreover have "[k..<32] = k # [Suc k..<32]"
    using k by (rule upt_conv_Cons)
  ultimately have split: "rev [0..<32] = rev [Suc k..<32] @ k # rev [0..<k]"
    by simp
  have "takeWhile (\<lambda>i. \<not> bit (word_of_int n :: u32) i) (rev [0..<32]) = rev [Suc k..<32]"
    unfolding split using above top k
    by (subst takeWhile_append2) (auto simp: bits)
  then show ?thesis
    by (simp add: leading_zeros_def)
qed

section \<open>The fields of a code byte\<close>

lemma byte_fields_eq:
  fixes x :: u8
  shows "((x AND 0x80) OR push_bit 4 (drop_bit 4 x AND 7)) OR (x AND 15) = x"
proof (rule bit_word_eqI)
  fix n assume "n < LENGTH(8)"
  then have "n \<in> {0, 1, 2, 3, 4, 5, 6, 7}" by auto
  then show "bit (((x AND 0x80) OR push_bit 4 (drop_bit 4 x AND 7)) OR (x AND 15)) n = bit x n"
    by (auto simp: bit_simps)
qed

lemma byte_sign:
  fixes x :: u8
  shows "x AND 0x80 = (if x AND 0x80 \<noteq> 0 then 0x80 else 0)"
proof -
  have "x AND 0x80 = (if bit x 7 then 0x80 else 0)"
  proof (rule bit_word_eqI)
    fix n assume "n < LENGTH(8)"
    then have "n \<in> {0, 1, 2, 3, 4, 5, 6, 7}" by auto
    then show "bit (x AND 0x80) n = bit (if bit x 7 then 0x80 else 0 :: u8) n"
      by (auto simp: bit_simps)
  qed
  then show ?thesis by simp
qed

lemma byte_fields:
  fixes x :: u8
  obtains s e m where "e < 8" and "m < 16"
    and "x = ((if s then 0x80 else 0) OR push_bit 4 (word_of_int (int e))) OR word_of_int (int m)"
proof (rule that)
  have "drop_bit 4 x AND 7 \<le> 7" by (rule word_and_le1)
  then show "unat (drop_bit 4 x AND 7) < 8" by (simp add: word_le_nat_alt)
  have "x AND 15 \<le> 15" by (rule word_and_le1)
  then show "unat (x AND 15) < 16" by (simp add: word_le_nat_alt)
  show "x = ((if x AND 0x80 \<noteq> 0 then 0x80 else 0)
      OR push_bit 4 (word_of_int (int (unat (drop_bit 4 x AND 7)))))
      OR word_of_int (int (unat (x AND 15)))"
    using byte_fields_eq [of x] byte_sign [of x] by simp
qed

section \<open>Frames over a sample compander\<close>

locale g711_codec =
  fixes dec_sample :: "u8 \<Rightarrow> i16"
    and enc_sample :: "i16 \<Rightarrow> u8"
    and decode :: "u8 list \<Rightarrow> i16 list"
    and encode :: "i16 list \<Rightarrow> u8 list"
    and slack :: int
  assumes decode_eq: "decode p = concat (map (\<lambda>b. replicate 2 (dec_sample b)) p)"
    and encode_eq: "encode s = map (\<lambda>c. enc_sample (c ! (length c div 2))) (slice_chunks 2 s)"
    and stable: "dec_sample (enc_sample (dec_sample b)) = dec_sample b"
    and accurate: "32 * \<bar>sint (dec_sample (enc_sample x)) - sint x\<bar> \<le> \<bar>sint x\<bar> + slack"
    and ordered: "sint x \<le> sint y \<Longrightarrow>
      sint (dec_sample (enc_sample x)) \<le> sint (dec_sample (enc_sample y))"
begin

lemma decode_simps [simp]:
  "decode [] = []"
  "decode (b # p) = dec_sample b # dec_sample b # decode p"
  by (simp_all add: decode_eq numeral_2_eq_2)

lemma encode_simps [simp]:
  "encode [] = []"
  "encode [x] = [enc_sample x]"
  "encode (x # y # s) = enc_sample y # encode s"
  by (simp_all add: encode_eq)

lemma length_decode: "length (decode p) = 2 * length p"
  by (induction p) auto

lemma length_encode: "length (encode s) = (length s + 1) div 2"
  by (simp add: encode_eq len_simps)

lemma encode_empty_iff: "encode s = [] \<longleftrightarrow> s = []"
  by (induction s rule: induct_two) auto

lemma encode_decode: "encode (decode p) = map (\<lambda>b. enc_sample (dec_sample b)) p"
  by (induction p) auto

lemma decode_encode_decode: "decode (encode (decode p)) = decode p"
  by (induction p) (auto simp: stable)

lemma decode_encode_nth:
  assumes "2 * j + 1 < length s"
  shows "decode (encode s) ! (2 * j) = dec_sample (enc_sample (s ! (2 * j + 1)))"
    and "decode (encode s) ! (2 * j + 1) = dec_sample (enc_sample (s ! (2 * j + 1)))"
  using assms
proof (induction s arbitrary: j rule: induct_two)
  case (Two a b xs)
  { case 1 then show ?case using Two by (cases j) auto }
  { case 2 then show ?case using Two by (cases j) auto }
qed auto

lemma frame_accuracy:
  assumes "2 * j + 1 < length s"
  shows "32 * \<bar>sint (decode (encode s) ! (2 * j)) - sint (s ! (2 * j + 1))\<bar>
           \<le> \<bar>sint (s ! (2 * j + 1))\<bar> + slack"
  by (simp only: decode_encode_nth(1) [OF assms] accurate)

end

locale g711_lossless = g711_codec +
  assumes enc_dec: "enc_sample (dec_sample b) = b"
begin

lemma encode_decode_id: "encode (decode p) = p"
  by (induction p) (auto simp: enc_dec)

end

section \<open>Quantisation of a magnitude in a segment of width \<open>2 ^ w\<close>\<close>

text \<open>Both laws cut a magnitude to a cell of \<open>2 ^ w\<close> values and rebuild the middle of it.\<close>

lemma cell_index_range:
  fixes n c :: int
  assumes "a * c \<le> n" and "n < b * c" and "0 < c"
  shows "a \<le> n div c" and "n div c < b"
proof -
  have "a * c div c \<le> n div c"
    using assms(1,3) by (rule zdiv_mono1)
  then show "a \<le> n div c" using assms(3) by simp
  have "n div c * c \<le> n"
    using assms(3) by (simp add: minus_mod_eq_div_mult [symmetric])
  then have "n div c * c < b * c"
    using assms(2) by linarith
  then show "n div c < b"
    using assms(3) by (simp add: mult_less_cancel_right)
qed

lemma cell_index_mod: "16 \<le> (k::int) \<Longrightarrow> k < 32 \<Longrightarrow> k mod 16 = k - 16"
  by presburger

lemma cell_midpoint_close:
  fixes n h :: int
  assumes "0 < h"
  shows "\<bar>(2 * (n div (2 * h)) + 1) * h - n\<bar> \<le> h"
proof -
  have "n = 2 * h * (n div (2 * h)) + n mod (2 * h)" by simp
  moreover have "0 \<le> n mod (2 * h)" "n mod (2 * h) < 2 * h" using assms by auto
  moreover have "(2 * (n div (2 * h)) + 1) * h = 2 * h * (n div (2 * h)) + h"
    by (simp add: algebra_simps)
  ultimately show ?thesis by (simp only: abs_le_iff) linarith
qed

text \<open>The middle of the cell of \<open>n\<close> in segment \<open>e\<close>: cells of \<open>2 ^ (e + 3)\<close> values.\<close>

definition seg_mid :: "int \<Rightarrow> nat \<Rightarrow> int" where
  "seg_mid n e = (2 * (n div 2 ^ (e + 3)) + 1) * 2 ^ (e + 2)"

lemma seg_mid_close: "\<bar>seg_mid n e - n\<bar> \<le> 2 ^ (e + 2)"
proof -
  have "(2::int) * 2 ^ (e + 2) = 2 ^ (e + 3)" by (simp add: power_add)
  then show ?thesis
    using cell_midpoint_close [of "2 ^ (e + 2)" n] by (simp only: seg_mid_def) simp
qed

lemma seg_mid_same: "n \<le> n' \<Longrightarrow> seg_mid n e \<le> seg_mid n' e"
  by (simp add: seg_mid_def zdiv_mono1)

lemma seg_mid_upper:
  assumes "n < 2 ^ (e + 8)"
  shows "seg_mid n e < 2 ^ (e + 8)"
proof -
  have "n div 2 ^ (e + 3) < 32"
    using assms cell_index_range(2) [of "n div 2 ^ (e + 3)" "2 ^ (e + 3)" n 32]
    by (simp add: power_add minus_mod_eq_div_mult [symmetric])
  then have "(2 * (n div 2 ^ (e + 3)) + 1) * 2 ^ (e + 2) < 64 * (2 ^ (e + 2) :: int)"
    by (intro mult_strict_right_mono) auto
  then show ?thesis by (simp add: seg_mid_def power_add)
qed

lemma seg_mid_lower:
  assumes "2 ^ (e + 7) \<le> n"
  shows "2 ^ (e + 7) + 2 ^ (e + 2) \<le> seg_mid n e"
proof -
  have "16 * 2 ^ (e + 3) \<le> n" using assms by (simp add: power_add)
  then have "16 * 2 ^ (e + 3) div 2 ^ (e + 3) \<le> n div 2 ^ (e + 3)"
    by (rule zdiv_mono1) simp
  then have "33 * 2 ^ (e + 2) \<le> (2 * (n div 2 ^ (e + 3)) + 1) * (2 ^ (e + 2) :: int)"
    by (intro mult_right_mono) auto
  then show ?thesis by (simp add: seg_mid_def power_add)
qed

lemma seg_mid_mono:
  assumes "n \<le> n'" and "n < 2 ^ (e + 8)" and "e < e' \<Longrightarrow> 2 ^ (e' + 7) \<le> n'" and "e \<le> e'"
  shows "seg_mid n e \<le> seg_mid n' e'"
proof (cases "e = e'")
  case True
  then show ?thesis using assms(1) by (simp add: seg_mid_same)
next
  case False
  then have "(2::int) ^ (e + 8) \<le> 2 ^ (e' + 7)"
    using assms(4) by (intro power_increasing) auto
  moreover have "seg_mid n e < 2 ^ (e + 8)" by (rule seg_mid_upper [OF assms(2)])
  moreover have "2 ^ (e' + 7) + 2 ^ (e' + 2) \<le> seg_mid n' e'"
    using False assms(4) by (intro seg_mid_lower assms(3)) simp
  moreover have "(0::int) \<le> 2 ^ (e' + 2)" by simp
  ultimately show ?thesis by linarith
qed

lemma seg_order:
  assumes "n \<le> n'" and "(2::int) ^ (e + 7) \<le> n" and "n' < 2 ^ (e' + 8)"
  shows "e \<le> e'"
proof (rule ccontr)
  assume "\<not> e \<le> e'"
  then have "(2::int) ^ (e' + 8) \<le> 2 ^ (e + 7)" by (intro power_increasing) auto
  then show False using assms by linarith
qed

text \<open>Extending a monotone, non-negative level function oddly to negative samples keeps order.\<close>

lemma signed_level_mono:
  fixes f :: "int \<Rightarrow> int" and x y :: int
  assumes "x \<le> y"
    and "\<And>a. 0 \<le> a \<Longrightarrow> 0 \<le> f a" and "\<And>a b. 0 \<le> a \<Longrightarrow> a \<le> b \<Longrightarrow> f a \<le> f b"
  shows "(if x < 0 then - 1 else 1) * f \<bar>x\<bar> \<le> (if y < 0 then - 1 else 1) * f \<bar>y\<bar>"
proof -
  consider "0 \<le> x" | "x < 0" "0 \<le> y" | "y < 0" using assms(1) by linarith
  then show ?thesis
  proof cases
    case 1
    then show ?thesis using assms by simp
  next
    case 2
    then show ?thesis using assms(2) [of "- x"] assms(2) [of y] by simp
  next
    case 3
    then show ?thesis using assms(1) assms(3) [of "- y" "- x"] by simp
  qed
qed

end
