(* ===== verification/Pcmu.thy ===== *)
theory Pcmu
  imports G711 Codec
begin

text \<open>
  \<open>codec/pcmu.rs\<close>: the G.711 \<open>\<mu>\<close>-law codec.  The intermediate \<open>i32\<close> values of the source are
  integers here: \<open>ulaw_biased_bounds\<close> shows that they stay far inside the range of \<open>i32\<close>.
\<close>

section \<open>Samples\<close>

definition pcmu_RESAMPLE_FACTOR :: nat where
  "pcmu_RESAMPLE_FACTOR = 2"

definition decode_ulaw_sample :: "u8 \<Rightarrow> i16" where
  "decode_ulaw_sample byte0 =
     (let byte = NOT byte0;
          sign = (byte AND 0x80 \<noteq> 0);
          exponent = uint (drop_bit 4 byte AND 0x07);
          mantissa = uint (byte AND 0x0F);
          magnitude = push_bit (nat (exponent + 2)) (push_bit 1 mantissa OR 0x21);
          magnitude = magnitude - 0x84
      in if sign then - word_of_int magnitude else word_of_int magnitude)"

definition ulaw_BIAS :: int where "ulaw_BIAS = 0x84"

definition ulaw_CLIP :: int where "ulaw_CLIP = 32635"

definition encode_ulaw_sample :: "i16 \<Rightarrow> u8" where
  "encode_ulaw_sample sample0 =
     (let sample = sint sample0;
          sign = (if sample < 0 then 0x80 else 0 :: u8);
          sample = (if sample < 0 then - sample else sample);
          sample = (if sample > ulaw_CLIP then ulaw_CLIP else sample);
          sample = sample + ulaw_BIAS;
          exponent = min 7 (max 0 (int (leading_zeros (word_of_int sample)) - 17));
          exponent = 7 - exponent;
          mantissa = drop_bit (nat (exponent + 3)) sample AND 0x0F;
          byte = (sign OR push_bit 4 (word_of_int exponent)) OR word_of_int mantissa
      in NOT byte)"

section \<open>Frames\<close>

definition pcmu_decode_table :: "i16 list" where
  "pcmu_decode_table = map decode_ulaw_sample (map of_nat [0..<256])"

definition pcmu_decode :: "u8 list \<Rightarrow> i16 list" where
  "pcmu_decode payload =
     concat (map (\<lambda>byte. replicate pcmu_RESAMPLE_FACTOR (pcmu_decode_table ! unat byte)) payload)"

definition pcmu_encode :: "i16 list \<Rightarrow> u8 list" where
  "pcmu_encode samples =
     map (\<lambda>chunk. encode_ulaw_sample (chunk ! (length chunk div 2)))
       (slice_chunks pcmu_RESAMPLE_FACTOR samples)"

definition pcmu_samples_per_frame :: nat where
  "pcmu_samples_per_frame = SAMPLES_PER_FRAME"

definition pcmu_rtp_timestamp_increment :: timestamp_increment where
  "pcmu_rtp_timestamp_increment = TimestampIncrement 160"

declare pcmu_samples_per_frame_def [simp] pcmu_rtp_timestamp_increment_def [simp]

lemma pcmu_table_lookup [simp]: "pcmu_decode_table ! unat b = decode_ulaw_sample b"
proof -
  have "unat b < 256" using unsigned_less [of b] by simp
  then show ?thesis by (simp add: pcmu_decode_table_def)
qed

section \<open>The encoder, segment by segment\<close>

text \<open>The magnitude the encoder quantises: clipped, then biased.\<close>

definition ulaw_biased :: "int \<Rightarrow> int" where
  "ulaw_biased a = min a ulaw_CLIP + ulaw_BIAS"

lemma ulaw_biased_bounds: "0 \<le> a \<Longrightarrow> 132 \<le> ulaw_biased a \<and> ulaw_biased a \<le> 32767"
  by (simp add: ulaw_biased_def ulaw_BIAS_def ulaw_CLIP_def)

lemma decode_ulaw_fields:
  assumes "e < 8" and "m < 16"
  shows "sint (decode_ulaw_sample
           (NOT (((if s then 0x80 else 0) OR push_bit 4 (word_of_int (int e))) OR word_of_int (int m))))
         = (if s then - 1 else 1) * ((2 * int m + 33) * 2 ^ (e + 2) - 132)"
proof -
  have "\<forall>s. \<forall>e \<in> set [0..<8]. \<forall>m \<in> set [0..<16]. sint (decode_ulaw_sample
           (NOT (((if s then 0x80 else 0) OR push_bit 4 (word_of_int (int e))) OR word_of_int (int m))))
         = (if s then - 1 else 1) * ((2 * int m + 33) * 2 ^ (e + 2) - 132)"
    unfolding decode_ulaw_sample_def by code_simp
  then show ?thesis using assms by simp
qed

lemma ulaw_segment:
  assumes "132 \<le> n" and "n \<le> (32767::int)"
  obtains e where "e < 8" and "2 ^ (e + 7) \<le> n" and "n < 2 ^ (e + 8)"
proof -
  have "\<exists>e \<in> {0..<8::nat}. 2 ^ (e + 7) \<le> n \<and> n < 2 ^ (e + 8)"
    using assms by (simp add: atLeast0_lessThan_Suc numeral_eq_Suc) linarith
  then show thesis using that by auto
qed

lemma ulaw_cell_index:
  fixes n :: int
  assumes "2 ^ (e + 7) \<le> n" and "n < 2 ^ (e + 8)"
  shows "16 \<le> n div 2 ^ (e + 3)" and "n div 2 ^ (e + 3) < 32"
  using assms cell_index_range [of 16 "2 ^ (e + 3)" n 32] by (auto simp: power_add)

lemma encode_ulaw_fields:
  assumes n: "n = ulaw_biased \<bar>sint x\<bar>"
    and seg: "e < 8" "2 ^ (e + 7) \<le> n" "n < 2 ^ (e + 8)"
  shows "encode_ulaw_sample x =
           NOT (((if sint x < 0 then 0x80 else 0) OR push_bit 4 (word_of_int (int e)))
                OR word_of_int (int (nat (n div 2 ^ (e + 3) - 16))))"
proof -
  have clip: "(let sample = sint x; sample = (if sample < 0 then - sample else sample)
              in (if sample > ulaw_CLIP then ulaw_CLIP else sample) + ulaw_BIAS) = n"
    by (auto simp: n ulaw_biased_def Let_def)
  have lz: "leading_zeros (word_of_int n) = 24 - e"
    using leading_zeros_of_int [of "e + 7" n] seg by (simp add: add.commute)
  have ex: "7 - min 7 (max 0 (int (24 - e) - 17)) = int e"
    using seg(1) by auto
  have "drop_bit (nat (int e + 3)) n AND 0x0F = take_bit 4 (drop_bit (e + 3) n)"
    by (simp add: take_bit_eq_mask mask_numeral nat_add_distrib)
  also have "\<dots> = int (nat (n div 2 ^ (e + 3) - 16))"
    using ulaw_cell_index [OF seg(2,3)]
    by (simp add: take_bit_eq_mod drop_bit_eq_div cell_index_mod)
  finally have mant: "drop_bit (nat (int e + 3)) n AND 0x0F = int (nat (n div 2 ^ (e + 3) - 16))" .
  show ?thesis
    using clip unfolding encode_ulaw_sample_def Let_def by (simp only: lz ex mant)
qed

section \<open>The quantiser\<close>

text \<open>The segment of a biased magnitude, and the level the decoder rebuilds.\<close>

definition ulaw_seg :: "int \<Rightarrow> nat" where
  "ulaw_seg n = 24 - leading_zeros (word_of_int n)"

definition ulaw_level :: "int \<Rightarrow> int" where
  "ulaw_level a = seg_mid (ulaw_biased a) (ulaw_seg (ulaw_biased a)) - 132"

lemma ulaw_seg_eq: "e < 8 \<Longrightarrow> 2 ^ (e + 7) \<le> n \<Longrightarrow> n < 2 ^ (e + 8) \<Longrightarrow> ulaw_seg n = e"
  using leading_zeros_of_int [of "e + 7" n] by (simp add: ulaw_seg_def add.commute)

lemma ulaw_seg_bounds:
  assumes "132 \<le> n" and "n \<le> 32767"
  shows "ulaw_seg n < 8" and "2 ^ (ulaw_seg n + 7) \<le> n" and "n < 2 ^ (ulaw_seg n + 8)"
  using ulaw_segment [OF assms] ulaw_seg_eq by metis+

lemma ulaw_quantised:
  "sint (decode_ulaw_sample (encode_ulaw_sample x)) =
     (if sint x < 0 then - 1 else 1) * ulaw_level \<bar>sint x\<bar>"
proof -
  define n where "n = ulaw_biased \<bar>sint x\<bar>"
  define e where "e = ulaw_seg n"
  have "132 \<le> n" "n \<le> 32767" using ulaw_biased_bounds by (auto simp: n_def)
  note e = ulaw_seg_bounds [OF this, folded e_def]
  have "16 \<le> n div 2 ^ (e + 3)" "n div 2 ^ (e + 3) < 32"
    using ulaw_cell_index [OF e(2,3)] .
  then show ?thesis
    using decode_ulaw_fields [OF e(1), of "nat (n div 2 ^ (e + 3) - 16)" "sint x < 0"]
    by (simp add: encode_ulaw_fields [OF n_def e] ulaw_level_def seg_mid_def algebra_simps
        flip: n_def e_def)
qed

lemma ulaw_level_nonneg: "0 \<le> a \<Longrightarrow> 0 \<le> ulaw_level a"
proof -
  assume "0 \<le> a"
  note b = ulaw_biased_bounds [OF this]
  have "(2::int) ^ (0 + 7) + 2 ^ (0 + 2) \<le> 2 ^ (ulaw_seg (ulaw_biased a) + 7) + 2 ^ (ulaw_seg (ulaw_biased a) + 2)"
    by (intro add_mono power_increasing) auto
  then show ?thesis
    using seg_mid_lower [OF ulaw_seg_bounds(2)] b by (fastforce simp: ulaw_level_def)
qed

lemma ulaw_level_mono: "0 \<le> a \<Longrightarrow> a \<le> b \<Longrightarrow> ulaw_level a \<le> ulaw_level b"
proof -
  assume ab: "0 \<le> a" "a \<le> b"
  have le: "ulaw_biased a \<le> ulaw_biased b" using ab by (simp add: ulaw_biased_def)
  have bnd: "132 \<le> ulaw_biased a" "ulaw_biased a \<le> 32767"
    "132 \<le> ulaw_biased b" "ulaw_biased b \<le> 32767"
    using ulaw_biased_bounds [of a] ulaw_biased_bounds [of b] ab by auto
  note sa = ulaw_seg_bounds [OF bnd(1,2)] and sb = ulaw_seg_bounds [OF bnd(3,4)]
  show ?thesis
    using seg_mid_mono [OF le sa(3) _ seg_order [OF le sa(2) sb(3)]] sb(2)
    by (simp add: ulaw_level_def)
qed

lemma ulaw_ordered:
  "sint x \<le> sint y \<Longrightarrow> sint (decode_ulaw_sample (encode_ulaw_sample x))
     \<le> sint (decode_ulaw_sample (encode_ulaw_sample y))"
  unfolding ulaw_quantised
  by (rule signed_level_mono) (auto intro: ulaw_level_nonneg ulaw_level_mono)

lemma ulaw_level_clipped: "32635 \<le> a \<Longrightarrow> ulaw_level a = 32124"
proof -
  assume "32635 \<le> a"
  then have n: "ulaw_biased a = 32767"
    by (simp add: ulaw_biased_def ulaw_BIAS_def ulaw_CLIP_def)
  have "ulaw_seg 32767 = 7" by (rule ulaw_seg_eq) simp_all
  then show ?thesis by (simp add: ulaw_level_def n seg_mid_def)
qed

lemma ulaw_level_close:
  assumes "0 \<le> a" and "a \<le> 32768"
  shows "32 * \<bar>ulaw_level a - a\<bar> \<le> a + 132"
proof (cases "32635 \<le> a")
  case True
  then show ?thesis using assms(2) by (simp add: ulaw_level_clipped)
next
  case False
  define n where "n = ulaw_biased a"
  have n: "n = a + 132" using False by (simp add: n_def ulaw_biased_def ulaw_BIAS_def ulaw_CLIP_def)
  have "132 \<le> n" "n \<le> 32767" using ulaw_biased_bounds assms(1) by (auto simp: n_def)
  note e = ulaw_seg_bounds [OF this]
  have "32 * \<bar>seg_mid n (ulaw_seg n) - n\<bar> \<le> 32 * 2 ^ (ulaw_seg n + 2)"
    using seg_mid_close [of n "ulaw_seg n"] by simp
  also have "\<dots> \<le> n"
    using e(2) by (simp add: power_add)
  finally have "32 * \<bar>seg_mid n (ulaw_seg n) - n\<bar> \<le> n" .
  moreover have "seg_mid n (ulaw_seg n) - n = ulaw_level a - a"
    by (simp add: ulaw_level_def n flip: n_def)
  ultimately have "32 * \<bar>ulaw_level a - a\<bar> \<le> n" by simp
  then show ?thesis using n by simp
qed

lemma ulaw_error:
  "32 * \<bar>sint (decode_ulaw_sample (encode_ulaw_sample x)) - sint x\<bar> \<le> \<bar>sint x\<bar> + 132"
proof -
  have "\<bar>sint (decode_ulaw_sample (encode_ulaw_sample x)) - sint x\<bar>
          = \<bar>ulaw_level \<bar>sint x\<bar> - \<bar>sint x\<bar>\<bar>"
    by (simp add: ulaw_quantised abs_if)
  then show ?thesis
    using ulaw_level_close [of "\<bar>sint x\<bar>"] sint_ge [of x] sint_lt [of x] by simp
qed

section \<open>The codec meets the G.711 contract\<close>

text \<open>
  Every byte is its own code again, but for \<open>0x7F\<close>, the negative zero, which comes back as
  \<open>0xFF\<close>.
\<close>

lemma ulaw_zeros: "decode_ulaw_sample 0x7F = 0" "decode_ulaw_sample 0xFF = 0"
  by (simp_all add: decode_ulaw_sample_def)

lemma ulaw_enc_zero: "encode_ulaw_sample 0 = 0xFF"
  unfolding encode_ulaw_sample_def leading_zeros_def ulaw_BIAS_def ulaw_CLIP_def by code_simp

text \<open>What the decoder makes of the fields lies in the segment of the fields.\<close>

lemma ulaw_decoded_segment:
  fixes n :: int
  assumes "e < 8" and "m < 16" and n: "n = (2 * int m + 33) * 2 ^ (e + 2)"
  shows "2 ^ (e + 7) \<le> n" and "n < 2 ^ (e + 8)" and "132 \<le> n" and "n \<le> 32256"
    and "n = 132 \<Longrightarrow> e = 0 \<and> m = 0" and "n div 2 ^ (e + 3) = int m + 16"
proof -
  show "2 ^ (e + 7) \<le> n" and "n < 2 ^ (e + 8)"
    using assms(2) by (simp_all add: n power_add)
  have "n \<le> 63 * 2 ^ (e + 2)" using assms(2) by (simp add: n)
  also have "(63::int) * 2 ^ (e + 2) \<le> 63 * 2 ^ 9"
    using assms(1) by (intro mult_left_mono power_increasing) auto
  finally show "n \<le> 32256" by simp
  have "(33::int) * 2 ^ 2 \<le> n"
    unfolding n by (intro mult_mono power_increasing) auto
  then show "132 \<le> n" by simp
  show "e = 0 \<and> m = 0" if "n = 132"
  proof (cases e)
    case (Suc e')
    then have "(33::int) * 2 ^ 3 \<le> n"
      unfolding n by (intro mult_mono power_increasing) auto
    with that show ?thesis by simp
  qed (use that in \<open>simp add: n\<close>)
  have "n = (2 * (int m + 16) + 1) * 2 ^ (e + 2)" by (simp add: n algebra_simps)
  then show "n div 2 ^ (e + 3) = int m + 16"
    by (simp add: power_add div_mult2_eq)
qed

lemma ulaw_enc_dec: "encode_ulaw_sample (decode_ulaw_sample b) = (if b = 0x7F then 0xFF else b)"
proof (cases "b = 0x7F")
  case True
  then show ?thesis by (simp add: ulaw_zeros ulaw_enc_zero)
next
  case False
  obtain s e m where em: "e < 8" "m < 16"
    and nb: "NOT b = ((if s then 0x80 else 0) OR push_bit 4 (word_of_int (int e))) OR word_of_int (int m)"
    by (rule byte_fields)
  have b: "b = NOT (((if s then 0x80 else 0) OR push_bit 4 (word_of_int (int e))) OR word_of_int (int m))"
    using arg_cong [OF nb, of "\<lambda>w. NOT w"] by simp
  define x n where "x = decode_ulaw_sample b" and "n = (2 * int m + 33) * 2 ^ (e + 2)"
  note seg = ulaw_decoded_segment [OF em n_def]
  have x: "sint x = (if s then - 1 else 1) * (n - 132)"
    unfolding x_def b n_def by (rule decode_ulaw_fields [OF em])
  then have "\<bar>sint x\<bar> = n - 132" using seg(3) by simp
  then have biased: "n = ulaw_biased \<bar>sint x\<bar>"
    using seg(4) by (simp add: ulaw_biased_def ulaw_BIAS_def ulaw_CLIP_def)
  have "n \<noteq> 132 \<or> \<not> s" using seg(5) False by (auto simp: b)
  then have "sint x < 0 \<longleftrightarrow> s" using seg(3) by (auto simp: x)
  then have "encode_ulaw_sample x = b"
    using encode_ulaw_fields [OF biased em(1) seg(1,2)] by (simp add: seg(6) b)
  then show ?thesis using False by (simp add: x_def)
qed

interpretation pcmu: g711_codec decode_ulaw_sample encode_ulaw_sample pcmu_decode pcmu_encode 132
proof (unfold_locales, goal_cases)
  case (1 p)
  show ?case by (simp add: pcmu_decode_def pcmu_RESAMPLE_FACTOR_def)
next
  case (2 s)
  show ?case by (simp add: pcmu_encode_def pcmu_RESAMPLE_FACTOR_def)
next
  case (3 b)
  show ?case by (simp add: ulaw_enc_dec ulaw_zeros)
next
  case (4 x)
  show ?case by (rule ulaw_error)
next
  case (5 x y)
  then show ?case by (rule ulaw_ordered)
qed

end
