(* ===== verification/Pcma.thy ===== *)
theory Pcma
  imports G711 Codec
begin

text \<open>
  \<open>codec/pcma.rs\<close>: the G.711 A-law codec as the source has it.  The \<open>while\<close> loop of the encoder
  is a function with a termination proof.  As in \<open>Pcmu\<close>, intermediate \<open>i32\<close> values are
  integers; none exceeds 32768 in magnitude.
\<close>

section \<open>Samples\<close>

definition pcma_RESAMPLE_FACTOR :: nat where
  "pcma_RESAMPLE_FACTOR = 2"

definition decode_alaw_sample :: "u8 \<Rightarrow> i16" where
  "decode_alaw_sample byte0 =
     (let byte = byte0 XOR 0x55;
          sign = (byte AND 0x80 \<noteq> 0);
          exponent = uint (drop_bit 4 byte AND 0x07);
          mantissa = uint (byte AND 0x0F);
          magnitude = (if exponent = 0 then push_bit 1 mantissa OR 1
                       else push_bit (nat (exponent - 1)) (push_bit 1 mantissa OR 0x21));
          magnitude = (word_of_int (push_bit 3 magnitude) :: i16)
      in if sign then - magnitude else magnitude)"

function alaw_segment_loop :: "nat \<Rightarrow> int \<Rightarrow> nat \<times> int" where
  "alaw_segment_loop exp seg =
     (if seg \<ge> 32 \<and> exp < 7 then alaw_segment_loop (exp + 1) (drop_bit 1 seg) else (exp, seg))"
  by pat_completeness auto
termination
  by (relation "measure (\<lambda>(exp, seg). 7 - exp)") auto

declare alaw_segment_loop.simps [simp del]

definition encode_alaw_sample :: "i16 \<Rightarrow> u8" where
  "encode_alaw_sample sample0 =
     (let sample = sint sample0;
          sign = (if sample < 0 then 0x80 else 0 :: u8);
          sample = (if sample < 0 then - sample else sample);
          sample = drop_bit 3 sample;
          sample = (if sample > 4095 then 4095 else sample);
          (exponent, mantissa) =
            (if sample < 32 then (0, word_of_int (drop_bit 1 sample))
             else (let (exp, seg) = alaw_segment_loop 1 (drop_bit 1 sample)
                   in (exp, word_of_int (seg - 16) AND 0x0F)));
          byte = (sign OR push_bit 4 (word_of_int (int exponent))) OR mantissa
      in byte XOR 0x55)"

section \<open>Frames\<close>

definition pcma_decode_table :: "i16 list" where
  "pcma_decode_table = map decode_alaw_sample (map of_nat [0..<256])"

definition pcma_decode :: "u8 list \<Rightarrow> i16 list" where
  "pcma_decode payload =
     concat (map (\<lambda>byte. replicate pcma_RESAMPLE_FACTOR (pcma_decode_table ! unat byte)) payload)"

definition pcma_encode :: "i16 list \<Rightarrow> u8 list" where
  "pcma_encode samples =
     map (\<lambda>chunk. encode_alaw_sample (chunk ! (length chunk div 2)))
       (slice_chunks pcma_RESAMPLE_FACTOR samples)"

definition pcma_samples_per_frame :: nat where
  "pcma_samples_per_frame = SAMPLES_PER_FRAME"

definition pcma_rtp_timestamp_increment :: timestamp_increment where
  "pcma_rtp_timestamp_increment = TimestampIncrement 160"

declare pcma_samples_per_frame_def [simp] pcma_rtp_timestamp_increment_def [simp]

lemma pcma_table_lookup [simp]: "pcma_decode_table ! unat b = decode_alaw_sample b"
proof -
  have "unat b < 256" using unsigned_less [of b] by simp
  then show ?thesis by (simp add: pcma_decode_table_def)
qed

section \<open>The segment loop\<close>

lemma alaw_segment_loop_eq:
  assumes "1 \<le> e" and "e \<le> e'" and "e' \<le> 7"
    and "16 * 2 ^ (e' - e) \<le> seg" and "seg < 32 * 2 ^ (e' - e)"
  shows "alaw_segment_loop e seg = (e', seg div 2 ^ (e' - e))"
  using assms
proof (induction "e' - e" arbitrary: e seg)
  case 0
  then have "e = e'" by simp
  then show ?case using 0 by (simp add: alaw_segment_loop.simps [of e' seg])
next
  case (Suc d)
  then have e: "e' - e = Suc (e' - (e + 1))" "e < 7" by auto
  have "(32::int) * 1 \<le> 32 * 2 ^ (e' - (e + 1))" by (intro mult_left_mono) auto
  also have "32 * 2 ^ (e' - (e + 1)) = (16 :: int) * 2 ^ (e' - e)"
    by (simp add: e(1) del: One_nat_def)
  also have "\<dots> \<le> seg" by (rule Suc.prems(4))
  finally have "32 \<le> seg" by simp
  then have "alaw_segment_loop e seg = alaw_segment_loop (e + 1) (seg div 2)"
    using e(2) by (simp add: alaw_segment_loop.simps [of e seg] drop_bit_eq_div)
  also have "\<dots> = (e', seg div 2 div 2 ^ (e' - (e + 1)))"
    using Suc.prems Suc.hyps(2) e by (intro Suc.hyps(1)) auto
  also have "seg div 2 div 2 ^ (e' - (e + 1)) = seg div 2 ^ (e' - e)"
    by (simp add: e(1) div_mult2_eq zdiv_zmult2_eq)
  finally show ?case .
qed

lemma decode_alaw_fields:
  assumes "e < 8" and "m < 16"
  shows "sint (decode_alaw_sample
           ((((if s then 0x80 else 0) OR push_bit 4 (word_of_int (int e))) OR word_of_int (int m)) XOR 0x55))
         = (if s then - 1 else 1) * ((2 * int m + (if e = 0 then 1 else 33)) * 2 ^ (max e 1 + 2))"
proof -
  have "\<forall>s. \<forall>e \<in> set [0..<8]. \<forall>m \<in> set [0..<16]. sint (decode_alaw_sample
           ((((if s then 0x80 else 0) OR push_bit 4 (word_of_int (int e))) OR word_of_int (int m)) XOR 0x55))
         = (if s then - 1 else 1) * ((2 * int m + (if e = 0 then 1 else 33)) * 2 ^ (max e 1 + 2))"
    unfolding decode_alaw_sample_def by code_simp
  then show ?thesis using assms by simp
qed

section \<open>The encoder, segment by segment\<close>

text \<open>The clipped magnitude, and the segment the loop finds for it.\<close>

definition alaw_clip :: "int \<Rightarrow> int" where
  "alaw_clip a = min a 32767"

definition alaw_seg :: "int \<Rightarrow> nat" where
  "alaw_seg n = fst (alaw_segment_loop 1 (n div 16))"

lemma alaw_segment:
  assumes "256 \<le> n" and "n \<le> (32767::int)"
  obtains e where "1 \<le> e" and "e \<le> 7" and "2 ^ (e + 7) \<le> n" and "n < 2 ^ (e + 8)"
proof -
  have "\<exists>e \<in> {0..<7::nat}. 2 ^ (e + 8) \<le> n \<and> n < 2 ^ (e + 9)"
    using assms by (simp add: atLeast0_lessThan_Suc numeral_eq_Suc) linarith
  then obtain e where "e < 7" "2 ^ (e + 8) \<le> n" "n < 2 ^ (e + 9)" by auto
  then show thesis by (intro that [of "e + 1"]) (simp_all add: add.commute)
qed

lemma alaw_loop_result:
  assumes "1 \<le> e" and "e \<le> 7" and "2 ^ (e + 7) \<le> n" and "n < (2::int) ^ (e + 8)"
  shows "alaw_segment_loop 1 (n div 16) = (e, n div 2 ^ (e + 3))"
proof -
  have p: "(2::int) ^ (e + 7) = 16 * 2 ^ (e - 1) * 16" "(2::int) ^ (e + 8) = 32 * 2 ^ (e - 1) * 16"
    "(2::int) ^ (e + 3) = 16 * 2 ^ (e - 1)"
    using assms(1) by (cases e; simp add: power_add)+
  have "16 * 2 ^ (e - 1) \<le> n div 16" "n div 16 < 32 * 2 ^ (e - 1)"
    using cell_index_range [of "16 * 2 ^ (e - 1)" 16 n "32 * 2 ^ (e - 1)"] assms(3,4)
    by (simp_all only: p)
  then have "alaw_segment_loop 1 (n div 16) = (e, n div 16 div 2 ^ (e - 1))"
    using assms(1,2) by (intro alaw_segment_loop_eq) auto
  then show ?thesis by (simp add: p(3) zdiv_zmult2_eq)
qed

lemma alaw_seg_small: "n < 256 \<Longrightarrow> alaw_seg n = 1"
proof -
  assume "n < 256"
  then have "\<not> 32 \<le> n div 16" by auto
  then show ?thesis
    by (simp add: alaw_seg_def alaw_segment_loop.simps [of 1 "n div 16"] del: One_nat_def)
qed

lemma alaw_seg_bounds:
  assumes "0 \<le> n" and "n \<le> 32767"
  shows "1 \<le> alaw_seg n" and "alaw_seg n \<le> 7" and "n < 2 ^ (alaw_seg n + 8)"
    and "256 \<le> n \<Longrightarrow> 2 ^ (alaw_seg n + 7) \<le> n"
proof -
  have "1 \<le> alaw_seg n \<and> alaw_seg n \<le> 7 \<and> n < 2 ^ (alaw_seg n + 8) \<and>
      (256 \<le> n \<longrightarrow> 2 ^ (alaw_seg n + 7) \<le> n)"
  proof (cases "256 \<le> n")
    case True
    then show ?thesis
      using alaw_segment [OF True assms(2)] alaw_loop_result by (metis alaw_seg_def fst_conv)
  next
    case False
    then show ?thesis by (simp add: alaw_seg_small)
  qed
  then show "1 \<le> alaw_seg n" "alaw_seg n \<le> 7" "n < 2 ^ (alaw_seg n + 8)"
    "256 \<le> n \<Longrightarrow> 2 ^ (alaw_seg n + 7) \<le> n" by auto
qed

lemma alaw_cell_index:
  assumes "256 \<le> n" and "n \<le> 32767"
  shows "16 \<le> n div 2 ^ (alaw_seg n + 3)" and "n div 2 ^ (alaw_seg n + 3) < 32"
  using cell_index_range [of 16 "2 ^ (alaw_seg n + 3)" n 32] alaw_seg_bounds [of n] assms
  by (auto simp: power_add)

definition alaw_code :: "bool \<Rightarrow> int \<Rightarrow> u8" where
  "alaw_code s n = (let big = (256 \<le> n);
       e = (if big then alaw_seg n else 0);
       m = nat (n div 2 ^ (alaw_seg n + 3) - (if big then 16 else 0))
     in (((if s then 0x80 else 0) OR push_bit 4 (word_of_int (int e))) OR word_of_int (int m)) XOR 0x55)"

lemma low_nibble_word: "0 \<le> k \<Longrightarrow> k < 16 \<Longrightarrow> word_of_int k AND (0x0F :: u8) = word_of_int k"
proof -
  assume "0 \<le> k" "k < 16"
  then have "k \<in> set [0..15]" by simp
  moreover have "\<forall>k \<in> set [0..15]. word_of_int k AND (0x0F :: u8) = word_of_int k" by code_simp
  ultimately show ?thesis by blast
qed

lemma alaw_clip_div:
  assumes "0 \<le> a" and "a \<le> 32768"
  shows "alaw_clip a div 8 = (if a div 8 > 4095 then 4095 else a div 8)"
proof (cases "a = 32768")
  case False
  then have "a div 8 \<le> 32767 div 8" using assms(2) by (intro zdiv_mono1) auto
  then show ?thesis using False assms(2) by (simp add: alaw_clip_def)
qed (simp add: alaw_clip_def)

lemma encode_alaw_fields:
  assumes n: "n = alaw_clip \<bar>sint x\<bar>"
  shows "encode_alaw_sample x = alaw_code (sint x < 0) n"
proof -
  have n0: "0 \<le> n" "n \<le> 32767" by (auto simp: n alaw_clip_def)
  have ax: "\<bar>sint x\<bar> \<le> 32768" using sint_ge [of x] sint_lt [of x] by auto
  have t: "(let sample = sint x; sample = (if sample < 0 then - sample else sample);
             sample = drop_bit 3 sample in if sample > 4095 then 4095 else sample) = n div 8"
    using alaw_clip_div [OF _ ax] by (simp add: n Let_def drop_bit_eq_div abs_if)
  have d: "n div 8 div 2 = n div 16" "n div 8 < 32 \<longleftrightarrow> \<not> 256 \<le> n"
    by (simp add: zdiv_zmult2_eq [of 2 n 8, symmetric]) linarith
  show ?thesis
  proof (cases "256 \<le> n")
    case True
    obtain e where e: "1 \<le> e" "e \<le> 7" "2 ^ (e + 7) \<le> n" "n < 2 ^ (e + 8)"
      by (rule alaw_segment [OF True n0(2)])
    have loop: "alaw_segment_loop 1 (n div 16) = (e, n div 2 ^ (e + 3))"
      by (rule alaw_loop_result [OF e])
    have seg: "alaw_seg n = e" by (simp add: alaw_seg_def loop del: One_nat_def)
    note k = alaw_cell_index [OF True n0(2), unfolded seg]
    have mant: "word_of_int (n div 2 ^ (e + 3) - 16) AND (0x0F :: u8)
        = word_of_int (int (nat (n div 2 ^ (e + 3) - 16)))"
      using k low_nibble_word [of "n div 2 ^ (e + 3) - 16"] by simp
    show ?thesis
      using t True d unfolding encode_alaw_sample_def alaw_code_def Let_def
      by (simp only: loop mant seg drop_bit_eq_div power_one_right split
        not_True_eq_False if_False if_True)
  next
    case False
    then have seg: "alaw_seg n = 1" by (simp add: alaw_seg_small)
    have mant: "int (nat (n div 2 ^ (1 + 3) - 0)) = n div 16" using n0 by simp
    show ?thesis
      using t False d unfolding encode_alaw_sample_def alaw_code_def Let_def
      by (simp only: mant seg drop_bit_eq_div power_one_right split if_False if_True
          not_False_eq_True)
  qed
qed

section \<open>The quantiser\<close>

definition alaw_level :: "int \<Rightarrow> int" where
  "alaw_level a = seg_mid (alaw_clip a) (alaw_seg (alaw_clip a))"

lemma alaw_decode_code:
  assumes "0 \<le> n" and "n \<le> 32767"
  shows "sint (decode_alaw_sample (alaw_code s n)) = (if s then - 1 else 1) * seg_mid n (alaw_seg n)"
proof (cases "256 \<le> n")
  case True
  note k = alaw_cell_index [OF True assms(2)] and e = alaw_seg_bounds [OF assms]
  show ?thesis
    using decode_alaw_fields [of "alaw_seg n" "nat (n div 2 ^ (alaw_seg n + 3) - 16)" s] k e True
    by (simp add: alaw_code_def Let_def seg_mid_def max_def algebra_simps)
next
  case False
  have "0 \<le> n div 16" "n div 16 < 16" using assms(1) False by auto
  then show ?thesis
    using decode_alaw_fields [of 0 "nat (n div 16)" s] False
    by (simp add: alaw_code_def Let_def seg_mid_def alaw_seg_small algebra_simps)
qed

lemma alaw_quantised:
  "sint (decode_alaw_sample (encode_alaw_sample x)) =
     (if sint x < 0 then - 1 else 1) * alaw_level \<bar>sint x\<bar>"
  by (simp add: encode_alaw_fields [OF refl] alaw_level_def alaw_decode_code alaw_clip_def)

lemma alaw_clip_bounds: "0 \<le> a \<Longrightarrow> 0 \<le> alaw_clip a \<and> alaw_clip a \<le> 32767"
  by (simp add: alaw_clip_def)

lemma seg_mid_nonneg: "0 \<le> n \<Longrightarrow> 0 \<le> seg_mid n e"
  by (simp add: seg_mid_def pos_imp_zdiv_nonneg_iff)

lemma alaw_level_nonneg: "0 \<le> a \<Longrightarrow> 0 \<le> alaw_level a"
  using alaw_clip_bounds [of a] by (simp add: alaw_level_def seg_mid_nonneg)

lemma alaw_level_mono: "0 \<le> a \<Longrightarrow> a \<le> b \<Longrightarrow> alaw_level a \<le> alaw_level b"
proof -
  assume ab: "0 \<le> a" "a \<le> b"
  define n n' where "n = alaw_clip a" and "n' = alaw_clip b"
  have le: "n \<le> n'" and bnd: "0 \<le> n" "n \<le> 32767" "0 \<le> n'" "n' \<le> 32767"
    using ab by (auto simp: n_def n'_def alaw_clip_def)
  note sa = alaw_seg_bounds [OF bnd(1,2)] and sb = alaw_seg_bounds [OF bnd(3,4)]
  have ord: "alaw_seg n \<le> alaw_seg n'"
  proof (cases "256 \<le> n")
    case True
    then show ?thesis using seg_order [OF le _ sb(3)] sa(4) by blast
  next
    case False
    then show ?thesis using sb(1) by (simp add: alaw_seg_small)
  qed
  have "2 ^ (alaw_seg n' + 7) \<le> n'" if "alaw_seg n < alaw_seg n'"
    using that sa(1) alaw_seg_small [of n'] by (intro sb(4)) (cases "n' < 256"; simp)
  then show ?thesis
    using seg_mid_mono [OF le sa(3) _ ord] by (simp add: alaw_level_def n_def n'_def)
qed

lemma alaw_ordered:
  "sint x \<le> sint y \<Longrightarrow> sint (decode_alaw_sample (encode_alaw_sample x))
     \<le> sint (decode_alaw_sample (encode_alaw_sample y))"
  unfolding alaw_quantised
  by (rule signed_level_mono) (auto intro: alaw_level_nonneg alaw_level_mono)

lemma alaw_level_close:
  assumes "0 \<le> a" and "a \<le> 32768"
  shows "32 * \<bar>alaw_level a - a\<bar> \<le> a + 256"
proof -
  define n where "n = alaw_clip a"
  have bnd: "0 \<le> n" "n \<le> 32767" using alaw_clip_bounds assms(1) by (auto simp: n_def)
  note e = alaw_seg_bounds [OF bnd]
  have "32 * \<bar>seg_mid n (alaw_seg n) - n\<bar> \<le> 32 * 2 ^ (alaw_seg n + 2)"
    using seg_mid_close [of n "alaw_seg n"] by simp
  also have "\<dots> \<le> max n 256"
    using e(4) by (cases "256 \<le> n") (simp_all add: power_add alaw_seg_small max_def)
  finally have close: "32 * \<bar>seg_mid n (alaw_seg n) - n\<bar> \<le> max n 256" .
  show ?thesis
  proof (cases "a = 32768")
    case True
    have "alaw_seg 32767 = 7"
      using alaw_loop_result [of 7 32767] by (simp add: alaw_seg_def del: One_nat_def)
    then show ?thesis by (simp add: True alaw_level_def alaw_clip_def seg_mid_def)
  next
    case False
    then have "n = a" using assms by (simp add: n_def alaw_clip_def)
    then show ?thesis using close assms(1) by (simp add: alaw_level_def flip: n_def)
  qed
qed

lemma alaw_error:
  "32 * \<bar>sint (decode_alaw_sample (encode_alaw_sample x)) - sint x\<bar> \<le> \<bar>sint x\<bar> + 256"
proof -
  have "\<bar>sint (decode_alaw_sample (encode_alaw_sample x)) - sint x\<bar>
          = \<bar>alaw_level \<bar>sint x\<bar> - \<bar>sint x\<bar>\<bar>"
    by (simp add: alaw_quantised abs_if)
  then show ?thesis
    using alaw_level_close [of "\<bar>sint x\<bar>"] sint_ge [of x] sint_lt [of x] by simp
qed

section \<open>Every byte comes back\<close>

lemma alaw_enc_dec: "encode_alaw_sample (decode_alaw_sample b) = b"
proof -
  obtain s e m where em: "e < 8" "m < 16"
    and xb: "b XOR 0x55 = ((if s then 0x80 else 0) OR push_bit 4 (word_of_int (int e))) OR word_of_int (int m)"
    by (rule byte_fields)
  have b: "b = (((if s then 0x80 else 0) OR push_bit 4 (word_of_int (int e))) OR word_of_int (int m)) XOR 0x55"
    unfolding xb [symmetric] by (simp add: xor.assoc)
  define x n where "x = decode_alaw_sample b"
    and "n = (2 * int m + (if e = 0 then 1 else 33)) * 2 ^ (max e 1 + 2)"
  have x: "sint x = (if s then - 1 else 1) * n"
    unfolding x_def b n_def by (rule decode_alaw_fields [OF em])
  have "0 < n" by (simp add: n_def)
  have "n \<le> 63 * 2 ^ (max e 1 + 2)" using em(2) by (auto simp: n_def)
  also have "(63::int) * 2 ^ (max e 1 + 2) \<le> 63 * 2 ^ 9"
    using em(1) by (intro mult_left_mono power_increasing) auto
  finally have "n \<le> 32767" by simp
  have sgn: "sint x < 0 \<longleftrightarrow> s" and clip: "n = alaw_clip \<bar>sint x\<bar>"
    using \<open>0 < n\<close> \<open>n \<le> 32767\<close> by (simp_all add: x alaw_clip_def)
  have "alaw_code s n = b"
  proof (cases "e = 0")
    case True
    then have "n < 256" "n div 16 = int m" using em(2) by (simp_all add: n_def)
    then show ?thesis
      by (simp add: alaw_code_def Let_def alaw_seg_small True b)
  next
    case False
    then have n: "n = (2 * int m + 33) * 2 ^ (e + 2)" by (simp add: n_def max_def)
    then have seg: "2 ^ (e + 7) \<le> n" "n < 2 ^ (e + 8)"
      using em(2) by (simp_all add: power_add)
    have "(2::int) ^ (1 + 7) \<le> 2 ^ (e + 7)" using False by (intro power_increasing) auto
    then have "256 \<le> n" using seg(1) by simp
    have "n = (2 * (int m + 16) + 1) * 2 ^ (e + 2)" by (simp add: n algebra_simps)
    then have "n div 2 ^ (e + 3) = int m + 16" by (simp add: power_add div_mult2_eq)
    moreover have "alaw_seg n = e"
      using alaw_loop_result [of e n] seg False em(1) by (simp add: alaw_seg_def del: One_nat_def)
    ultimately show ?thesis
      using \<open>256 \<le> n\<close> by (simp add: alaw_code_def Let_def b)
  qed
  then show ?thesis
    using encode_alaw_fields [OF clip] sgn by (simp add: x_def)
qed

interpretation pcma: g711_lossless decode_alaw_sample encode_alaw_sample pcma_decode pcma_encode 256
proof (unfold_locales, goal_cases)
  case (1 p)
  show ?case by (simp add: pcma_decode_def pcma_RESAMPLE_FACTOR_def)
next
  case (2 s)
  show ?case by (simp add: pcma_encode_def pcma_RESAMPLE_FACTOR_def)
next
  case (3 b)
  show ?case by (simp add: alaw_enc_dec)
next
  case (4 x)
  show ?case by (rule alaw_error)
next
  case (5 x y)
  then show ?case by (rule alaw_ordered)
next
  case (6 b)
  show ?case by (rule alaw_enc_dec)
qed

end
