(* ===== verification/Codecs.thy ===== *)
theory Codecs
  imports Codec CodecL16 Pcmu Pcma
begin

text \<open>
  \<open>codec/opus.rs\<close>, \<open>codec/g722.rs\<close> and the codec trait object of \<open>codec/mod.rs\<close>.

  The Opus and G.722 engines (crates \<open>opus\<close> and \<open>audio-codec\<close>) are not part of the
  repository: they are the parameter \<open>codec_libs\<close>, a record of functions over an engine state
  \<open>'e\<close>.  What this repository adds around them (buffers, truncation, the answer to an error, the
  padding of odd frames) is modelled, and the sizes, round trips and accuracy of all codecs are here.  A constructor of an Opus engine takes a number that tells
  the calls apart, since one call may fail where another succeeds.
\<close>

section \<open>The engines\<close>

record 'e codec_libs =
  opus_encoder_new :: "nat \<Rightarrow> u32 \<Rightarrow> string + 'e"
  opus_decoder_new :: "nat \<Rightarrow> u32 \<Rightarrow> string + 'e"
  opus_lib_encode :: "'e \<Rightarrow> i16 list \<Rightarrow> u8 list \<Rightarrow> (string + nat) \<times> u8 list \<times> 'e"
  opus_lib_decode :: "'e \<Rightarrow> u8 list \<Rightarrow> i16 list \<Rightarrow> bool \<Rightarrow> (string + nat) \<times> i16 list \<times> 'e"
  g722_encoder_new :: 'e
  g722_decoder_new :: 'e
  g722_lib_encode :: "'e \<Rightarrow> i16 list \<Rightarrow> u8 list \<times> 'e"
  g722_lib_decode :: "'e \<Rightarrow> u8 list \<Rightarrow> i16 list \<times> 'e"

section \<open>Opus\<close>

record 'e opus_codec =
  opus_encoder :: 'e
  opus_decoder :: 'e

definition opus_new :: "'e codec_libs \<Rightarrow> nat \<Rightarrow> string + 'e opus_codec" where
  "opus_new libs n =
     (case opus_encoder_new libs n SAMPLE_RATE_HZ of
        Inl e \<Rightarrow> Inl e
      | Inr enc \<Rightarrow>
          (case opus_decoder_new libs n SAMPLE_RATE_HZ of
             Inl e \<Rightarrow> Inl e
           | Inr dec \<Rightarrow> Inr \<lparr>opus_encoder = enc, opus_decoder = dec\<rparr>))"

definition opus_decode :: "'e codec_libs \<Rightarrow> 'e opus_codec \<Rightarrow> u8 list \<Rightarrow> i16 list \<times> 'e opus_codec" where
  "opus_decode libs c payload =
     (let output = replicate SAMPLES_PER_FRAME 0;
          (res, output, dec) = opus_lib_decode libs (opus_decoder c) payload output False;
          c = c\<lparr>opus_decoder := dec\<rparr>
      in case res of
           Inr samples \<Rightarrow> (take samples output, c)
         | Inl _ \<Rightarrow> (replicate SAMPLES_PER_FRAME 0, c))"

definition opus_encode :: "'e codec_libs \<Rightarrow> 'e opus_codec \<Rightarrow> i16 list \<Rightarrow> u8 list \<times> 'e opus_codec" where
  "opus_encode libs c samples =
     (let output = replicate 4000 0;
          (res, output, enc) = opus_lib_encode libs (opus_encoder c) samples output;
          c = c\<lparr>opus_encoder := enc\<rparr>
      in case res of
           Inr len \<Rightarrow> (take len output, c)
         | Inl _ \<Rightarrow> ([], c))"

definition opus_samples_per_frame :: nat where
  "opus_samples_per_frame = SAMPLES_PER_FRAME"

definition opus_rtp_timestamp_increment :: timestamp_increment where
  "opus_rtp_timestamp_increment = TimestampIncrement 960"

declare opus_samples_per_frame_def [simp] opus_rtp_timestamp_increment_def [simp]

section \<open>G.722\<close>

record 'e g722_codec =
  g722_encoder :: 'e
  g722_decoder :: 'e

definition g722_new :: "'e codec_libs \<Rightarrow> 'e g722_codec" where
  "g722_new libs = \<lparr>g722_encoder = g722_encoder_new libs, g722_decoder = g722_decoder_new libs\<rparr>"

definition g722_decode :: "'e codec_libs \<Rightarrow> 'e g722_codec \<Rightarrow> u8 list \<Rightarrow> i16 list \<times> 'e g722_codec" where
  "g722_decode libs c payload =
     (let (out, dec) = g722_lib_decode libs (g722_decoder c) payload
      in (out, c\<lparr>g722_decoder := dec\<rparr>))"

definition g722_encode :: "'e codec_libs \<Rightarrow> 'e g722_codec \<Rightarrow> i16 list \<Rightarrow> u8 list \<times> 'e g722_codec" where
  "g722_encode libs c samples =
     (if length samples mod 2 = 0
      then (let (out, enc) = g722_lib_encode libs (g722_encoder c) samples
            in (out, c\<lparr>g722_encoder := enc\<rparr>))
      else (let padded = samples @ [0];
                (out, enc) = g722_lib_encode libs (g722_encoder c) padded
            in (out, c\<lparr>g722_encoder := enc\<rparr>)))"

definition g722_samples_per_frame :: nat where
  "g722_samples_per_frame = SAMPLES_PER_FRAME"

definition g722_rtp_timestamp_increment :: timestamp_increment where
  "g722_rtp_timestamp_increment = TimestampIncrement 160"

declare g722_samples_per_frame_def [simp] g722_rtp_timestamp_increment_def [simp]

section \<open>The trait object\<close>

text \<open>\<open>Box<dyn Codec>\<close>: one constructor per implementation.\<close>

datatype 'e codec =
    PcmuCodec
  | PcmaCodec
  | G722Codec "'e g722_codec"
  | OpusCodec "'e opus_codec"
  | L16Codec

fun codec_create :: "'e codec_libs \<Rightarrow> nat \<Rightarrow> codec_kind \<Rightarrow> codec_init_error + 'e codec" where
  "codec_create libs n Pcmu = Inr PcmuCodec"
| "codec_create libs n Pcma = Inr PcmaCodec"
| "codec_create libs n G722 = Inr (G722Codec (g722_new libs))"
| "codec_create libs n Opus =
     (case opus_new libs n of
        Inl e \<Rightarrow> Inl \<lparr>err_kind = Opus, err_reason = e\<rparr>
      | Inr c \<Rightarrow> Inr (OpusCodec c))"
| "codec_create libs n L16 = Inr L16Codec"

fun codec_decode :: "'e codec_libs \<Rightarrow> 'e codec \<Rightarrow> u8 list \<Rightarrow> (i16 list \<times> 'e codec) outcome" where
  "codec_decode libs PcmuCodec payload = Some (pcmu_decode payload, PcmuCodec)"
| "codec_decode libs PcmaCodec payload = Some (pcma_decode payload, PcmaCodec)"
| "codec_decode libs (G722Codec c) payload =
     (let (out, c') = g722_decode libs c payload in Some (out, G722Codec c'))"
| "codec_decode libs (OpusCodec c) payload =
     (let (out, c') = opus_decode libs c payload in Some (out, OpusCodec c'))"
| "codec_decode libs L16Codec payload = map_option (\<lambda>out. (out, L16Codec)) (l16_decode payload)"

fun codec_encode :: "'e codec_libs \<Rightarrow> 'e codec \<Rightarrow> i16 list \<Rightarrow> u8 list \<times> 'e codec" where
  "codec_encode libs PcmuCodec samples = (pcmu_encode samples, PcmuCodec)"
| "codec_encode libs PcmaCodec samples = (pcma_encode samples, PcmaCodec)"
| "codec_encode libs (G722Codec c) samples =
     (let (out, c') = g722_encode libs c samples in (out, G722Codec c'))"
| "codec_encode libs (OpusCodec c) samples =
     (let (out, c') = opus_encode libs c samples in (out, OpusCodec c'))"
| "codec_encode libs L16Codec samples = (l16_encode samples, L16Codec)"

fun codec_samples_per_frame :: "'e codec \<Rightarrow> nat" where
  "codec_samples_per_frame PcmuCodec = pcmu_samples_per_frame"
| "codec_samples_per_frame PcmaCodec = pcma_samples_per_frame"
| "codec_samples_per_frame (G722Codec _) = g722_samples_per_frame"
| "codec_samples_per_frame (OpusCodec _) = opus_samples_per_frame"
| "codec_samples_per_frame L16Codec = l16_samples_per_frame"

fun codec_rtp_timestamp_increment :: "'e codec \<Rightarrow> timestamp_increment" where
  "codec_rtp_timestamp_increment PcmuCodec = pcmu_rtp_timestamp_increment"
| "codec_rtp_timestamp_increment PcmaCodec = pcma_rtp_timestamp_increment"
| "codec_rtp_timestamp_increment (G722Codec _) = g722_rtp_timestamp_increment"
| "codec_rtp_timestamp_increment (OpusCodec _) = opus_rtp_timestamp_increment"
| "codec_rtp_timestamp_increment L16Codec = l16_rtp_timestamp_increment"

fun codec_kind_of :: "'e codec \<Rightarrow> codec_kind" where
  "codec_kind_of PcmuCodec = Pcmu"
| "codec_kind_of PcmaCodec = Pcma"
| "codec_kind_of (G722Codec _) = G722"
| "codec_kind_of (OpusCodec _) = Opus"
| "codec_kind_of L16Codec = L16"

section \<open>What the engines are documented to do\<close>

text \<open>
  The Opus decoder writes at most the buffer it is given and keeps its length; the G.722 engine
  makes one octet of two samples and back.
\<close>

definition opus_lib_bounded :: "'e codec_libs \<Rightarrow> bool" where
  "opus_lib_bounded libs \<longleftrightarrow>
     (\<forall>e p out fec. length (fst (snd (opus_lib_decode libs e p out fec))) = length out) \<and>
     (\<forall>e s out. length (fst (snd (opus_lib_encode libs e s out))) = length out)"

definition g722_lib_rate :: "'e codec_libs \<Rightarrow> bool" where
  "g722_lib_rate libs \<longleftrightarrow>
     (\<forall>e s. even (length s) \<longrightarrow> length (fst (g722_lib_encode libs e s)) = length s div 2) \<and>
     (\<forall>e p. length (fst (g722_lib_decode libs e p)) = 2 * length p)"

section \<open>Facts about every codec\<close>

lemma codec_create_kind: "codec_create libs n k = Inr c \<Longrightarrow> codec_kind_of c = k"
  by (cases k) (auto split: sum.splits)

lemma codec_create_error:
  "codec_create libs n k = Inl e \<Longrightarrow> k = Opus \<and> err_kind e = Opus \<and> opus_new libs n = Inl (err_reason e)"
  by (cases k) (auto split: sum.splits)

lemma codec_decode_total: "codec_decode libs c p \<noteq> None"
  using l16_decode_total [of p] by (cases c) (auto split: prod.splits)

lemma codec_decode_kind: "codec_decode libs c p = Some (s, c') \<Longrightarrow> codec_kind_of c' = codec_kind_of c"
  by (cases c) (auto split: prod.splits)

lemma codec_encode_kind: "codec_kind_of (snd (codec_encode libs c s)) = codec_kind_of c"
  by (cases c) (auto split: prod.splits)

lemma codec_increment_kind:
  "codec_kind_of c = codec_kind_of c' \<Longrightarrow>
   codec_rtp_timestamp_increment c = codec_rtp_timestamp_increment c'"
  by (cases c; cases c') auto

section \<open>The contract of the trait\<close>

text \<open>
  A stream of payloads is decoded, and a stream of frames encoded, by one codec whose state goes
  from call to call.
\<close>

fun decode_all :: "('s \<Rightarrow> 'p \<Rightarrow> ('f \<times> 's) outcome) \<Rightarrow> 's \<Rightarrow> 'p list \<Rightarrow> ('f list \<times> 's) outcome" where
  "decode_all dec s [] = Some ([], s)"
| "decode_all dec s (p # ps) =
     (case dec s p of
        None \<Rightarrow> None
      | Some (f, s) \<Rightarrow>
          (case decode_all dec s ps of
             None \<Rightarrow> None
           | Some (fs, s) \<Rightarrow> Some (f # fs, s)))"

fun encode_all :: "('s \<Rightarrow> 'f \<Rightarrow> 'p \<times> 's) \<Rightarrow> 's \<Rightarrow> 'f list \<Rightarrow> 'p list \<times> 's" where
  "encode_all enc s [] = ([], s)"
| "encode_all enc s (f # fs) =
     (let (p, s) = enc s f; (ps, s) = encode_all enc s fs in (p # ps, s))"

lemma decode_all_snoc:
  "decode_all dec s ps = Some (fs, u) \<Longrightarrow> dec u p = Some (f, v) \<Longrightarrow>
   decode_all dec s (ps @ [p]) = Some (fs @ [f], v)"
  by (induction ps arbitrary: s fs) (auto split: option.splits)

lemma encode_all_snoc:
  "encode_all enc s fs = (ps, u) \<Longrightarrow> enc u f = (p, v) \<Longrightarrow>
   encode_all enc s (fs @ [f]) = (ps @ [p], v)"
  by (induction fs arbitrary: s ps) (auto split: prod.splits)

lemma length_encode_all [simp]: "length (fst (encode_all enc s fs)) = length fs"
proof (induction fs arbitrary: s)
  case (Cons f fs)
  then show ?case using Cons [of "snd (enc s f)"] by (simp add: case_prod_beta)
qed simp

text \<open>
  What a session relies on: decoding never panics, and a codec keeps its clock whatever it is
  given.
\<close>

locale codec_trait =
  fixes dec :: "'s \<Rightarrow> u8 list \<Rightarrow> (i16 list \<times> 's) outcome"
    and enc :: "'s \<Rightarrow> i16 list \<Rightarrow> u8 list \<times> 's"
    and clock :: "'s \<Rightarrow> timestamp_increment"
  assumes dec_total: "dec s p \<noteq> None"
    and dec_clock: "dec s p = Some (f, s') \<Longrightarrow> clock s' = clock s"
    and enc_clock: "clock (snd (enc s f)) = clock s"
begin

lemma decode_all_total: "\<exists>fs s'. decode_all dec s ps = Some (fs, s') \<and> length fs = length ps"
proof (induction ps arbitrary: s)
  case Nil
  then show ?case by simp
next
  case (Cons p ps)
  obtain f u where "dec s p = Some (f, u)" using dec_total [of s p] by auto
  then show ?case using Cons [of u] by auto
qed

lemma decode_all_clock: "decode_all dec s ps = Some (fs, s') \<Longrightarrow> clock s' = clock s"
proof (induction ps arbitrary: s fs)
  case (Cons p ps)
  then obtain f u gs where u: "dec s p = Some (f, u)" "decode_all dec u ps = Some (gs, s')"
    by (auto split: option.splits)
  then show ?case using Cons.IH [OF u(2)] dec_clock [OF u(1)] by simp
qed simp

lemma encode_all_clock: "clock (snd (encode_all enc s fs)) = clock s"
proof (induction fs arbitrary: s)
  case Nil
  then show ?case by simp
next
  case (Cons f fs)
  show ?case
    using Cons.IH [of "snd (enc s f)"] enc_clock [of s f] by (auto split: prod.splits)
qed

end

interpretation trait: codec_trait "codec_decode libs" "codec_encode libs" codec_rtp_timestamp_increment
  for libs :: "'e codec_libs"
proof (unfold_locales, goal_cases)
  case (1 s p)
  show ?case by (rule codec_decode_total)
next
  case (2 s p f s')
  then show ?case by (intro codec_increment_kind codec_decode_kind)
next
  case (3 s f)
  show ?case by (intro codec_increment_kind codec_encode_kind)
qed

section \<open>Sizes\<close>

text \<open>The octets of a payload of \<open>n\<close> samples, and the samples of a payload of \<open>m\<close> octets.\<close>

fun payload_octets :: "codec_kind \<Rightarrow> nat \<Rightarrow> nat" where
  "payload_octets L16 n = 2 * n"
| "payload_octets _ n = (n + 1) div 2"

fun payload_samples :: "codec_kind \<Rightarrow> nat \<Rightarrow> nat" where
  "payload_samples L16 m = m div 2"
| "payload_samples _ m = 2 * m"

lemma opus_bounds:
  assumes "opus_lib_bounded libs"
  shows "length (fst (opus_encode libs c s)) \<le> 4000" "length (fst (opus_decode libs c p)) \<le> 320"
proof -
  have keep: "opus_lib_decode libs e p out fec = (r, y, e') \<Longrightarrow> length y = length out"
    "opus_lib_encode libs e s v = (r, z, e') \<Longrightarrow> length z = length v" for e p out fec r y e' s v z
    using assms unfolding opus_lib_bounded_def by (metis fst_conv snd_conv)+
  show "length (fst (opus_encode libs c s)) \<le> 4000"
    by (auto simp: opus_encode_def Let_def dest!: keep(2) split: prod.split sum.split)
  show "length (fst (opus_decode libs c p)) \<le> 320"
    by (auto simp: opus_decode_def Let_def dest!: keep(1) split: prod.split sum.split)
qed

lemma g722_lengths:
  assumes "g722_lib_rate libs"
  shows "length (fst (g722_encode libs c s)) = (length s + 1) div 2" "length (fst (g722_decode libs c p)) = 2 * length p"
  using assms by (auto simp: g722_encode_def g722_decode_def g722_lib_rate_def case_prod_beta Let_def odd_iff_mod_2_eq_one)

text \<open>C30.
  Every codec has the sizes its type promises.  Whatever a codec is given, it stays a codec of its
  kind with its RTP clock; all but Opus make of \<open>n\<close> samples the number of octets of their format and
  of a payload the number of samples it stands for, a frame of 20 ms comes back with its 320
  samples and takes as many octets as the RTP clock advances (twice as many for L16); Opus never
  makes a payload of more than 4000 octets nor a frame of more than 320 samples.\<close>

theorem codec_frame_sizes:
  assumes "opus_lib_bounded libs" and "g722_lib_rate libs"
    and "codec_encode libs c frame = (payload, c1)" and "codec_decode libs c packet = Some (out, c2)"
  shows "codec_kind_of c1 = codec_kind_of c \<and> codec_kind_of c2 = codec_kind_of c \<and>
    codec_rtp_timestamp_increment c1 = codec_rtp_timestamp_increment c \<and>
    codec_rtp_timestamp_increment c2 = codec_rtp_timestamp_increment c \<and>
    (if codec_kind_of c = Opus then length payload \<le> 4000 \<and> length out \<le> codec_samples_per_frame c
     else length payload = payload_octets (codec_kind_of c) (length frame) \<and>
          length out = payload_samples (codec_kind_of c) (length packet) \<and>
          payload_samples (codec_kind_of c) (payload_octets (codec_kind_of c) (codec_samples_per_frame c)) =
            codec_samples_per_frame c \<and>
          payload_octets (codec_kind_of c) (codec_samples_per_frame c) =
            (if codec_kind_of c = L16 then 2 else 1) * unat (ticks (codec_rtp_timestamp_increment c)))"
proof -
  have kinds: "codec_kind_of c1 = codec_kind_of c" "codec_kind_of c2 = codec_kind_of c"
    using codec_encode_kind [of libs c frame] codec_decode_kind [OF assms(4)] assms(3) by simp_all
  note clocks = codec_increment_kind [OF kinds(1)] codec_increment_kind [OF kinds(2)]
  have l16: "l16_decode p = Some q \<Longrightarrow> length q = length p div 2" for p q
    using l16_decode_total [of p] by auto
  have g722: "g722_encode libs g s = (x, g') \<Longrightarrow> length x = (length s + 1) div 2"
    "g722_decode libs g p = (y, g') \<Longrightarrow> length y = 2 * length p" for g s x g' p y
    using g722_lengths [OF assms(2), of g] by (metis fst_conv)+
  have opus: "opus_encode libs g s = (x, g') \<Longrightarrow> length x \<le> 4000"
    "opus_decode libs g p = (y, g') \<Longrightarrow> length y \<le> 320" for g s x g' p y
    using opus_bounds [OF assms(1), of g] by (metis fst_conv)+
  show ?thesis
    using assms(3,4) kinds clocks
    by (cases c) (auto simp: len_simps pcmu.length_encode pcma.length_encode pcmu.length_decode pcma.length_decode
        dest: l16 g722 opus split: prod.splits)
qed

text \<open>Engines that only keep the sizes, for the witness.\<close>

definition sized_libs :: "unit codec_libs" where
  "sized_libs = \<lparr>opus_encoder_new = (\<lambda>_ _. Inr ()), opus_decoder_new = (\<lambda>_ _. Inr ()),
     opus_lib_encode = (\<lambda>e s out. (Inr (length s), out, e)),
     opus_lib_decode = (\<lambda>e p out fec. (Inr (length out), out, e)),
     g722_encoder_new = (), g722_decoder_new = (),
     g722_lib_encode = (\<lambda>e s. (replicate (length s div 2) 0, e)),
     g722_lib_decode = (\<lambda>e p. (replicate (2 * length p) 0, e))\<rparr>"

theorem codec_frame_sizes_witness:
  "length (fst (codec_encode sized_libs (G722Codec (g722_new sized_libs)) (replicate 320 0))) = 160"
proof -
  have laws: "opus_lib_bounded sized_libs" "g722_lib_rate sized_libs"
    by (simp_all add: opus_lib_bounded_def g722_lib_rate_def sized_libs_def)
  obtain payload c1 where enc: "codec_encode sized_libs (G722Codec (g722_new sized_libs)) (replicate 320 0) = (payload, c1)"
    by force
  obtain out c2 where dec: "codec_decode sized_libs (G722Codec (g722_new sized_libs)) [] = Some (out, c2)"
    using codec_decode_total [of sized_libs "G722Codec (g722_new sized_libs)" "[]"] by auto
  show ?thesis
    using codec_frame_sizes [OF laws enc dec] enc by simp
qed

section \<open>Sound quality\<close>

text \<open>C31.
  A payload survives being decoded and encoded again.  For the companders, which decode to 16 kHz, a
  \<open>\<mu>\<close>-law payload comes back byte for byte, but for the code of negative zero, which comes back as
  the code of zero, and an A-law payload comes back byte for byte; an L16 payload comes back
  without the odd octet at its end, and L16 frames come back exactly.\<close>

theorem codec_payload_roundtrip:
  "pcmu_encode (pcmu_decode payload) = map (\<lambda>b. if b = 0x7F then 0xFF else b) payload \<and>
   pcma_encode (pcma_decode payload) = payload \<and>
   map_option l16_encode (l16_decode payload) = Some (take (2 * (length payload div 2)) payload) \<and>
   l16_decode (l16_encode samples) = Some samples"
proof -
  obtain s where "l16_decode payload = Some s" using l16_decode_total [of payload] by blast
  then show ?thesis
    using l16_encode_decode by (simp add: pcmu.encode_decode ulaw_enc_dec pcma.encode_decode_id l16_decode_encode)
qed

text \<open>C32.
  The compander codecs lose only what G.711 loses.  Over the whole range of \<open>i16\<close>, the clipped
  samples included, a sample that is encoded and decoded is off by at most a thirty-second part of
  its magnitude plus a constant, 132 for \<open>\<mu>\<close>-law and 256 for A-law, and the order of samples is
  kept.\<close>

theorem g711_sample_accuracy:
  "32 * \<bar>sint (decode_ulaw_sample (encode_ulaw_sample x)) - sint x\<bar> \<le> \<bar>sint x\<bar> + 132 \<and>
   32 * \<bar>sint (decode_alaw_sample (encode_alaw_sample x)) - sint x\<bar> \<le> \<bar>sint x\<bar> + 256 \<and>
   (sint x \<le> sint y \<longrightarrow>
      sint (decode_ulaw_sample (encode_ulaw_sample x)) \<le> sint (decode_ulaw_sample (encode_ulaw_sample y)) \<and>
      sint (decode_alaw_sample (encode_alaw_sample x)) \<le> sint (decode_alaw_sample (encode_alaw_sample y)))"
  using pcmu.accurate [of x] pcmu.ordered [of x y] pcma.accurate [of x] pcma.ordered [of x y] by blast

theorem g711_sample_accuracy_witness:
  "sint (- 5000 :: i16) \<le> sint (32767 :: i16) \<and>
   sint (decode_ulaw_sample (encode_ulaw_sample (- 5000)))
     \<le> sint (decode_ulaw_sample (encode_ulaw_sample 32767))"
  using g711_sample_accuracy [of "- 5000" 32767] by simp

section \<open>The reference decoders\<close>

text \<open>
  G.711 as its reference implementations read it: the steps of the segment are shifted up from the
  biased interval, the sign bit of \<open>\<mu>\<close>-law (after the complement) marks a negative sample, and that of
  A-law a positive one.
\<close>

definition ulaw_reference :: "u8 \<Rightarrow> int" where
  "ulaw_reference octet =
     (let u = uint (NOT octet);
          t = (8 * (u mod 16) + 132) * 2 ^ nat (u div 16 mod 8)
      in if 128 \<le> u then 132 - t else t - 132)"

definition alaw_reference :: "u8 \<Rightarrow> int" where
  "alaw_reference octet =
     (let a = uint (octet XOR 0x55);
          t = 16 * (a mod 16);
          seg = a div 16 mod 8;
          t = (if seg = 0 then t + 8 else (t + 264) * 2 ^ nat (seg - 1))
      in if 128 \<le> a then t else - t)"

text \<open>C33.
  The \<open>\<mu>\<close>-law codec is G.711, and the A-law codec is G.711 with the polarity reversed.  Every octet
  decodes to the sample of the reference decoder for \<open>\<mu>\<close>-law and to its negation for A-law; so a
  sample that is encoded here and decoded by a reference decoder is the sample, within the accuracy
  of the codec, for \<open>\<mu>\<close>-law, and the negated sample for A-law.\<close>

theorem g711_reference_decoders:
  "sint (decode_ulaw_sample octet) = ulaw_reference octet \<and>
   sint (decode_alaw_sample octet) = - alaw_reference octet \<and>
   32 * \<bar>ulaw_reference (encode_ulaw_sample x) - sint x\<bar> \<le> \<bar>sint x\<bar> + 132 \<and>
   32 * \<bar>alaw_reference (encode_alaw_sample x) + sint x\<bar> \<le> \<bar>sint x\<bar> + 256"
proof -
  have u: "sint (decode_ulaw_sample b) = ulaw_reference b" for b
  proof -
    have "list_all (\<lambda>b. sint (decode_ulaw_sample b) = ulaw_reference b) (map of_nat [0..<256])"
      unfolding decode_ulaw_sample_def ulaw_reference_def by code_simp
    then show ?thesis by (rule all_bytesI)
  qed
  have a: "sint (decode_alaw_sample b) = - alaw_reference b" for b
  proof -
    have "list_all (\<lambda>b. sint (decode_alaw_sample b) = - alaw_reference b) (map of_nat [0..<256])"
      unfolding decode_alaw_sample_def alaw_reference_def by code_simp
    then show ?thesis by (rule all_bytesI)
  qed
  have minus: "- p - q = - (p + q)" for p q :: int by simp
  show ?thesis
    using pcmu.accurate [of x] pcma.accurate [of x] unfolding u a minus abs_minus_cancel by simp
qed

end
