(* ===== verification/NetAddr.thy ===== *)
theory NetAddr
  imports RustStr
begin

text \<open>
  \<open>std::net\<close>: addresses and the text \<open>Display\<close> writes for them, as \<open>generate_sdp_answer\<close> embeds it
  in the answer.  An IPv6 address is the list of its eight segments.
\<close>

datatype ip_addr = IpV4 u8 u8 u8 u8 | IpV6 "u16 list"

type_synonym sock_addr = "ip_addr \<times> u16"

definition hex_digit :: "nat \<Rightarrow> char" where
  "hex_digit d = (if d < 10 then char_of (48 + d) else char_of (87 + d))"

fun show_hex :: "nat \<Rightarrow> string" where
  "show_hex n = (if n < 16 then [hex_digit n] else show_hex (n div 16) @ [hex_digit (n mod 16)])"

declare show_hex.simps [simp del]

definition show_ipv4 :: "u8 \<Rightarrow> u8 \<Rightarrow> u8 \<Rightarrow> u8 \<Rightarrow> string" where
  "show_ipv4 a b c d =
     show_nat (unat a) @ ''.'' @ show_nat (unat b) @ ''.'' @ show_nat (unat c) @ ''.'' @ show_nat (unat d)"

text \<open>Segments in hexadecimal, separated by colons.\<close>

fun show_segments :: "u16 list \<Rightarrow> string" where
  "show_segments [] = []"
| "show_segments [s] = show_hex (unat s)"
| "show_segments (s # t # ss) = show_hex (unat s) @ '':'' @ show_segments (t # ss)"

text \<open>
  The longest run of zero segments, the first one on a tie: its start and its length.  The state
  of the scan is the position, the current run and the longest one.
\<close>

fun longest_zeros :: "nat \<Rightarrow> nat \<times> nat \<Rightarrow> nat \<times> nat \<Rightarrow> u16 list \<Rightarrow> nat \<times> nat" where
  "longest_zeros i cur best [] = best"
| "longest_zeros i (cs, cl) (bs, bl) (s # ss) =
     (if s = 0
      then (let cs = (if cl = 0 then i else cs); cl = cl + 1
            in longest_zeros (i + 1) (cs, cl) (if cl > bl then (cs, cl) else (bs, bl)) ss)
      else longest_zeros (i + 1) (0, 0) (bs, bl) ss)"

definition show_ipv6 :: "u16 list \<Rightarrow> string" where
  "show_ipv6 segs =
     (if take 6 segs = [0, 0, 0, 0, 0, 0xFFFF] \<and> length segs = 8
      then ''::ffff:'' @ show_ipv4 (ucast (drop_bit 8 (segs ! 6))) (ucast (segs ! 6))
                                  (ucast (drop_bit 8 (segs ! 7))) (ucast (segs ! 7))
      else (let (start, len) = longest_zeros 0 (0, 0) (0, 0) segs
            in if len > 1
               then show_segments (take start segs) @ ''::'' @ show_segments (drop (start + len) segs)
               else show_segments segs))"

fun show_ip :: "ip_addr \<Rightarrow> string" where
  "show_ip (IpV4 a b c d) = show_ipv4 a b c d"
| "show_ip (IpV6 segs) = show_ipv6 segs"

section \<open>The text is graphic ASCII\<close>

lemma hex_digit_graphic: "d < 16 \<Longrightarrow> ascii_graphic (hex_digit d)"
  by (simp add: hex_digit_def ascii_graphic_def)

lemma show_hex_graphic [simp]: "list_all ascii_graphic (show_hex n)"
proof (induction n rule: show_hex.induct)
  case (1 n)
  then show ?case
    by (subst show_hex.simps) (simp add: hex_digit_graphic)
qed

lemma graphic_punctuation [simp]:
  "ascii_graphic CHR ''.''" "ascii_graphic CHR '':''" "ascii_graphic CHR ''f''"
  by (simp_all add: ascii_graphic_def)

lemma show_ipv4_graphic [simp]: "list_all ascii_graphic (show_ipv4 a b c d)"
  by (simp add: show_ipv4_def)

lemma show_segments_graphic [simp]: "list_all ascii_graphic (show_segments ss)"
  by (induction ss rule: show_segments.induct) auto

lemma show_ip_graphic [simp]: "list_all ascii_graphic (show_ip ip)"
  by (cases ip) (auto simp: show_ipv6_def split: prod.splits)

end
