(* ===== verification/AddrParse.thy ===== *)
theory AddrParse
  imports NetAddr
begin

text \<open>
  \<open>IpAddr::from_str\<close> of the standard library (\<open>core::net::parser\<close>), as \<open>AdvertiseIpAddr::from_str\<close> uses
  it: a parser takes the text that is left and gives a value with the rest, or fails and leaves the
  text alone.  It reads back what \<open>Display\<close> writes, for IPv4 and for IPv6 in all its shapes.
\<close>

unbundle bit_operations_syntax

section \<open>The parser\<close>

definition to_digit :: "nat \<Rightarrow> char \<Rightarrow> nat option" where
  "to_digit radix c =
     (let n = (of_char c :: nat);
          d = (if 48 \<le> n \<and> n \<le> 57 then n - 48
               else if 97 \<le> n \<and> n \<le> 122 then n - 87
               else if 65 \<le> n \<and> n \<le> 90 then n - 55 else radix)
      in if d < radix then Some d else None)"

text \<open>The digits at the front, with their number and value; a digit too many is an error.\<close>

fun read_digits :: "nat \<Rightarrow> nat \<Rightarrow> nat \<Rightarrow> nat \<Rightarrow> string \<Rightarrow> (nat \<times> nat \<times> string) option" where
  "read_digits radix most n acc [] = Some (n, acc, [])"
| "read_digits radix most n acc (c # cs) =
     (case to_digit radix c of
        None \<Rightarrow> Some (n, acc, c # cs)
      | Some d \<Rightarrow> (if n + 1 > most then None else read_digits radix most (n + 1) (acc * radix + d) cs))"

definition read_number :: "nat \<Rightarrow> nat \<Rightarrow> bool \<Rightarrow> nat \<Rightarrow> string \<Rightarrow> (nat \<times> string) option" where
  "read_number radix most allow_zero_prefix bound s =
     (case read_digits radix most 0 0 s of
        None \<Rightarrow> None
      | Some (n, v, rest) \<Rightarrow>
          (if n = 0 then None
           else if \<not> allow_zero_prefix \<and> hd s = CHR ''0'' \<and> n > 1 then None
           else if v < bound then Some (v, rest) else None))"

fun read_given_char :: "char \<Rightarrow> string \<Rightarrow> string option" where
  "read_given_char x (c # cs) = (if c = x then Some cs else None)"
| "read_given_char x [] = None"

text \<open>The separator stands before every part but the first.\<close>

definition read_separator :: "char \<Rightarrow> nat \<Rightarrow> (string \<Rightarrow> ('a \<times> string) option) \<Rightarrow> string \<Rightarrow> ('a \<times> string) option" where
  "read_separator sep i inner s =
     (if i > 0 then (case read_given_char sep s of None \<Rightarrow> None | Some s \<Rightarrow> inner s) else inner s)"

fun read_octets :: "nat \<Rightarrow> nat \<Rightarrow> string \<Rightarrow> (nat list \<times> string) option" where
  "read_octets 0 i s = Some ([], s)"
| "read_octets (Suc n) i s =
     (case read_separator CHR ''.'' i (read_number 10 3 False 256) s of
        None \<Rightarrow> None
      | Some (v, s) \<Rightarrow>
          (case read_octets n (i + 1) s of None \<Rightarrow> None | Some (vs, s) \<Rightarrow> Some (v # vs, s)))"

definition read_ipv4_addr :: "string \<Rightarrow> (u8 list \<times> string) option" where
  "read_ipv4_addr s = map_option (\<lambda>(vs, s). (map of_nat vs, s)) (read_octets 4 0 s)"

definition from_be_bytes :: "u8 \<Rightarrow> u8 \<Rightarrow> u16" where
  "from_be_bytes hi lo = push_bit 8 (ucast hi) OR ucast lo"

text \<open>
  \<open>read_groups\<close> with room for \<open>n\<close> more groups, of which \<open>i\<close> are there: the groups, whether they end in
  an embedded IPv4 address, which needs two groups, and the rest.
\<close>

fun read_groups :: "nat \<Rightarrow> nat \<Rightarrow> string \<Rightarrow> u16 list \<times> bool \<times> string" where
  "read_groups 0 i s = ([], False, s)"
| "read_groups (Suc n) i s =
     (case (if n > 0 then read_separator CHR '':'' i read_ipv4_addr s else None) of
        Some (v4, s) \<Rightarrow> ([from_be_bytes (v4 ! 0) (v4 ! 1), from_be_bytes (v4 ! 2) (v4 ! 3)], True, s)
      | None \<Rightarrow>
          (case read_separator CHR '':'' i (read_number 16 4 True 65536) s of
             None \<Rightarrow> ([], False, s)
           | Some (g, s) \<Rightarrow> (let (gs, v4, s) = read_groups n (i + 1) s in (of_nat g # gs, v4, s))))"

definition read_ipv6_addr :: "string \<Rightarrow> (u16 list \<times> string) option" where
  "read_ipv6_addr s =
     (let (head, head_ipv4, s) = read_groups 8 0 s
      in if length head = 8 then Some (head, s)
         else if head_ipv4 then None
         else (case read_given_char CHR '':'' s of
                 None \<Rightarrow> None
               | Some s \<Rightarrow>
                   (case read_given_char CHR '':'' s of
                      None \<Rightarrow> None
                    | Some s \<Rightarrow>
                        (let (tail, _, s) = read_groups (8 - (length head + 1)) 0 s
                         in Some (head @ replicate (8 - length head - length tail) 0 @ tail, s)))))"

definition read_ip_addr :: "string \<Rightarrow> (ip_addr \<times> string) option" where
  "read_ip_addr s =
     (case read_ipv4_addr s of
        Some (v4, s) \<Rightarrow> Some (IpV4 (v4 ! 0) (v4 ! 1) (v4 ! 2) (v4 ! 3), s)
      | None \<Rightarrow> map_option (\<lambda>(v6, s). (IpV6 v6, s)) (read_ipv6_addr s))"

datatype addr_parse_error = AddrParseError

text \<open>\<open>parse_with\<close>: nothing may be left over.\<close>

definition ip_from_str :: "string \<Rightarrow> addr_parse_error + ip_addr" where
  "ip_from_str s =
     (case read_ip_addr s of Some (ip, []) \<Rightarrow> Inr ip | _ \<Rightarrow> Inl AddrParseError)"

section \<open>Reading numbers\<close>

definition stops :: "nat \<Rightarrow> string \<Rightarrow> bool" where
  "stops radix s \<longleftrightarrow> (case s of [] \<Rightarrow> True | c # _ \<Rightarrow> to_digit radix c = None)"

definition digits_value :: "nat \<Rightarrow> string \<Rightarrow> nat" where
  "digits_value radix xs = foldl (\<lambda>a c. a * radix + the (to_digit radix c)) 0 xs"

lemma read_digits_all:
  assumes "\<forall>c \<in> set xs. to_digit radix c \<noteq> None" and "stops radix rest" and "n + length xs \<le> most"
  shows "read_digits radix most n acc (xs @ rest) =
    Some (n + length xs, foldl (\<lambda>a c. a * radix + the (to_digit radix c)) acc xs, rest)"
  using assms
proof (induction xs arbitrary: n acc)
  case Nil
  then show ?case by (cases rest) (simp_all add: stops_def)
qed auto

lemma read_number_all:
  assumes "\<forall>c \<in> set xs. to_digit radix c \<noteq> None" and "stops radix rest" and "xs \<noteq> []" and "length xs \<le> most"
    and "digits_value radix xs < bound" and "zero \<or> (hd xs = CHR ''0'' \<longrightarrow> length xs = 1)"
  shows "read_number radix most zero bound (xs @ rest) = Some (digits_value radix xs, rest)"
  using assms read_digits_all [OF assms(1,2), of 0 most 0]
  by (auto simp: read_number_def digits_value_def)

lemma to_digit_10 [simp]: "d < 10 \<Longrightarrow> to_digit 10 (digit_char d) = Some d"
  by (simp add: to_digit_def digit_char_def)

lemma to_digit_16 [simp]: "d < 16 \<Longrightarrow> to_digit 16 (hex_digit d) = Some d"
  by (simp add: to_digit_def hex_digit_def)

lemma digits_value_snoc: "digits_value r (xs @ [c]) = digits_value r xs * r + the (to_digit r c)"
  by (simp add: digits_value_def)

lemma zero_char:
  assumes "of_char c = 48 + n"
  shows "c = CHR ''0'' \<longleftrightarrow> n = (0 :: nat)"
proof -
  have "c = CHR ''0'' \<longleftrightarrow> (of_char c :: nat) = of_char CHR ''0''" by (simp only: of_char_eq_iff)
  then show ?thesis unfolding assms by simp
qed

lemma digit_char_zero: "d < 10 \<Longrightarrow> digit_char d = CHR ''0'' \<longleftrightarrow> d = 0"
  by (rule zero_char) (rule digit_char_props(1))

lemma show_nat_reads:
  "(\<forall>c \<in> set (show_nat n). to_digit 10 c \<noteq> None) \<and> digits_value 10 (show_nat n) = n \<and>
   (hd (show_nat n) = CHR ''0'' \<longrightarrow> n = 0)"
proof (induction n rule: show_nat.induct)
  case (1 n)
  show ?case
  proof (cases "n < 10")
    case True
    then show ?thesis by (simp add: show_nat.simps [of n] digits_value_def digit_char_zero)
  next
    case False
    then show ?thesis using 1 by (auto simp: show_nat.simps [of n] digits_value_snoc)
  qed
qed

lemma show_nat_length: "n < 10 ^ Suc k \<Longrightarrow> length (show_nat n) \<le> Suc k"
proof (induction k arbitrary: n)
  case 0
  then show ?case by (simp add: show_nat.simps [of n])
next
  case (Suc k)
  then have "n div 10 < 10 ^ Suc k" by (simp add: less_mult_imp_div_less)
  then show ?case using Suc.IH [of "n div 10"] by (simp add: show_nat.simps [of n])
qed

lemma show_hex_reads:
  "(\<forall>c \<in> set (show_hex n). to_digit 16 c \<noteq> None) \<and> digits_value 16 (show_hex n) = n \<and> show_hex n \<noteq> []"
proof (induction n rule: show_hex.induct)
  case (1 n)
  show ?case
  proof (cases "n < 16")
    case True
    then show ?thesis by (simp add: show_hex.simps [of n] digits_value_def)
  next
    case False
    then show ?thesis using 1 by (auto simp: show_hex.simps [of n] digits_value_snoc)
  qed
qed

lemma show_hex_length: "n < 16 ^ Suc k \<Longrightarrow> length (show_hex n) \<le> Suc k"
proof (induction k arbitrary: n)
  case 0
  then show ?case by (simp add: show_hex.simps [of n])
next
  case (Suc k)
  then have "n div 16 < 16 ^ Suc k" by (simp add: less_mult_imp_div_less)
  then show ?case using Suc.IH [of "n div 16"] by (simp add: show_hex.simps [of n])
qed

lemma read_octet:
  assumes "stops 10 rest"
  shows "read_number 10 3 False 256 (show_nat (unat (a :: u8)) @ rest) = Some (unat a, rest)"
proof -
  have a: "unat a < 256" using unsigned_less [of a] by simp
  have "length (show_nat (unat a)) \<le> 3" using show_nat_length [of "unat a" 2] a by simp
  moreover have "hd (show_nat (unat a)) = CHR ''0'' \<longrightarrow> length (show_nat (unat a)) = 1"
    using show_nat_reads [of "unat a"] by (auto simp: show_nat.simps [of 0])
  ultimately show ?thesis
    using read_number_all [OF _ assms, of "show_nat (unat a)" 3 256 False] show_nat_reads [of "unat a"] a by simp
qed

lemma read_segment:
  assumes "stops 16 rest"
  shows "read_number 16 4 True 65536 (show_hex (unat (s :: u16)) @ rest) = Some (unat s, rest)"
proof -
  have s: "unat s < 65536" using unsigned_less [of s] by simp
  have "length (show_hex (unat s)) \<le> 4" using show_hex_length [of "unat s" 3] s by simp
  then show ?thesis
    using read_number_all [OF _ assms, of "show_hex (unat s)" 4 65536 True] show_hex_reads [of "unat s"] s by simp
qed

section \<open>IPv4\<close>

lemma stops_simps [simp]:
  "stops r []" "stops r (c # cs) \<longleftrightarrow> to_digit r c = None"
  "to_digit 10 CHR ''.'' = None" "to_digit 10 CHR '':'' = None" "to_digit 16 CHR '':'' = None"
  "to_digit 10 CHR ''f'' = None"
  by (simp_all add: stops_def to_digit_def)

lemma read_octets_show:
  assumes "stops 10 rest"
  shows "read_octets (length ws) (Suc i) (concat (map (\<lambda>w. CHR ''.'' # show_nat (unat w)) ws) @ rest) =
    Some (map unat (ws :: u8 list), rest)"
proof (induction ws arbitrary: i)
  case (Cons w ws)
  have "stops 10 (concat (map (\<lambda>w. CHR ''.'' # show_nat (unat w)) ws) @ rest)"
    using assms by (cases ws) simp_all
  then show ?case using Cons by (simp add: read_separator_def read_octet)
qed simp

lemma read_show_ipv4:
  assumes "stops 10 rest"
  shows "read_ipv4_addr (show_ipv4 a b c d @ rest) = Some ([a, b, c, d], rest)"
proof -
  have four: "(4 :: nat) = Suc (length [b, c, d])" by simp
  have "read_octets 4 0 (show_ipv4 a b c d @ rest) = Some (map unat [a, b, c, d], rest)"
    unfolding four using read_octets_show [OF assms, of "[b, c, d]" 0]
    by (simp add: show_ipv4_def read_separator_def read_octet del: list.size)
  then show ?thesis by (simp add: read_ipv4_addr_def)
qed

section \<open>IPv6\<close>

text \<open>Without a dot there is no IPv4 address, nor in front of a character that is no digit.\<close>

lemma read_digits_suffix: "read_digits r m n acc s = Some (k, v, rest) \<Longrightarrow> set rest \<subseteq> set s"
  by (induction r m n acc s rule: read_digits.induct) (auto split: option.splits if_splits)

lemma read_number_suffix: "read_number r m z b s = Some (v, rest) \<Longrightarrow> set rest \<subseteq> set s"
  by (auto simp: read_number_def split: option.splits if_splits dest!: read_digits_suffix)

lemma read_separator_missing: "sep \<notin> set s \<Longrightarrow> read_separator sep (Suc i) inner s = None"
  by (cases s) (auto simp: read_separator_def)

lemma no_dot_no_ipv4:
  assumes "CHR ''.'' \<notin> set s"
  shows "read_ipv4_addr s = None"
proof -
  have "read_octets (Suc (Suc n)) 0 s = None" for n
  proof (cases "read_number 10 3 False 256 s")
    case (Some x)
    obtain v rest where x: "x = (v, rest)" by (cases x)
    then have "CHR ''.'' \<notin> set rest" using read_number_suffix [OF Some [unfolded x]] assms by blast
    then show ?thesis using Some x by (simp add: read_separator_def [of _ 0] read_separator_missing)
  qed (simp add: read_separator_def)
  moreover have four: "(4 :: nat) = Suc (Suc 2)" by simp
  ultimately show ?thesis unfolding read_ipv4_addr_def four by (simp only: option.map)
qed

lemma stops_no_number: "stops r s \<Longrightarrow> read_number r m z b s = None"
  by (cases s) (simp_all add: read_number_def)

lemma stops_no_ipv4: "stops 10 s \<Longrightarrow> read_ipv4_addr s = None"
proof -
  assume "stops 10 s"
  then have "read_octets (Suc 3) 0 s = None"
    using stops_no_number [of 10 s 3 False 256] by (simp add: read_separator_def del: Suc_numeral)
  then show ?thesis by (simp add: read_ipv4_addr_def)
qed

text \<open>Where a run of groups ends: at the end of the text, or before two colons.\<close>

definition groups_end :: "string \<Rightarrow> bool" where
  "groups_end s \<longleftrightarrow> s = [] \<or> (\<exists>t. s = CHR '':'' # CHR '':'' # t)"

lemma read_groups_end:
  assumes "groups_end s"
  shows "read_groups n i s = ([], False, s)"
proof (cases n)
  case (Suc m)
  have "read_separator CHR '':'' i (read_number 16 4 True 65536) s = None"
    "read_separator CHR '':'' i read_ipv4_addr s = None"
    using assms by (auto simp: groups_end_def read_separator_def stops_no_number stops_no_ipv4)
  then show ?thesis using Suc by simp
qed simp

definition colon_segments :: "u16 list \<Rightarrow> string" where
  "colon_segments ss = concat (map (\<lambda>s. CHR '':'' # show_hex (unat s)) ss)"

lemma colon_segments_Nil [simp]: "colon_segments [] = []"
  by (simp add: colon_segments_def)

lemma show_segments_Cons: "show_segments (s # ss) = show_hex (unat s) @ colon_segments ss"
  by (induction "s # ss" arbitrary: s ss rule: show_segments.induct) (simp_all add: colon_segments_def)

lemma show_hex_no_dot: "CHR ''.'' \<notin> set (show_hex n)"
  using show_hex_reads [of n] by (auto simp: to_digit_def)

lemma segments_no_dot [simp]: "CHR ''.'' \<notin> set (colon_segments ss)" "CHR ''.'' \<notin> set (show_segments ss)"
proof -
  show c: "CHR ''.'' \<notin> set (colon_segments ss)" for ss by (auto simp: colon_segments_def show_hex_no_dot)
  show "CHR ''.'' \<notin> set (show_segments ss)"
    by (cases ss) (simp_all add: show_segments_Cons show_hex_no_dot c)
qed

lemma stops_segments: "groups_end rest \<Longrightarrow> stops 16 (colon_segments ss @ rest)"
  by (cases ss) (auto simp: colon_segments_def groups_end_def)

lemma read_colon_segments:
  assumes "groups_end rest" and "CHR ''.'' \<notin> set rest" and "length ss \<le> n"
  shows "read_groups n (Suc i) (colon_segments ss @ rest) = (ss, False, rest)"
  using assms(3)
proof (induction ss arbitrary: n i)
  case Nil
  then show ?case using read_groups_end [OF assms(1)] by (simp add: colon_segments_def)
next
  case (Cons s ss)
  then obtain m where n: "n = Suc m" "length ss \<le> m" by (cases n) auto
  let ?t = "show_hex (unat s) @ colon_segments ss @ rest"
  have t: "colon_segments (s # ss) @ rest = CHR '':'' # ?t" by (simp add: colon_segments_def)
  have "read_ipv4_addr ?t = None" using assms(2) by (intro no_dot_no_ipv4) (simp add: show_hex_no_dot)
  moreover have "read_number 16 4 True 65536 ?t = Some (unat s, colon_segments ss @ rest)"
    by (rule read_segment [OF stops_segments [OF assms(1)]])
  ultimately show ?case using Cons.IH [OF n(2), of "Suc i"] n(2) unfolding t n(1) by (auto simp: read_separator_def)
qed

lemma read_show_segments:
  assumes "groups_end rest" and "CHR ''.'' \<notin> set rest" and "length ss \<le> n"
  shows "read_groups n 0 (show_segments ss @ rest) = (ss, False, rest)"
proof (cases ss)
  case Nil
  then show ?thesis using read_groups_end [OF assms(1)] by simp
next
  case (Cons s ss')
  then obtain m where n: "n = Suc m" "length ss' \<le> m" using assms(3) by (cases n) auto
  let ?t = "show_hex (unat s) @ colon_segments ss' @ rest"
  have "read_ipv4_addr ?t = None" using assms(2) by (intro no_dot_no_ipv4) (simp add: show_hex_no_dot)
  moreover have "read_number 16 4 True 65536 ?t = Some (unat s, colon_segments ss' @ rest)"
    by (rule read_segment [OF stops_segments [OF assms(1)]])
  ultimately show ?thesis
    using read_colon_segments [OF assms(1,2) n(2), of 0] n Cons by (auto simp: show_segments_Cons read_separator_def)
qed

text \<open>The zeros that \<open>Display\<close> leaves out.\<close>

definition zeros_at :: "u16 list \<Rightarrow> nat \<times> nat \<Rightarrow> bool" where
  "zeros_at segs p \<longleftrightarrow> fst p + snd p \<le> length segs \<and> (\<forall>k < snd p. segs ! (fst p + k) = 0)"

lemma zeros_at_append: "zeros_at xs p \<Longrightarrow> zeros_at (xs @ ys) p"
  by (auto simp: zeros_at_def nth_append)

lemma zeros_at_snoc:
  assumes "n > 0 \<longrightarrow> zeros_at xs (m, n) \<and> m + n = length xs"
  shows "zeros_at (xs @ [0]) (if n = 0 then length xs else m, n + 1)"
  using assms by (auto simp: zeros_at_def nth_append less_Suc_eq)

lemma longest_zeros_at:
  assumes "zeros_at pre best" and "snd cur > 0 \<longrightarrow> zeros_at pre cur \<and> fst cur + snd cur = length pre"
  shows "zeros_at (pre @ ss) (longest_zeros (length pre) cur best ss)"
  using assms
proof (induction "length pre" cur best ss arbitrary: pre rule: longest_zeros.induct)
  case (1 cur best)
  then show ?case by simp
next
  case (2 cs cl bs bl s ss)
  let ?cur = "if s = 0 then (if cl = 0 then length pre else cs, cl + 1) else (0, 0)"
  have pre: "length pre + 1 = length (pre @ [s])" by simp
  have cur: "snd ?cur > 0 \<longrightarrow> zeros_at (pre @ [s]) ?cur \<and> fst ?cur + snd ?cur = length (pre @ [s])"
    using 2(4) zeros_at_snoc [of cl pre cs] by auto
  have best: "zeros_at (pre @ [s]) (bs, bl)" using 2(3) by (rule zeros_at_append)
  show ?case
  proof (cases "s = 0")
    case True
    then show ?thesis
      using 2(1) [OF True HOL.refl HOL.refl pre] cur best
      by (cases "cl = 0"; cases "bl < Suc cl") (simp_all add: Let_def)
  next
    case False
    then show ?thesis using 2(2) [OF False pre] best by simp
  qed
qed

lemma zeros_at_split:
  assumes "zeros_at segs (start, len)"
  shows "take start segs @ replicate len 0 @ drop (start + len) segs = segs"
proof -
  have "take len (drop start segs) = replicate len 0"
    using assms by (auto simp: zeros_at_def list_eq_iff_nth_eq)
  moreover have "take start segs @ take len (drop start segs) @ drop len (drop start segs) = segs"
    by (simp only: append_take_drop_id)
  ultimately show ?thesis by (simp add: add.commute)
qed

lemma from_be_bytes_split: "from_be_bytes (ucast (drop_bit 8 g)) (ucast g) = g"
  unfolding from_be_bytes_def by (rule bit_word_eqI) (auto simp: bit_simps)

lemma show_hex_ffff: "show_hex 65535 = ''ffff''"
proof -
  have "hex_digit 15 = CHR ''f''" by code_simp
  then show ?thesis by (simp add: show_hex.simps)
qed

lemma read_mapped:
  "read_groups (Suc (Suc (Suc n))) 0 (''ffff:'' @ show_ipv4 a b c d) =
     ([0xFFFF, from_be_bytes a b, from_be_bytes c d], True, [])"
proof -
  have "read_number 16 4 True 65536 (''ffff'' @ CHR '':'' # show_ipv4 a b c d) = Some (65535, CHR '':'' # show_ipv4 a b c d)"
    using read_segment [where s = 65535 and rest = "CHR '':'' # show_ipv4 a b c d"] by (simp add: show_hex_ffff)
  moreover have "read_ipv4_addr (''ffff'' @ CHR '':'' # show_ipv4 a b c d) = None"
    by (rule stops_no_ipv4) simp
  ultimately show ?thesis
    using read_show_ipv4 [of "[]" a b c d] by (simp add: read_separator_def)
qed

section \<open>Reading back what \<open>Display\<close> writes\<close>

definition ip_ok :: "ip_addr \<Rightarrow> bool" where
  "ip_ok ip \<longleftrightarrow> (case ip of IpV4 _ _ _ _ \<Rightarrow> True | IpV6 segs \<Rightarrow> length segs = 8)"

lemma read_mapped_ipv6:
  "read_ipv6_addr (''::ffff:'' @ show_ipv4 a b c d) =
     Some ([0, 0, 0, 0, 0, 0xFFFF, from_be_bytes a b, from_be_bytes c d], [])"
proof -
  have "read_groups 8 0 (''::ffff:'' @ show_ipv4 a b c d) = ([], False, ''::ffff:'' @ show_ipv4 a b c d)"
    by (rule read_groups_end) (simp add: groups_end_def)
  moreover have "read_groups 7 0 (''ffff:'' @ show_ipv4 a b c d) = ([0xFFFF, from_be_bytes a b, from_be_bytes c d], True, [])"
    using read_mapped [of 4 a b c d] by simp
  moreover have "replicate 5 (0 :: u16) = [0, 0, 0, 0, 0]" by (simp add: numeral_eq_Suc)
  ultimately show ?thesis by (simp add: read_ipv6_addr_def)
qed

lemma read_full_ipv6:
  assumes "length segs = 8"
  shows "read_ipv6_addr (show_segments segs) = Some (segs, [])"
  using read_show_segments [of "[]" segs 8] assms by (simp add: read_ipv6_addr_def groups_end_def)

lemma read_short_ipv6:
  assumes "length segs = 8" and zeros: "zeros_at segs (start, len)" and "len > 1"
  shows "read_ipv6_addr (show_segments (take start segs) @ ''::'' @ show_segments (drop (start + len) segs)) = Some (segs, [])"
proof -
  have room: "start + len \<le> 8" using zeros assms(1) by (simp add: zeros_at_def)
  have "read_groups 8 0 (show_segments (take start segs) @ ''::'' @ show_segments (drop (start + len) segs)) =
      (take start segs, False, ''::'' @ show_segments (drop (start + len) segs))"
    using assms(1) by (intro read_show_segments) (simp_all add: groups_end_def)
  moreover have "read_groups (8 - (start + 1)) 0 (show_segments (drop (start + len) segs)) = (drop (start + len) segs, False, [])"
    using read_show_segments [of "[]" "drop (start + len) segs" "8 - (start + 1)"] assms(1,3) room
    by (simp add: groups_end_def)
  ultimately show ?thesis
    using assms(1,3) room zeros_at_split [OF zeros] by (simp add: read_ipv6_addr_def)
qed

lemma read_show_ipv6:
  assumes "length segs = 8"
  shows "read_ipv4_addr (show_ipv6 segs) = None \<and> read_ipv6_addr (show_ipv6 segs) = Some (segs, [])"
proof (cases "take 6 segs = [0, 0, 0, 0, 0, 0xFFFF]")
  case True
  have "segs = take 6 segs @ [segs ! 6, segs ! 7]"
    using assms by (auto simp: list_eq_iff_nth_eq nth_append nth_Cons' less_Suc_eq numeral_eq_Suc)
  then have segs: "segs = [0, 0, 0, 0, 0, 0xFFFF, segs ! 6, segs ! 7]" using True by simp
  have shown: "show_ipv6 segs = ''::ffff:'' @ show_ipv4 (ucast (drop_bit 8 (segs ! 6))) (ucast (segs ! 6))
      (ucast (drop_bit 8 (segs ! 7))) (ucast (segs ! 7))"
    using True assms by (simp add: show_ipv6_def)
  show ?thesis
    unfolding shown read_mapped_ipv6 from_be_bytes_split by (simp add: stops_no_ipv4 segs [symmetric])
next
  case False
  obtain start len where run: "longest_zeros 0 (0, 0) (0, 0) segs = (start, len)" by force
  have "zeros_at [] (0, 0)" by (simp add: zeros_at_def)
  then have zeros: "zeros_at segs (start, len)"
    using longest_zeros_at [of "[]" "(0, 0)" "(0, 0)" segs] run by simp
  have "CHR ''.'' \<notin> set (show_ipv6 segs)" using False run by (simp add: show_ipv6_def)
  moreover have "read_ipv6_addr (show_ipv6 segs) = Some (segs, [])"
    using False run read_full_ipv6 [OF assms] read_short_ipv6 [OF assms zeros] by (simp add: show_ipv6_def)
  ultimately show ?thesis by (simp add: no_dot_no_ipv4)
qed

lemma ip_from_str_show: "ip_ok ip \<Longrightarrow> ip_from_str (show_ip ip) = Inr ip"
proof (cases ip)
  case (IpV4 a b c d)
  then show ?thesis
    using read_show_ipv4 [of "[]" a b c d] by (simp add: ip_from_str_def read_ip_addr_def)
next
  case (IpV6 segs)
  moreover assume "ip_ok ip"
  ultimately show ?thesis
    using read_show_ipv6 [of segs] by (simp add: ip_from_str_def read_ip_addr_def ip_ok_def)
qed

end
