(* ===== verification/Sdp.thy ===== *)
theory Sdp
  imports Codecs AddrParse
begin

text \<open>
  \<open>media/sdp.rs\<close>: reading an SDP offer, choosing a codec, writing the answer.  The SDP grammar is
  the crate \<open>sdp-rs\<close>, a parameter: \<open>sdp_parse\<close> maps a body to an error or to the parts of a
  session description the source looks at, which are the records below.
\<close>

section \<open>What the SDP crate returns\<close>

datatype media_type = Audio | OtherMedia string

record rtpmap =
  rm_payload_type :: u32
  rm_encoding_name :: string
  rm_clock_rate :: u32

datatype attribute = Rtpmap rtpmap | OtherAttribute string

record media_description =
  md_media :: media_type
  md_port :: u16
  md_fmt :: string
  md_connections :: "ip_addr list"
  md_attributes :: "attribute list"

record session_description =
  sd_connection :: "ip_addr option"
  sd_media_descriptions :: "media_description list"

type_synonym sdp_parse = "string \<Rightarrow> string + session_description"

section \<open>Types of the module\<close>

record offered_codec =
  oc_payload_type :: u8
  oc_kind :: codec_kind

record sdp_offer =
  peer_addr :: ip_addr
  peer_port :: u16
  payload_type :: u8
  offer_codec_kind :: codec_kind

datatype sdp_parse_error =
    ParseError string
  | MissingConnectionAddress
  | InvalidAddress string
  | NoAudioMedia
  | NoSupportedCodecErr

text \<open>The advertised packet interval, in milliseconds.\<close>

definition EXPECTED_SEND_INTERVAL :: nat where
  "EXPECTED_SEND_INTERVAL = 20"

section \<open>Reading an offer\<close>

text \<open>
  The inner loop over the attributes: the first \<open>rtpmap\<close> of the payload type decides; an L16 at
  another rate than 16 kHz ends the search without a name.
\<close>

fun find_rtpmap_name :: "u8 \<Rightarrow> attribute list \<Rightarrow> string option" where
  "find_rtpmap_name pt [] = None"
| "find_rtpmap_name pt (OtherAttribute _ # attrs) = find_rtpmap_name pt attrs"
| "find_rtpmap_name pt (Rtpmap r # attrs) =
     (if rm_payload_type r = ucast pt
      then (if eq_ignore_ascii_case (rm_encoding_name r) ''l16'' \<and> rm_clock_rate r \<noteq> 16000
            then None else Some (rm_encoding_name r))
      else find_rtpmap_name pt attrs)"

definition codec_name_of :: "attribute list \<Rightarrow> u8 \<Rightarrow> string" where
  "codec_name_of attrs pt =
     (if pt = 0 then ''PCMU''
      else if pt = 8 then ''PCMA''
      else if pt = 9 then ''G722''
      else (case find_rtpmap_name pt attrs of
              Some name \<Rightarrow> name
            | None \<Rightarrow> ''PT'' @ show_nat (unat pt)))"

definition offered_payload_types :: "string \<Rightarrow> u8 list" where
  "offered_payload_types fmt = List.map_filter parse_u8 (split_whitespace fmt)"

definition offered_codecs :: "features \<Rightarrow> media_description \<Rightarrow> offered_codec list" where
  "offered_codecs fs m =
     List.map_filter
       (\<lambda>pt. case from_name fs (codec_name_of (md_attributes m) pt) of
               None \<Rightarrow> None
             | Some kind \<Rightarrow> Some \<lparr>oc_payload_type = pt, oc_kind = kind\<rparr>)
       (offered_payload_types (md_fmt m))"

text \<open>\<open>min_by_key\<close>: of the elements with the least key, the first.\<close>

fun min_by_kind :: "offered_codec \<Rightarrow> offered_codec list \<Rightarrow> offered_codec" where
  "min_by_kind best [] = best"
| "min_by_kind best (c # cs) = (if oc_kind c < oc_kind best then min_by_kind c cs else min_by_kind best cs)"

definition select_preferred :: "offered_codec list \<Rightarrow> offered_codec option" where
  "select_preferred codecs = (case codecs of [] \<Rightarrow> None | c # cs \<Rightarrow> Some (min_by_kind c cs))"

definition parse_sdp_offer :: "features \<Rightarrow> sdp_parse \<Rightarrow> string \<Rightarrow> sdp_parse_error + sdp_offer" where
  "parse_sdp_offer fs parse sdp_body =
     (case parse sdp_body of
        Inl e \<Rightarrow> Inl (ParseError e)
      | Inr sdp \<Rightarrow>
          (case find (\<lambda>m. md_media m = Audio) (sd_media_descriptions sdp) of
             None \<Rightarrow> Inl NoAudioMedia
           | Some audio_media \<Rightarrow>
               (case (case md_connections audio_media of c # _ \<Rightarrow> Some c | [] \<Rightarrow> sd_connection sdp) of
                  None \<Rightarrow> Inl MissingConnectionAddress
                | Some addr \<Rightarrow>
                    (case select_preferred (offered_codecs fs audio_media) of
                       None \<Rightarrow> Inl NoSupportedCodecErr
                     | Some selected \<Rightarrow>
                         Inr \<lparr>peer_addr = addr, peer_port = md_port audio_media,
                              payload_type = oc_payload_type selected,
                              offer_codec_kind = oc_kind selected\<rparr>))))"

section \<open>Writing the answer\<close>

fun rtpmap_lines :: "string \<Rightarrow> codec_kind \<Rightarrow> string" where
  "rtpmap_lines pt Opus =
     ''a=rtpmap:'' @ pt @ '' opus/48000/2'' @ CRLF
     @ ''a=fmtp:'' @ pt @ '' minptime=10;useinbandfec=1'' @ CRLF"
| "rtpmap_lines pt Pcmu = ''a=rtpmap:'' @ pt @ '' PCMU/8000'' @ CRLF"
| "rtpmap_lines pt Pcma = ''a=rtpmap:'' @ pt @ '' PCMA/8000'' @ CRLF"
| "rtpmap_lines pt G722 = ''a=rtpmap:'' @ pt @ '' G722/8000'' @ CRLF"
| "rtpmap_lines pt L16 = ''a=rtpmap:'' @ pt @ '' L16/16000'' @ CRLF"

text \<open>\<open>AdvertiseIpAddr::from_str\<close>.\<close>

definition advertise_from_str :: "string \<Rightarrow> addr_parse_error + ip_addr" where
  "advertise_from_str s = (case ip_from_str s of Inl e \<Rightarrow> Inl e | Inr ip \<Rightarrow> Inr ip)"

definition generate_sdp_answer :: "ip_addr \<Rightarrow> u16 \<Rightarrow> u64 \<Rightarrow> offered_codec \<Rightarrow> string" where
  "generate_sdp_answer advertise_ip rtp_port session_id codec =
     (let pt = show_nat (unat (oc_payload_type codec)) in
      ''v=0'' @ CRLF
      @ ''o=- '' @ show_nat (unat session_id) @ '' 1 IN IP4 '' @ show_ip advertise_ip @ CRLF
      @ ''s=rsipstack-server'' @ CRLF
      @ ''c=IN IP4 '' @ show_ip advertise_ip @ CRLF
      @ ''t=0 0'' @ CRLF
      @ ''m=audio '' @ show_nat (unat rtp_port) @ '' RTP/AVP '' @ pt @ CRLF
      @ rtpmap_lines pt (oc_kind codec) @ ''a=ptime:'' @ show_nat EXPECTED_SEND_INTERVAL @ CRLF
      @ ''a=sendrecv'' @ CRLF)"

definition show_sdp_parse_error :: "sdp_parse_error \<Rightarrow> string" where
  "show_sdp_parse_error e =
     (case e of
        ParseError e \<Rightarrow> ''SDP parse error: '' @ e
      | MissingConnectionAddress \<Rightarrow> ''Missing connection address in SDP''
      | InvalidAddress addr \<Rightarrow> ''Invalid address in SDP: '' @ addr
      | NoAudioMedia \<Rightarrow> ''No audio media in SDP''
      | NoSupportedCodecErr \<Rightarrow> ''No supported codec in SDP offer'')"

section \<open>Selection\<close>

lemma min_by_kind_spec:
  "\<exists>i < length (b # cs). (b # cs) ! i = min_by_kind b cs \<and>
     (\<forall>j < i. oc_kind (min_by_kind b cs) < oc_kind ((b # cs) ! j)) \<and>
     (\<forall>j < length (b # cs). oc_kind (min_by_kind b cs) \<le> oc_kind ((b # cs) ! j))"
proof (induction b cs rule: min_by_kind.induct)
  case (1 b)
  then show ?case by simp
next
  case (2 b c cs)
  show ?case
  proof (cases "oc_kind c < oc_kind b")
    case True
    obtain i where i: "i < length (c # cs)" "(c # cs) ! i = min_by_kind c cs"
      "\<forall>j < i. oc_kind (min_by_kind c cs) < oc_kind ((c # cs) ! j)"
      "\<forall>j < length (c # cs). oc_kind (min_by_kind c cs) \<le> oc_kind ((c # cs) ! j)"
      using 2(1) [OF True] by blast
    have "oc_kind (min_by_kind c cs) \<le> oc_kind c" using i(4) by fastforce
    then have "oc_kind (min_by_kind c cs) < oc_kind b" using True by (rule le_less_trans)
    then show ?thesis
      using True i by (intro exI [of _ "Suc i"]) (auto simp: less_Suc_eq_0_disj)
  next
    case False
    obtain i where i: "i < length (b # cs)" "(b # cs) ! i = min_by_kind b cs"
      "\<forall>j < i. oc_kind (min_by_kind b cs) < oc_kind ((b # cs) ! j)"
      "\<forall>j < length (b # cs). oc_kind (min_by_kind b cs) \<le> oc_kind ((b # cs) ! j)"
      using 2(2) [OF False] by blast
    have best: "oc_kind (min_by_kind b cs) \<le> oc_kind b" using i(4) by fastforce
    then have c: "oc_kind (min_by_kind b cs) \<le> oc_kind c" using False by simp
    show ?thesis
    proof (cases i)
      case 0
      then show ?thesis
        using False i c by (intro exI [of _ 0]) (auto simp: less_Suc_eq_0_disj)
    next
      case (Suc k)
      then have "oc_kind (min_by_kind b cs) < oc_kind b" using i(3) by fastforce
      then have "oc_kind (min_by_kind b cs) < oc_kind c" using False by simp
      then show ?thesis
        using False i c Suc by (intro exI [of _ "Suc (Suc k)"]) (auto simp: less_Suc_eq_0_disj)
    qed
  qed
qed

text \<open>The first of the codecs preferred most: the contract of \<open>select_preferred\<close>.\<close>

definition preferred_first :: "offered_codec list \<Rightarrow> offered_codec \<Rightarrow> bool" where
  "preferred_first cs c \<longleftrightarrow>
     (\<exists>i < length cs. cs ! i = c \<and> (\<forall>j < i. oc_kind c < oc_kind (cs ! j)) \<and>
        (\<forall>j < length cs. oc_kind c \<le> oc_kind (cs ! j)))"

lemma preferred_first_unique: "preferred_first cs c \<Longrightarrow> preferred_first cs d \<Longrightarrow> c = d"
  unfolding preferred_first_def by (metis linorder_neqE_nat not_le)

lemma select_preferred_iff: "select_preferred cs = Some c \<longleftrightarrow> preferred_first cs c"
proof (cases cs)
  case Nil
  then show ?thesis by (simp add: select_preferred_def preferred_first_def)
next
  case (Cons b bs)
  have "preferred_first cs (min_by_kind b bs)"
    unfolding preferred_first_def Cons by (rule min_by_kind_spec)
  then show ?thesis
    using preferred_first_unique by (auto simp: select_preferred_def Cons)
qed

lemma select_preferred_None: "select_preferred cs = None \<longleftrightarrow> cs = []"
  by (cases cs) (auto simp: select_preferred_def)

section \<open>Names in an offer\<close>

lemma find_rtpmap_name_SomeD:
  "find_rtpmap_name pt attrs = Some name \<Longrightarrow>
   \<exists>r. Rtpmap r \<in> set attrs \<and> rm_payload_type r = ucast pt \<and> name = rm_encoding_name r \<and>
       (eq_ignore_ascii_case name ''l16'' \<longrightarrow> rm_clock_rate r = 16000)"
  by (induction pt attrs rule: find_rtpmap_name.induct) (auto split: if_splits)

lemma from_name_PT: "from_name fs (''PT'' @ s) = None"
  by (simp add: from_name_def eq_ignore_ascii_case_def)

lemma set_List_map_filter: "set (List.map_filter f xs) = {y. \<exists>x \<in> set xs. f x = Some y}"
  by (induction xs) (auto simp: List.map_filter_simps split: option.splits)

lemma set_offered_codecs:
  "c \<in> set (offered_codecs fs m) \<longleftrightarrow>
     oc_payload_type c \<in> set (offered_payload_types (md_fmt m)) \<and>
     from_name fs (codec_name_of (md_attributes m) (oc_payload_type c)) = Some (oc_kind c)"
  unfolding offered_codecs_def set_List_map_filter
  by (cases c) (auto split: option.splits)

lemma offered_codec_enabled: "c \<in> set (offered_codecs fs m) \<Longrightarrow> kind_enabled fs (oc_kind c)"
  by (auto simp: set_offered_codecs intro: from_name_enabled)

lemma List_map_filter_Nil: "List.map_filter f xs = [] \<longleftrightarrow> (\<forall>x \<in> set xs. f x = None)"
  by (induction xs) (auto simp: List.map_filter_simps split: option.splits)

lemma offered_codecs_Nil:
  "offered_codecs fs m = [] \<longleftrightarrow>
   (\<forall>pt \<in> set (offered_payload_types (md_fmt m)). from_name fs (codec_name_of (md_attributes m) pt) = None)"
  unfolding offered_codecs_def List_map_filter_Nil by (auto split: option.splits)

text \<open>
  The static types are their static codecs; the codec of any other type is named by an \<open>rtpmap\<close>,
  and L16 comes at 16 kHz.
\<close>

lemma codec_name_agrees:
  assumes "from_name fs (codec_name_of attrs pt) = Some k"
  shows "if pt = 0 then k = Pcmu else if pt = 8 then k = Pcma else if pt = 9 then k = G722
    else (\<exists>r. Rtpmap r \<in> set attrs \<and> rm_payload_type r = ucast pt \<and>
              eq_ignore_ascii_case (rm_encoding_name r) (kind_name k) \<and>
              (k = L16 \<longrightarrow> rm_clock_rate r = 16000))"
proof (cases "pt \<in> {0, 8, 9}")
  case True
  then show ?thesis
    using assms by (auto simp: codec_name_of_def from_name_def eq_ignore_ascii_case_def split: if_splits)
next
  case False
  then obtain name where name: "find_rtpmap_name pt attrs = Some name" "from_name fs name = Some k"
    using assms from_name_PT [of fs "show_nat (unat pt)"]
    by (auto simp: codec_name_of_def split: option.splits)
  have "eq_ignore_ascii_case name (kind_name k)" by (rule from_name_SomeD [OF name(2)])
  moreover from this have "k = L16 \<Longrightarrow> eq_ignore_ascii_case name ''l16''"
    by (simp add: eq_ignore_ascii_case_def)
  ultimately show ?thesis
    using find_rtpmap_name_SomeD [OF name(1)] False by auto
qed

section \<open>Properties of reading an offer\<close>

text \<open>The first audio section, and the address that counts for a section.\<close>

definition first_audio :: "session_description \<Rightarrow> media_description \<Rightarrow> bool" where
  "first_audio sdp m \<longleftrightarrow>
     (\<exists>i < length (sd_media_descriptions sdp). sd_media_descriptions sdp ! i = m \<and> md_media m = Audio \<and>
        (\<forall>j < i. md_media (sd_media_descriptions sdp ! j) \<noteq> Audio))"

definition connection_of :: "session_description \<Rightarrow> media_description \<Rightarrow> ip_addr option" where
  "connection_of sdp m = (case md_connections m of c # _ \<Rightarrow> Some c | [] \<Rightarrow> sd_connection sdp)"

lemma find_first_audio:
  "find (\<lambda>m. md_media m = Audio) (sd_media_descriptions sdp) = Some m \<longleftrightarrow> first_audio sdp m"
  by (auto simp: find_Some_iff first_audio_def)

lemma find_no_audio:
  "find (\<lambda>m. md_media m = Audio) (sd_media_descriptions sdp) = None \<longleftrightarrow>
   (\<forall>m \<in> set (sd_media_descriptions sdp). md_media m \<noteq> Audio)"
  by (auto simp: find_None_iff)

lemma first_audio_unique: "first_audio sdp m \<Longrightarrow> first_audio sdp m' \<Longrightarrow> m = m'"
  unfolding find_first_audio [symmetric] by simp

lemma no_audio_iff:
  "(\<forall>m \<in> set (sd_media_descriptions sdp). md_media m \<noteq> Audio) \<longleftrightarrow> (\<forall>m. \<not> first_audio sdp m)"
  unfolding find_no_audio [symmetric] find_first_audio [symmetric] by simp

lemma parse_offer_no_audio:
  "parse body = Inr sdp \<Longrightarrow> (\<forall>m. \<not> first_audio sdp m) \<Longrightarrow> parse_sdp_offer fs parse body = Inl NoAudioMedia"
  unfolding no_audio_iff [symmetric] find_no_audio [symmetric] by (simp add: parse_sdp_offer_def)

lemma parse_offer_audio:
  "parse body = Inr sdp \<Longrightarrow> first_audio sdp m \<Longrightarrow>
   parse_sdp_offer fs parse body =
     (case connection_of sdp m of
        None \<Rightarrow> Inl MissingConnectionAddress
      | Some addr \<Rightarrow>
          (case select_preferred (offered_codecs fs m) of
             None \<Rightarrow> Inl NoSupportedCodecErr
           | Some c \<Rightarrow> Inr \<lparr>peer_addr = addr, peer_port = md_port m,
                payload_type = oc_payload_type c, offer_codec_kind = oc_kind c\<rparr>))"
  unfolding find_first_audio [symmetric] by (simp add: parse_sdp_offer_def connection_of_def)

text \<open>C14.
  What an accepted offer means.  \<open>parse_sdp_offer\<close> succeeds exactly when the body parses, has an
  audio section, an address counts for the first such section (its own connection line before the
  one of the session) and that section offers a codec of this build; the result is that address,
  that section's port and the most preferred codec, the one the peer listed first on a tie.\<close>

theorem parse_offer_selects_preferred:
  "parse_sdp_offer fs parse body = Inr off \<longleftrightarrow>
     (\<exists>sdp m c. parse body = Inr sdp \<and> first_audio sdp m \<and>
        connection_of sdp m = Some (peer_addr off) \<and> peer_port off = md_port m \<and>
        preferred_first (offered_codecs fs m) c \<and>
        payload_type off = oc_payload_type c \<and> offer_codec_kind off = oc_kind c)"
proof (cases "parse body")
  case (Inl e)
  then show ?thesis by (simp add: parse_sdp_offer_def)
next
  case (Inr sdp)
  show ?thesis
  proof (cases "\<exists>m. first_audio sdp m")
    case False
    then show ?thesis using Inr parse_offer_no_audio [of parse body sdp fs] by simp
  next
    case True
    then obtain m where m: "first_audio sdp m" by blast
    have only: "first_audio sdp m' \<longleftrightarrow> m' = m" for m'
      using m first_audio_unique by blast
    show ?thesis
      unfolding parse_offer_audio [of parse body sdp m fs, OF Inr m] select_preferred_iff [symmetric] Inr
      by (cases off) (auto simp: only split: option.splits)
  qed
qed

text \<open>C35.
  Which error an offer gets, in the order of the checks: a body the parser rejects, then no audio
  section, then no address, and last no codec, which is reported exactly when no payload type of
  the first audio section names a codec of this build.  \<open>InvalidAddress\<close> is never produced.\<close>

theorem parse_offer_errors:
  "parse_sdp_offer fs parse body = Inl err \<longleftrightarrow>
     (case err of
        ParseError e \<Rightarrow> parse body = Inl e
      | InvalidAddress _ \<Rightarrow> False
      | NoAudioMedia \<Rightarrow> \<exists>sdp. parse body = Inr sdp \<and>
          (\<forall>m \<in> set (sd_media_descriptions sdp). md_media m \<noteq> Audio)
      | MissingConnectionAddress \<Rightarrow> \<exists>sdp m. parse body = Inr sdp \<and> first_audio sdp m \<and>
          connection_of sdp m = None
      | NoSupportedCodecErr \<Rightarrow> \<exists>sdp m. parse body = Inr sdp \<and> first_audio sdp m \<and>
          connection_of sdp m \<noteq> None \<and>
          (\<forall>pt \<in> set (offered_payload_types (md_fmt m)).
             from_name fs (codec_name_of (md_attributes m) pt) = None))"
proof (cases "parse body")
  case (Inl e)
  then show ?thesis by (auto simp: parse_sdp_offer_def split: sdp_parse_error.splits)
next
  case (Inr sdp)
  show ?thesis
  proof (cases "\<exists>m. first_audio sdp m")
    case False
    then show ?thesis
      using Inr parse_offer_no_audio [of parse body sdp fs] no_audio_iff [of sdp]
      by (auto split: sdp_parse_error.splits)
  next
    case True
    then obtain m where m: "first_audio sdp m" by blast
    have only: "first_audio sdp m' \<longleftrightarrow> m' = m" for m'
      using m first_audio_unique by blast
    show ?thesis
      unfolding parse_offer_audio [of parse body sdp m fs, OF Inr m] offered_codecs_Nil [symmetric]
        select_preferred_None [symmetric] no_audio_iff Inr
      by (auto simp: only split: option.splits sdp_parse_error.splits)
  qed
qed

lemma parse_offer_codec:
  assumes "parse_sdp_offer fs parse body = Inr off"
  shows "\<exists>sdp m. parse body = Inr sdp \<and> first_audio sdp m \<and>
    payload_type off \<in> set (offered_payload_types (md_fmt m)) \<and>
    from_name fs (codec_name_of (md_attributes m) (payload_type off)) = Some (offer_codec_kind off)"
proof -
  let ?c = "\<lparr>oc_payload_type = payload_type off, oc_kind = offer_codec_kind off\<rparr>"
  obtain sdp where sdp: "parse body = Inr sdp"
    using assms by (cases "parse body") (simp_all add: parse_sdp_offer_def)
  with assms obtain m where m: "first_audio sdp m"
    using parse_offer_no_audio [of parse body sdp fs] by fastforce
  have "preferred_first (offered_codecs fs m) ?c"
    using assms by (auto simp: parse_offer_audio [of parse body sdp m fs, OF sdp m]
        select_preferred_iff [symmetric] split: option.splits)
  then have "?c \<in> set (offered_codecs fs m)"
    unfolding preferred_first_def by (metis nth_mem)
  then show ?thesis using sdp m by (auto simp: set_offered_codecs)
qed

text \<open>C15.
  The payload type and the kind of an accepted offer belong together: the type is one the first
  audio section lists, the kind is one this build has, the static types 0, 8 and 9 are their
  static codecs, any other type carries the name of the kind in an \<open>rtpmap\<close> of its own, and L16
  is only taken with the clock rate 16000 the session can decode.\<close>

theorem parse_offer_codec_agrees:
  assumes "parse_sdp_offer fs parse body = Inr off"
  shows "kind_enabled fs (offer_codec_kind off) \<and>
    (\<exists>sdp m. parse body = Inr sdp \<and> first_audio sdp m \<and>
       payload_type off \<in> set (offered_payload_types (md_fmt m)) \<and>
       (if payload_type off = 0 then offer_codec_kind off = Pcmu
        else if payload_type off = 8 then offer_codec_kind off = Pcma
        else if payload_type off = 9 then offer_codec_kind off = G722
        else (\<exists>r. Rtpmap r \<in> set (md_attributes m) \<and> rm_payload_type r = ucast (payload_type off) \<and>
                eq_ignore_ascii_case (rm_encoding_name r) (kind_name (offer_codec_kind off)) \<and>
                (offer_codec_kind off = L16 \<longrightarrow> rm_clock_rate r = 16000))))"
proof -
  obtain sdp m where m: "parse body = Inr sdp" "first_audio sdp m"
    "payload_type off \<in> set (offered_payload_types (md_fmt m))"
    and name: "from_name fs (codec_name_of (md_attributes m) (payload_type off)) = Some (offer_codec_kind off)"
    using parse_offer_codec [OF assms] by blast
  then show ?thesis
    using codec_name_agrees [OF name] from_name_enabled [OF name] by blast
qed

section \<open>A concrete offer\<close>

text \<open>An offer of L16 at 8 kHz, Opus and PCMU, used by the witnesses.\<close>

definition sample_audio :: media_description where
  "sample_audio = \<lparr>md_media = Audio, md_port = 4000, md_fmt = ''96 111 0'', md_connections = [],
     md_attributes = [OtherAttribute ''sendrecv'',
       Rtpmap \<lparr>rm_payload_type = 96, rm_encoding_name = ''L16'', rm_clock_rate = 8000\<rparr>,
       Rtpmap \<lparr>rm_payload_type = 111, rm_encoding_name = ''opus'', rm_clock_rate = 48000\<rparr>]\<rparr>"

definition sample_sdp :: session_description where
  "sample_sdp = \<lparr>sd_connection = Some (IpV4 10 0 0 1),
     sd_media_descriptions = [sample_audio\<lparr>md_media := OtherMedia ''video''\<rparr>, sample_audio]\<rparr>"

lemma sample_offer:
  "parse_sdp_offer \<lparr>feat_opus = True, feat_g722 = False\<rparr> (\<lambda>_. Inr sample_sdp) body =
     Inr \<lparr>peer_addr = IpV4 10 0 0 1, peer_port = 4000, payload_type = 111, offer_codec_kind = Opus\<rparr>"
  unfolding parse_sdp_offer_def by code_simp

theorem parse_offer_codec_agrees_witness:
  "\<exists>sdp m. first_audio sdp m \<and> 111 \<in> set (offered_payload_types (md_fmt m)) \<and>
     (\<exists>r. Rtpmap r \<in> set (md_attributes m) \<and> rm_payload_type r = 111 \<and>
          eq_ignore_ascii_case (rm_encoding_name r) ''opus'')"
  using parse_offer_codec_agrees [OF sample_offer [of "[]"]] by auto

theorem parse_offer_errors_witness:
  "\<forall>fs body. parse_sdp_offer fs (\<lambda>_. Inr (sample_sdp\<lparr>sd_connection := None\<rparr>)) body = Inl MissingConnectionAddress \<and>
     parse_sdp_offer fs (\<lambda>_. Inr (sample_sdp\<lparr>sd_media_descriptions := []\<rparr>)) body = Inl NoAudioMedia"
proof -
  have "first_audio (sample_sdp\<lparr>sd_connection := None\<rparr>) sample_audio"
    unfolding find_first_audio [symmetric] by (simp add: sample_sdp_def sample_audio_def)
  moreover have "connection_of (sample_sdp\<lparr>sd_connection := None\<rparr>) sample_audio = None"
    by (simp add: connection_of_def sample_sdp_def sample_audio_def)
  ultimately show ?thesis
    unfolding parse_offer_errors by auto
qed

section \<open>The text of an answer\<close>

text \<open>The codec lines of an answer, as lines.\<close>

definition codec_lines :: "string \<Rightarrow> codec_kind \<Rightarrow> string list" where
  "codec_lines pt k =
     (''a=rtpmap:'' @ pt @ '' '' @ kind_name k @
        (case k of Opus \<Rightarrow> ''/48000/2'' | L16 \<Rightarrow> ''/16000'' | _ \<Rightarrow> ''/8000''))
     # (if k = Opus then [''a=fmtp:'' @ pt @ '' minptime=10;useinbandfec=1''] else [])"

definition answer_lines :: "ip_addr \<Rightarrow> u16 \<Rightarrow> u64 \<Rightarrow> offered_codec \<Rightarrow> string list" where
  "answer_lines ip port sid c =
     [''v=0'', ''o=- '' @ show_nat (unat sid) @ '' 1 IN IP4 '' @ show_ip ip, ''s=rsipstack-server'',
      ''c=IN IP4 '' @ show_ip ip, ''t=0 0'',
      ''m=audio '' @ show_nat (unat port) @ '' RTP/AVP '' @ show_nat (unat (oc_payload_type c))]
     @ codec_lines (show_nat (unat (oc_payload_type c))) (oc_kind c)
     @ [''a=ptime:20'', ''a=sendrecv'']"

lemma crlf_lines_concat:
  "list_all (list_all printable) ls \<Longrightarrow> crlf_lines (concat (map (\<lambda>l. l @ CRLF) ls)) = ls"
  by (induction ls) (simp_all add: crlf_lines_line)

lemma show_nat_rates:
  "show_nat 8000 = ''8000''" "show_nat 16000 = ''16000''" "show_nat 48000 = ''48000''"
  by (simp_all add: show_nat.simps digit_chars del: One_nat_def)

lemma rtpmap_lines_eq: "rtpmap_lines pt k = concat (map (\<lambda>l. l @ CRLF) (codec_lines pt k))"
  by (cases k) (simp_all add: codec_lines_def)

lemma show_interval: "show_nat EXPECTED_SEND_INTERVAL = ''20''"
  by code_simp

lemma generate_sdp_answer_eq:
  "generate_sdp_answer ip port sid c = concat (map (\<lambda>l. l @ CRLF) (answer_lines ip port sid c))"
  by (simp add: generate_sdp_answer_def answer_lines_def rtpmap_lines_eq show_interval Let_def)

lemma answer_lines_printable: "list_all (list_all printable) (answer_lines ip port sid c)"
proof -
  have "list_all (list_all printable) (codec_lines (show_nat n) k)" for n k
    by (cases k) (simp_all add: codec_lines_def printable_def)
  then show ?thesis
    unfolding answer_lines_def by (simp add: printable_def)
qed

lemma answer_payload_types:
  "offered_payload_types (show_nat (unat (pt :: u8))) = [pt]"
  by (simp add: offered_payload_types_def split_whitespace_word parse_show_u8 List.map_filter_simps)

text \<open>
  The answer is exactly the lines it is meant to have, each ended by CR LF: version, origin with
  the session id, session name, connection address, time, one audio section with the port and the
  one payload type, the lines of the selected codec, packet time and direction.  No address, port,
  session id or payload type can add or split a line, and the format list of the audio line reads
  back as the one payload type.\<close>

lemma answer_is_its_lines:
  "crlf_lines (generate_sdp_answer ip port sid c) = answer_lines ip port sid c \<and>
   concat (map (\<lambda>l. l @ CRLF) (answer_lines ip port sid c)) = generate_sdp_answer ip port sid c \<and>
   answer_lines ip port sid c ! 5
     = ''m=audio '' @ show_nat (unat port) @ '' RTP/AVP '' @ show_nat (unat (oc_payload_type c)) \<and>
   offered_payload_types (show_nat (unat (oc_payload_type c))) = [oc_payload_type c]"
  unfolding generate_sdp_answer_eq crlf_lines_concat [OF answer_lines_printable]
  by (simp add: answer_payload_types) (simp add: answer_lines_def numeral_eq_Suc)

text \<open>C34.
  The clock an answer advertises is the clock the session sends with: the \<open>rtpmap\<close> line of a codec
  carries the name that parses back to its kind, and the rate that is the codec's RTP timestamp
  increment times the packets per second of the advertised packet time (G.722 with its 8000
  included).\<close>

theorem answer_clock_is_codec_clock:
  assumes "codec_create libs n (oc_kind c) = Inr cdc"
  shows "let rate = unat (ticks (codec_rtp_timestamp_increment cdc)) * (1000 div EXPECTED_SEND_INTERVAL);
             pt = show_nat (unat (oc_payload_type c));
             ls = crlf_lines (generate_sdp_answer ip port sid c)
         in ''a=rtpmap:'' @ pt @ '' '' @ kind_name (oc_kind c) @ ''/'' @ show_nat rate
              @ (if oc_kind c = Opus then ''/2'' else []) \<in> set ls \<and>
            ''a=ptime:'' @ show_nat EXPECTED_SEND_INTERVAL \<in> set ls \<and>
            from_name fs (kind_name (oc_kind c)) = (if kind_enabled fs (oc_kind c) then Some (oc_kind c) else None)"
proof -
  note rates = show_nat_rates
  have k: "oc_kind c = codec_kind_of cdc" using codec_create_kind [OF assms] by simp
  have "crlf_lines (generate_sdp_answer ip port sid c) = answer_lines ip port sid c"
    unfolding generate_sdp_answer_eq by (rule crlf_lines_concat [OF answer_lines_printable])
  then show ?thesis
    unfolding Let_def show_interval from_name_kind_name using k
    by (cases cdc) (simp_all add: answer_lines_def codec_lines_def rates EXPECTED_SEND_INTERVAL_def)
qed

theorem answer_clock_is_codec_clock_witness:
  "''a=rtpmap:9 G722/8000'' \<in> set (crlf_lines (generate_sdp_answer (IpV4 10 0 0 1) 10000 7
      \<lparr>oc_payload_type = 9, oc_kind = G722\<rparr>))"
proof -
  have "codec_create libs 0 (oc_kind \<lparr>oc_payload_type = 9, oc_kind = G722\<rparr>)
      = Inr (G722Codec (g722_new (libs :: unit codec_libs)))" for libs
    by simp
  moreover have "show_nat 8000 = ''8000''" "show_nat 9 = ''9''"
    by (simp_all add: show_nat_rates show_nat.simps digit_chars)
  ultimately show ?thesis
    using answer_clock_is_codec_clock [of undefined 0 "\<lparr>oc_payload_type = 9, oc_kind = G722\<rparr>"
        "G722Codec (g722_new (undefined :: unit codec_libs))" "IpV4 10 0 0 1" 10000 7]
    by (simp add: Let_def EXPECTED_SEND_INTERVAL_def)
qed

text \<open>C17.
  The address of an answer reads back.  An answer has one connection line, and the text it has for
  the address is one that \<open>AdvertiseIpAddr::from_str\<close>, which reads the external address of the command
  line, takes for exactly the advertised address, in all the forms an IPv6 address is written in.  But
  the line says \<open>IP4\<close> for an IPv6 address as well, and then no IPv4 address can be read there.\<close>

theorem answer_address_reads_back:
  assumes "ip_ok ip"
  shows "\<exists>addr. filter (\<lambda>l. take 2 l = ''c='') (crlf_lines (generate_sdp_answer ip port sid c)) = [''c=IN IP4 '' @ addr] \<and>
    advertise_from_str addr = Inr ip \<and> ((\<exists>segs. ip = IpV6 segs) \<longrightarrow> read_ipv4_addr addr = None)"
proof -
  have ls: "crlf_lines (generate_sdp_answer ip port sid c) = answer_lines ip port sid c"
    unfolding generate_sdp_answer_eq by (rule crlf_lines_concat [OF answer_lines_printable])
  have "filter (\<lambda>l. take 2 l = ''c='') (answer_lines ip port sid c) = [''c=IN IP4 '' @ show_ip ip]"
    by (cases "oc_kind c") (simp_all add: answer_lines_def codec_lines_def)
  moreover have "advertise_from_str (show_ip ip) = Inr ip"
    using ip_from_str_show [OF assms] by (simp add: advertise_from_str_def)
  moreover have "read_ipv4_addr (show_ip ip) = None" if "ip = IpV6 segs" for segs
    using read_show_ipv6 [of segs] assms that by (simp add: ip_ok_def)
  ultimately show ?thesis unfolding ls by blast
qed

theorem answer_address_reads_back_witness:
  "\<exists>addr. ''c=IN IP4 '' @ addr \<in> set (crlf_lines (generate_sdp_answer (IpV6 [0x2001, 0xdb8, 0, 0, 0, 0, 0, 1]) 10000 7
      \<lparr>oc_payload_type = 0, oc_kind = Pcmu\<rparr>)) \<and>
     advertise_from_str addr = Inr (IpV6 [0x2001, 0xdb8, 0, 0, 0, 0, 0, 1]) \<and> read_ipv4_addr addr = None"
proof -
  have "ip_ok (IpV6 [0x2001, 0xdb8, 0, 0, 0, 0, 0, 1])" by (simp add: ip_ok_def)
  from answer_address_reads_back [OF this, of 10000 7 "\<lparr>oc_payload_type = 0, oc_kind = Pcmu\<rparr>"]
  obtain addr where addr: "filter (\<lambda>l. take 2 l = ''c='') (crlf_lines (generate_sdp_answer
      (IpV6 [0x2001, 0xdb8, 0, 0, 0, 0, 0, 1]) 10000 7 \<lparr>oc_payload_type = 0, oc_kind = Pcmu\<rparr>)) = [''c=IN IP4 '' @ addr]"
    "advertise_from_str addr = Inr (IpV6 [0x2001, 0xdb8, 0, 0, 0, 0, 0, 1])" "read_ipv4_addr addr = None"
    by blast
  have "''c=IN IP4 '' @ addr \<in> set (filter (\<lambda>l. take 2 l = ''c='') (crlf_lines (generate_sdp_answer
      (IpV6 [0x2001, 0xdb8, 0, 0, 0, 0, 0, 1]) 10000 7 \<lparr>oc_payload_type = 0, oc_kind = Pcmu\<rparr>)))"
    unfolding addr(1) by simp
  then show ?thesis using addr(2,3) unfolding set_filter by blast
qed

end
