(* ===== verification/Rtp.thy ===== *)
theory Rtp
  imports Codecs
begin

text \<open>
  The packet half of \<open>media/rtp.rs\<close>: frames, the send state, parsing and building.  The crate
  \<open>rtp-rs\<close> is not part of the repository: its reader and its builder are the parameter
  \<open>rtp_lib\<close>, and \<open>rtp_lib_ok\<close> states what they are documented to do.
\<close>

section \<open>Frames and the send state\<close>

record audio_frame =
  samples :: "i16 list"

definition audio_frame_new :: "i16 list \<Rightarrow> audio_frame" where
  "audio_frame_new s = \<lparr>samples = s\<rparr>"

record rtp_send_state =
  st_ssrc :: u32
  st_sequence :: u16
  st_timestamp :: u32
  st_payload_type :: u8
  st_timestamp_increment :: timestamp_increment

text \<open>The three random numbers of \<open>RtpSendState::new\<close> are arguments.\<close>

definition rtp_send_state_new ::
    "u32 \<Rightarrow> u16 \<Rightarrow> u32 \<Rightarrow> u8 \<Rightarrow> timestamp_increment \<Rightarrow> rtp_send_state" where
  "rtp_send_state_new ssrc seq ts payload_type incr =
     \<lparr>st_ssrc = ssrc, st_sequence = seq, st_timestamp = ts,
      st_payload_type = payload_type, st_timestamp_increment = incr\<rparr>"

definition rtp_next :: "rtp_send_state \<Rightarrow> rtp_send_state \<times> rtp_send_state" where
  "rtp_next st =
     (let current = st;
          st = st\<lparr>st_sequence := st_sequence st + 1\<rparr>;
          st = st\<lparr>st_timestamp := st_timestamp st + ticks (st_timestamp_increment st)\<rparr>
      in (current, st))"

section \<open>Packets\<close>

record raw_rtp_packet =
  raw_payload :: "u8 list"
  raw_timestamp :: u32
  raw_sequence :: u16
  raw_ssrc :: u32
  raw_payload_type :: u8

text \<open>What the reader shows of a packet, and what the builder is given.\<close>

record rtp_fields =
  rf_payload_type :: u8
  rf_ssrc :: u32
  rf_sequence :: u16
  rf_timestamp :: u32
  rf_payload :: "u8 list"

record rtp_lib =
  rtp_reader :: "u8 list \<Rightarrow> rtp_fields option"
  rtp_builder :: "rtp_fields \<Rightarrow> string + u8 list"

definition parse_rtp_packet :: "rtp_lib \<Rightarrow> u8 list \<Rightarrow> raw_rtp_packet option" where
  "parse_rtp_packet lib data =
     (case rtp_reader lib data of
        None \<Rightarrow> None
      | Some rtp \<Rightarrow> Some \<lparr>raw_payload = rf_payload rtp, raw_timestamp = rf_timestamp rtp,
          raw_sequence = rf_sequence rtp, raw_ssrc = rf_ssrc rtp,
          raw_payload_type = rf_payload_type rtp\<rparr>)"

text \<open>The \<open>expect\<close> of the source makes a builder error a panic.\<close>

definition build_rtp_packet :: "rtp_lib \<Rightarrow> u8 list \<Rightarrow> rtp_send_state \<Rightarrow> u8 list outcome" where
  "build_rtp_packet lib payload st =
     (case rtp_builder lib \<lparr>rf_payload_type = st_payload_type st, rf_ssrc = st_ssrc st,
              rf_sequence = st_sequence st, rf_timestamp = st_timestamp st, rf_payload = payload\<rparr> of
        Inl _ \<Rightarrow> None
      | Inr packet \<Rightarrow> Some packet)"

text \<open>
  The documented behaviour of the crate: a payload type has seven bits, the builder refuses any
  other; what it builds, the reader reads back.
\<close>

definition rtp_lib_ok :: "rtp_lib \<Rightarrow> bool" where
  "rtp_lib_ok lib \<longleftrightarrow>
     (\<forall>f. (128 \<le> rf_payload_type f \<longrightarrow> (\<exists>e. rtp_builder lib f = Inl e)) \<and>
          (rf_payload_type f < 128 \<longrightarrow>
             (\<exists>p. rtp_builder lib f = Inr p \<and> rtp_reader lib p = Some f)))"

lemma rtp_lib_ok_build:
  "rtp_lib_ok lib \<Longrightarrow> rf_payload_type f < 128 \<Longrightarrow>
   \<exists>p. rtp_builder lib f = Inr p \<and> rtp_reader lib p = Some f"
  by (simp add: rtp_lib_ok_def)

lemma rtp_lib_ok_refuse:
  "rtp_lib_ok lib \<Longrightarrow> 128 \<le> rf_payload_type f \<Longrightarrow> \<exists>e. rtp_builder lib f = Inl e"
  by (simp add: rtp_lib_ok_def)

section \<open>A concrete crate\<close>

text \<open>
  The fixed twelve-byte header of RFC 3550 without padding, extension and sources: an instance of
  the parameter that satisfies its law, used by the witnesses only.
\<close>

definition be16 :: "u16 \<Rightarrow> u8 list" where
  "be16 w = [ucast (drop_bit 8 w), ucast w]"

definition be32 :: "u32 \<Rightarrow> u8 list" where
  "be32 w = [ucast (drop_bit 24 w), ucast (drop_bit 16 w), ucast (drop_bit 8 w), ucast w]"

definition plain_rtp_build :: "rtp_fields \<Rightarrow> string + u8 list" where
  "plain_rtp_build f =
     (if 128 \<le> rf_payload_type f then Inl ''PayloadTypeInvalid''
      else Inr (0x80 # rf_payload_type f # be16 (rf_sequence f) @ be32 (rf_timestamp f)
                @ be32 (rf_ssrc f) @ rf_payload f))"

fun plain_rtp_read :: "u8 list \<Rightarrow> rtp_fields option" where
  "plain_rtp_read (v # pt # s1 # s0 # t3 # t2 # t1 # t0 # c3 # c2 # c1 # c0 # payload) =
     (if v = 0x80 then
        Some \<lparr>rf_payload_type = pt AND 0x7F,
              rf_ssrc = push_bit 24 (ucast c3) OR push_bit 16 (ucast c2) OR push_bit 8 (ucast c1) OR ucast c0,
              rf_sequence = push_bit 8 (ucast s1) OR ucast s0,
              rf_timestamp = push_bit 24 (ucast t3) OR push_bit 16 (ucast t2) OR push_bit 8 (ucast t1) OR ucast t0,
              rf_payload = payload\<rparr>
      else None)"
| "plain_rtp_read _ = None"

definition plain_rtp_lib :: rtp_lib where
  "plain_rtp_lib = \<lparr>rtp_reader = plain_rtp_read, rtp_builder = plain_rtp_build\<rparr>"

lemma be16_read: "push_bit 8 (ucast (ucast (drop_bit 8 w) :: u8)) OR ucast (ucast w :: u8) = (w :: u16)"
  by (rule bit_word_eqI) (auto simp: bit_simps)

lemma be32_read:
  "push_bit 24 (ucast (ucast (drop_bit 24 w) :: u8)) OR push_bit 16 (ucast (ucast (drop_bit 16 w) :: u8))
   OR push_bit 8 (ucast (ucast (drop_bit 8 w) :: u8)) OR ucast (ucast w :: u8) = (w :: u32)"
  (is "?r = w")
proof (rule bit_word_eqI)
  fix n assume "n < LENGTH(32)"
  then consider "n < 8" | "8 \<le> n" "n < 16" | "16 \<le> n" "n < 24" | "24 \<le> n" "n < 32"
    by fastforce
  then show "bit ?r n = bit w n"
    by cases (auto simp: bit_simps)
qed

lemma seven_bits: "(pt :: u8) < 128 \<Longrightarrow> pt AND 0x7F = pt"
proof -
  assume "pt < 128"
  then have "unat (take_bit 7 pt) = unat pt"
    by (simp add: unsigned_take_bit_eq take_bit_nat_eq_self_iff word_less_nat_alt)
  then have "take_bit 7 pt = pt" by (rule unsigned_word_eqI)
  then show ?thesis by (simp add: take_bit_eq_mask mask_numeral)
qed

lemma plain_rtp_lib_ok: "rtp_lib_ok plain_rtp_lib"
  by (auto simp: rtp_lib_ok_def plain_rtp_lib_def plain_rtp_build_def be16_def be32_def
      be16_read be32_read seven_bits not_le)

section \<open>Headers\<close>

definition header_after :: "nat \<Rightarrow> rtp_send_state \<Rightarrow> rtp_send_state" where
  "header_after k st =
     st\<lparr>st_sequence := st_sequence st + of_nat k,
        st_timestamp := st_timestamp st + of_nat k * ticks (st_timestamp_increment st)\<rparr>"

definition rtp_headers :: "nat \<Rightarrow> rtp_send_state \<Rightarrow> rtp_send_state list" where
  "rtp_headers n st = map (\<lambda>k. header_after k st) [0..<n]"

lemma header_after_0 [simp]: "header_after 0 st = st"
  by (simp add: header_after_def)

lemma header_after_fields [simp]:
  "st_ssrc (header_after k st) = st_ssrc st"
  "st_payload_type (header_after k st) = st_payload_type st"
  "st_timestamp_increment (header_after k st) = st_timestamp_increment st"
  by (simp_all add: header_after_def)

lemma rtp_next_header: "rtp_next (header_after k st) = (header_after k st, header_after (Suc k) st)"
  by (simp add: rtp_next_def header_after_def Let_def algebra_simps)

lemma rtp_headers_Suc: "rtp_headers (Suc n) st = rtp_headers n st @ [header_after n st]"
  by (simp add: rtp_headers_def)

lemma iter_pull_rtp_next:
  "iter_pull (\<lambda>st. Some (rtp_next st)) n st = Some (rtp_headers n st, header_after n st)"
proof (induction n)
  case 0
  then show ?case by (simp add: rtp_headers_def)
next
  case (Suc n)
  then show ?case
    using iter_pull_snoc [OF Suc.IH, of "header_after n st" "header_after (Suc n) st"]
    by (simp add: rtp_next_header rtp_headers_Suc del: iter_pull.simps)
qed

lemma header_sequence_inj: "inj_on (\<lambda>k. st_sequence (header_after k st)) {m..<m + 65536}"
proof (rule inj_onI)
  fix a b
  assume ab: "a \<in> {m..<m + 65536}" "b \<in> {m..<m + 65536}"
    and "st_sequence (header_after a st) = st_sequence (header_after b st)"
  then have "(of_nat a :: u16) = of_nat b" by (simp add: header_after_def)
  then have "unat (of_nat a :: u16) = unat (of_nat b :: u16)" by (rule arg_cong)
  then have eq: "a mod 65536 = b mod 65536" by (simp add: unat_of_nat)
  show "a = b"
  proof (cases "a \<le> b")
    case True
    then have "65536 dvd b - a" using eq by (metis mod_eq_dvd_iff_nat)
    moreover have "b - a < 65536" using ab by auto
    ultimately have "b - a = 0" using dvd_imp_le not_le by blast
    then show ?thesis using True by simp
  next
    case False
    then have "65536 dvd a - b" using eq by (metis mod_eq_dvd_iff_nat nat_le_linear)
    moreover have "a - b < 65536" using ab by auto
    ultimately have "a - b = 0" using dvd_imp_le not_le by blast
    then show ?thesis using False by simp
  qed
qed

definition raw_of :: "rtp_send_state \<Rightarrow> u8 list \<Rightarrow> raw_rtp_packet" where
  "raw_of st payload =
     \<lparr>raw_payload = payload, raw_timestamp = st_timestamp st, raw_sequence = st_sequence st,
      raw_ssrc = st_ssrc st, raw_payload_type = st_payload_type st\<rparr>"

lemma build_parse:
  assumes "rtp_lib_ok lib" and "st_payload_type st < 128"
  shows "\<exists>packet. build_rtp_packet lib payload st = Some packet \<and>
    parse_rtp_packet lib packet = Some (raw_of st payload)"
  using rtp_lib_ok_build [OF assms(1), of "\<lparr>rf_payload_type = st_payload_type st, rf_ssrc = st_ssrc st,
      rf_sequence = st_sequence st, rf_timestamp = st_timestamp st, rf_payload = payload\<rparr>"] assms(2)
  by (auto simp: build_rtp_packet_def parse_rtp_packet_def raw_of_def)

lemma build_panics:
  assumes "rtp_lib_ok lib" and "\<not> st_payload_type st < 128"
  shows "build_rtp_packet lib payload st = None"
  using rtp_lib_ok_refuse [OF assms(1), of "\<lparr>rf_payload_type = st_payload_type st, rf_ssrc = st_ssrc st,
      rf_sequence = st_sequence st, rf_timestamp = st_timestamp st, rf_payload = payload\<rparr>"] assms(2)
  by (auto simp: build_rtp_packet_def not_less)

section \<open>A run of headers\<close>

text \<open>
  Successive RTP headers of one sender: the \<open>k\<close>-th one has the sequence number and the timestamp
  the first one had plus \<open>k\<close> and \<open>k\<close> clock steps, both wrapping, with the source and the payload
  type unchanged; and no two headers of any 65536 in a row share a sequence number.\<close>

lemma rtp_headers_consecutive:
  "\<exists>hs st'. iter_pull (\<lambda>st. Some (rtp_next st)) n st = Some (hs, st') \<and> hs = rtp_headers n st \<and>
     st' = header_after n st \<and> (\<forall>m. inj_on (\<lambda>k. st_sequence (header_after k st)) {m..<m + 65536})"
  using iter_pull_rtp_next [of n st] header_sequence_inj [of st] by blast

end
