(* ===== verification/Metrics.thy ===== *)
theory Metrics
  imports Complex_Main Codec
begin

text \<open>
  \<open>metrics.rs\<close>.  The \<open>metrics\<close> facade is not part of the repository; what the code does to it is
  a list of operations on metric handles (\<open>metric_op\<close>), in program order.  A handle is named by
  its key: the metric name and its labels.  Durations and instants are nanoseconds; the \<open>f64\<close>
  arithmetic of a histogram sample is the exact real one.
\<close>

section \<open>Operations on the facade\<close>

datatype metric_key = MetricKey (key_name: string) (key_labels: "(string \<times> string) list")

datatype metric_op =
    CounterIncrement metric_key nat
  | CounterAbsolute metric_key nat
  | GaugeSet metric_key nat
  | GaugeIncrement metric_key nat
  | GaugeDecrement metric_key nat
  | HistogramRecord metric_key real

section \<open>Names\<close>

definition CALLS_REJECTED_TOTAL :: string where
  "CALLS_REJECTED_TOTAL = ''rsipstack_server.calls.rejected_total''"
definition CALLS_ACCEPTED_TOTAL :: string where
  "CALLS_ACCEPTED_TOTAL = ''rsipstack_server.calls.accepted_total''"
definition CALLS_ACTIVE :: string where
  "CALLS_ACTIVE = ''rsipstack_server.calls.active''"
definition CALLS_DIALOG_NOT_FOUND_TOTAL :: string where
  "CALLS_DIALOG_NOT_FOUND_TOTAL = ''rsipstack_server.calls.dialog_not_found_total''"
definition CALLS_TERMINATED_TOTAL :: string where
  "CALLS_TERMINATED_TOTAL = ''rsipstack_server.calls.terminated_total''"
definition PORTS_CAPACITY :: string where
  "PORTS_CAPACITY = ''rsipstack_server.ports.capacity''"
definition PORTS_ALLOCATION_ATTEMPTS :: string where
  "PORTS_ALLOCATION_ATTEMPTS = ''rsipstack_server.ports.allocation_attempts''"
definition PORTS_ALLOCATION_FAILURES :: string where
  "PORTS_ALLOCATION_FAILURES = ''rsipstack_server.ports.allocation_failures''"
definition DRAIN_ACTIVE :: string where
  "DRAIN_ACTIVE = ''rsipstack_server.drain_active''"
definition RTP_PACKETS_SENT_TOTAL :: string where
  "RTP_PACKETS_SENT_TOTAL = ''rsipstack_server.rtp.packets_sent_total''"
definition RTP_SEND_ERRORS_TOTAL :: string where
  "RTP_SEND_ERRORS_TOTAL = ''rsipstack_server.rtp.send_errors_total''"
definition RTP_SEND_TIMING_DEVIATION_SECONDS :: string where
  "RTP_SEND_TIMING_DEVIATION_SECONDS = ''rsipstack_server.rtp.send_timing_deviation_seconds''"
definition RTP_SEND_TIMING_DEVIATION_SUMMARY_SECONDS :: string where
  "RTP_SEND_TIMING_DEVIATION_SUMMARY_SECONDS =
     ''rsipstack_server.rtp.send_timing_deviation_summary_seconds''"

lemmas metric_name_defs =
  CALLS_REJECTED_TOTAL_def CALLS_ACCEPTED_TOTAL_def CALLS_ACTIVE_def
  CALLS_DIALOG_NOT_FOUND_TOTAL_def CALLS_TERMINATED_TOTAL_def PORTS_CAPACITY_def
  PORTS_ALLOCATION_ATTEMPTS_def PORTS_ALLOCATION_FAILURES_def DRAIN_ACTIVE_def
  RTP_PACKETS_SENT_TOTAL_def RTP_SEND_ERRORS_TOTAL_def
  RTP_SEND_TIMING_DEVIATION_SECONDS_def RTP_SEND_TIMING_DEVIATION_SUMMARY_SECONDS_def

section \<open>Labels\<close>

datatype reject_reason =
  SdpOfferInvalid | RtpPortPoolExhausted | UdpConnectFailed | NoSupportedCodec | CodecInitFailed

primrec reject_reason_str :: "reject_reason \<Rightarrow> string" where
  "reject_reason_str SdpOfferInvalid = ''SdpOfferInvalid''"
| "reject_reason_str RtpPortPoolExhausted = ''RtpPortPoolExhausted''"
| "reject_reason_str UdpConnectFailed = ''UdpConnectFailed''"
| "reject_reason_str NoSupportedCodec = ''NoSupportedCodec''"
| "reject_reason_str CodecInitFailed = ''CodecInitFailed''"

definition reject_reason_iter :: "reject_reason list" where
  "reject_reason_iter =
     [SdpOfferInvalid, RtpPortPoolExhausted, UdpConnectFailed, NoSupportedCodec, CodecInitFailed]"

datatype terminated_label =
    LTimeout | LUacCancel | LUacBye | LUasBye | LUacBusy | LUasBusy | LUasDecline
  | LProxyError | LProxyAuthRequired | LUacOther | LUasOther

primrec terminated_label_str :: "terminated_label \<Rightarrow> string" where
  "terminated_label_str LTimeout = ''Timeout''"
| "terminated_label_str LUacCancel = ''UacCancel''"
| "terminated_label_str LUacBye = ''UacBye''"
| "terminated_label_str LUasBye = ''UasBye''"
| "terminated_label_str LUacBusy = ''UacBusy''"
| "terminated_label_str LUasBusy = ''UasBusy''"
| "terminated_label_str LUasDecline = ''UasDecline''"
| "terminated_label_str LProxyError = ''ProxyError''"
| "terminated_label_str LProxyAuthRequired = ''ProxyAuthRequired''"
| "terminated_label_str LUacOther = ''UacOther''"
| "terminated_label_str LUasOther = ''UasOther''"

definition terminated_label_iter :: "terminated_label list" where
  "terminated_label_iter =
     [LTimeout, LUacCancel, LUacBye, LUasBye, LUacBusy, LUasBusy, LUasDecline,
      LProxyError, LProxyAuthRequired, LUacOther, LUasOther]"

text \<open>
  \<open>TerminatedReason\<close> of the SIP library, with the variants the exhaustive match of the source
  names; \<open>'sc\<close> is its status code type.
\<close>

datatype 'sc terminated_reason =
    Timeout | UacCancel | UacBye | UasBye | UacBusy | UasBusy | UasDecline
  | ProxyError 'sc | ProxyAuthRequired | UacOther 'sc | UasOther 'sc

primrec terminated_label_from :: "'sc terminated_reason \<Rightarrow> terminated_label" where
  "terminated_label_from Timeout = LTimeout"
| "terminated_label_from UacCancel = LUacCancel"
| "terminated_label_from UacBye = LUacBye"
| "terminated_label_from UasBye = LUasBye"
| "terminated_label_from UacBusy = LUacBusy"
| "terminated_label_from UasBusy = LUasBusy"
| "terminated_label_from UasDecline = LUasDecline"
| "terminated_label_from (ProxyError _) = LProxyError"
| "terminated_label_from ProxyAuthRequired = LProxyAuthRequired"
| "terminated_label_from (UacOther _) = LUacOther"
| "terminated_label_from (UasOther _) = LUasOther"

section \<open>Handles\<close>

definition calls_rejected :: "reject_reason \<Rightarrow> metric_key" where
  "calls_rejected reason = MetricKey CALLS_REJECTED_TOTAL [(''reason'', reject_reason_str reason)]"

definition calls_accepted :: "codec_kind \<Rightarrow> metric_key" where
  "calls_accepted codec = MetricKey CALLS_ACCEPTED_TOTAL [(''codec'', kind_name codec)]"

definition calls_active :: metric_key where
  "calls_active = MetricKey CALLS_ACTIVE []"

definition calls_dialog_not_found :: metric_key where
  "calls_dialog_not_found = MetricKey CALLS_DIALOG_NOT_FOUND_TOTAL []"

definition calls_terminated :: "terminated_label \<Rightarrow> metric_key" where
  "calls_terminated label = MetricKey CALLS_TERMINATED_TOTAL [(''reason'', terminated_label_str label)]"

definition ports_capacity :: metric_key where
  "ports_capacity = MetricKey PORTS_CAPACITY []"

definition ports_allocation_attempts :: metric_key where
  "ports_allocation_attempts = MetricKey PORTS_ALLOCATION_ATTEMPTS []"

definition ports_allocation_failures :: metric_key where
  "ports_allocation_failures = MetricKey PORTS_ALLOCATION_FAILURES []"

definition drain_active :: metric_key where
  "drain_active = MetricKey DRAIN_ACTIVE []"

definition rtp_packets_sent :: metric_key where
  "rtp_packets_sent = MetricKey RTP_PACKETS_SENT_TOTAL []"

definition rtp_send_errors :: metric_key where
  "rtp_send_errors = MetricKey RTP_SEND_ERRORS_TOTAL []"

lemmas metric_handle_defs =
  calls_rejected_def calls_accepted_def calls_active_def calls_dialog_not_found_def
  calls_terminated_def ports_capacity_def ports_allocation_attempts_def
  ports_allocation_failures_def drain_active_def rtp_packets_sent_def rtp_send_errors_def

section \<open>Registration at start\<close>

text \<open>The flag is the \<open>Once\<close> of the source: set once the closure has run.\<close>

definition ensure_initialized :: "features \<Rightarrow> bool \<Rightarrow> metric_op list \<times> bool" where
  "ensure_initialized fs init =
     (if init then ([], True)
      else (map (\<lambda>r. CounterAbsolute (calls_rejected r) 0) reject_reason_iter
            @ map (\<lambda>k. CounterAbsolute (calls_accepted k) 0) (kind_iter fs)
            @ [GaugeSet calls_active 0, CounterAbsolute calls_dialog_not_found 0]
            @ map (\<lambda>l. CounterAbsolute (calls_terminated l) 0) terminated_label_iter
            @ [CounterAbsolute ports_allocation_failures 0,
               CounterAbsolute rtp_packets_sent 0,
               CounterAbsolute rtp_send_errors 0], True))"

section \<open>The scoped gauge\<close>

datatype scoped_gauge = ScopedGauge metric_key

definition scoped_gauge_new :: "metric_key \<Rightarrow> metric_op list \<times> scoped_gauge" where
  "scoped_gauge_new g = ([GaugeIncrement g 1], ScopedGauge g)"

primrec scoped_gauge_drop :: "scoped_gauge \<Rightarrow> metric_op list" where
  "scoped_gauge_drop (ScopedGauge g) = [GaugeDecrement g 1]"

section \<open>Timing deviation\<close>

record timing_metric =
  tm_expected_interval :: nat
  tm_last_tick :: "nat option"
  tm_metric :: metric_key
  tm_summary :: metric_key

definition timing_metric_new :: "metric_key \<Rightarrow> metric_key \<Rightarrow> nat \<Rightarrow> timing_metric" where
  "timing_metric_new m s expected =
     \<lparr>tm_expected_interval = expected, tm_last_tick = None, tm_metric = m, tm_summary = s\<rparr>"

definition as_secs :: "nat \<Rightarrow> real" where
  "as_secs ns = real ns / 1000000000"

text \<open>\<open>Instant - Instant\<close> saturates at zero, as the subtraction of natural numbers does.\<close>

definition timing_metric_record :: "nat \<Rightarrow> timing_metric \<Rightarrow> metric_op list \<times> timing_metric" where
  "timing_metric_record now m =
     ((case tm_last_tick m of
         None \<Rightarrow> []
       | Some prev \<Rightarrow>
           (let elapsed_time = now - prev;
                deviation = as_secs elapsed_time - as_secs (tm_expected_interval m)
            in [HistogramRecord (tm_metric m) deviation, HistogramRecord (tm_summary m) deviation])),
      m\<lparr>tm_last_tick := Some now\<rparr>)"

definition rtp_send_timing_deviation :: "nat \<Rightarrow> timing_metric" where
  "rtp_send_timing_deviation expected =
     timing_metric_new (MetricKey RTP_SEND_TIMING_DEVIATION_SECONDS [])
       (MetricKey RTP_SEND_TIMING_DEVIATION_SUMMARY_SECONDS []) expected"

fun timing_metric_run :: "nat list \<Rightarrow> timing_metric \<Rightarrow> metric_op list \<times> timing_metric" where
  "timing_metric_run [] m = ([], m)"
| "timing_metric_run (t # ts) m =
     (let (ops, m) = timing_metric_record t m; (ops', m) = timing_metric_run ts m in (ops @ ops', m))"

section \<open>Reading a log of operations\<close>

text \<open>The net change a log makes to a gauge by increments and decrements.\<close>

fun gauge_delta :: "metric_key \<Rightarrow> metric_op list \<Rightarrow> int" where
  "gauge_delta g [] = 0"
| "gauge_delta g (GaugeIncrement k n # ops) = (if k = g then int n else 0) + gauge_delta g ops"
| "gauge_delta g (GaugeDecrement k n # ops) = (if k = g then - int n else 0) + gauge_delta g ops"
| "gauge_delta g (_ # ops) = gauge_delta g ops"

text \<open>How much a log adds to a counter.\<close>

fun counter_delta :: "metric_key \<Rightarrow> metric_op list \<Rightarrow> nat" where
  "counter_delta c [] = 0"
| "counter_delta c (CounterIncrement k n # ops) = (if k = c then n else 0) + counter_delta c ops"
| "counter_delta c (_ # ops) = counter_delta c ops"

fun histogram_samples :: "metric_key \<Rightarrow> metric_op list \<Rightarrow> real list" where
  "histogram_samples h [] = []"
| "histogram_samples h (HistogramRecord k v # ops) =
     (if k = h then v # histogram_samples h ops else histogram_samples h ops)"
| "histogram_samples h (_ # ops) = histogram_samples h ops"

lemma gauge_delta_append [simp]: "gauge_delta g (xs @ ys) = gauge_delta g xs + gauge_delta g ys"
  by (induction g xs rule: gauge_delta.induct) auto

lemma counter_delta_append [simp]:
  "counter_delta c (xs @ ys) = counter_delta c xs + counter_delta c ys"
  by (induction c xs rule: counter_delta.induct) auto

lemma histogram_samples_append [simp]:
  "histogram_samples h (xs @ ys) = histogram_samples h xs @ histogram_samples h ys"
  by (induction h xs rule: histogram_samples.induct) auto

section \<open>Registration covers every label\<close>

primrec op_key :: "metric_op \<Rightarrow> metric_key" where
  "op_key (CounterIncrement k _) = k"
| "op_key (CounterAbsolute k _) = k"
| "op_key (GaugeSet k _) = k"
| "op_key (GaugeIncrement k _) = k"
| "op_key (GaugeDecrement k _) = k"
| "op_key (HistogramRecord k _) = k"

definition registered_keys :: "features \<Rightarrow> metric_key list" where
  "registered_keys fs = map op_key (fst (ensure_initialized fs False))"

lemma reject_reason_iter_complete: "r \<in> set reject_reason_iter"
  by (cases r) (simp_all add: reject_reason_iter_def)

lemma terminated_label_iter_complete: "l \<in> set terminated_label_iter"
  by (cases l) (simp_all add: terminated_label_iter_def)

lemma reject_reason_str_inject: "reject_reason_str a = reject_reason_str b \<longleftrightarrow> a = b"
  by (cases a; cases b) auto

lemma terminated_label_str_inject: "terminated_label_str a = terminated_label_str b \<longleftrightarrow> a = b"
  by (cases a; cases b) auto

lemma registered_keys_eq:
  "registered_keys fs =
     map calls_rejected reject_reason_iter @ map calls_accepted (kind_iter fs)
     @ [calls_active, calls_dialog_not_found] @ map calls_terminated terminated_label_iter
     @ [ports_allocation_failures, rtp_packets_sent, rtp_send_errors]"
  by (simp add: registered_keys_def ensure_initialized_def)

lemma distinct_registered_keys: "distinct (registered_keys fs)"
proof -
  have "distinct (map calls_rejected reject_reason_iter)"
    "distinct (map calls_terminated terminated_label_iter)"
    by (simp_all add: distinct_map inj_on_def calls_rejected_def calls_terminated_def
        reject_reason_str_inject terminated_label_str_inject
        reject_reason_iter_def terminated_label_iter_def)
  moreover have "distinct (map calls_accepted (kind_iter fs))"
    by (simp add: distinct_map inj_on_def calls_accepted_def kind_name_inject kind_iter_def)
  ultimately show ?thesis
    by (auto simp: registered_keys_eq metric_handle_defs metric_name_defs)
qed

text \<open>
  The first \<open>ensure_initialized\<close> of a process registers each handle once: every label a later
  \<open>calls_rejected\<close>, \<open>calls_accepted\<close> (of a codec of this build) or \<open>calls_terminated\<close> can
  carry is among the registered keys, whatever status code the terminated reason holds, so the
  label set is fixed in advance; a second call touches no metric, so it never resets the gauge of
  active calls.\<close>

lemma metrics_registered_before_use:
  "distinct (registered_keys fs) \<and>
   (\<forall>reason. calls_rejected reason \<in> set (registered_keys fs)) \<and>
   (\<forall>k. calls_accepted k \<in> set (registered_keys fs) \<longleftrightarrow> kind_enabled fs k) \<and>
   (\<forall>reason :: 'sc terminated_reason.
      calls_terminated (terminated_label_from reason) \<in> set (registered_keys fs)) \<and>
   ensure_initialized fs (snd (ensure_initialized fs False)) = ([], True)"
proof -
  have "calls_rejected reason \<in> set (registered_keys fs)" for reason
    by (simp add: registered_keys_eq reject_reason_iter_complete)
  moreover have "calls_accepted k \<in> set (registered_keys fs) \<longleftrightarrow> kind_enabled fs k" for k
    by (auto simp: registered_keys_eq metric_handle_defs metric_name_defs kind_name_inject
        set_kind_iter)
  moreover have "calls_terminated l \<in> set (registered_keys fs)" for l
    by (simp add: registered_keys_eq terminated_label_iter_complete)
  ultimately show ?thesis
    using distinct_registered_keys [of fs] by (simp add: ensure_initialized_def)
qed

section \<open>Timing deviation: samples\<close>

lemma timing_record_fields [simp]:
  "tm_expected_interval (snd (timing_metric_record t m)) = tm_expected_interval m"
  "tm_metric (snd (timing_metric_record t m)) = tm_metric m"
  "tm_summary (snd (timing_metric_record t m)) = tm_summary m"
  "tm_last_tick (snd (timing_metric_record t m)) = Some t"
  by (simp_all add: timing_metric_record_def)

lemma timing_run_from:
  assumes "tm_metric m \<noteq> tm_summary m" and "tm_last_tick m = Some t0" and "sorted (t0 # ts)"
  shows "sum_list (histogram_samples (tm_metric m) (fst (timing_metric_run ts m)))
           = as_secs (last (t0 # ts)) - as_secs t0
             - real (length ts) * as_secs (tm_expected_interval m)
       \<and> histogram_samples (tm_summary m) (fst (timing_metric_run ts m))
           = histogram_samples (tm_metric m) (fst (timing_metric_run ts m))
       \<and> length (histogram_samples (tm_metric m) (fst (timing_metric_run ts m))) = length ts"
  using assms
proof (induction ts arbitrary: t0 m)
  case Nil
  then show ?case by simp
next
  case (Cons t ts)
  define m' where "m' = snd (timing_metric_record t m)"
  have m': "tm_metric m' = tm_metric m" "tm_summary m' = tm_summary m"
    "tm_expected_interval m' = tm_expected_interval m" "tm_last_tick m' = Some t"
    by (simp_all add: m'_def)
  have run: "fst (timing_metric_run (t # ts) m)
      = fst (timing_metric_record t m) @ fst (timing_metric_run ts m')"
    by (simp add: m'_def split: prod.split)
  have ops: "fst (timing_metric_record t m) =
      [HistogramRecord (tm_metric m) (as_secs (t - t0) - as_secs (tm_expected_interval m)),
       HistogramRecord (tm_summary m) (as_secs (t - t0) - as_secs (tm_expected_interval m))]"
    using Cons.prems(2) by (simp add: timing_metric_record_def Let_def)
  have diff: "as_secs (t - t0) = as_secs t - as_secs t0"
    using Cons.prems(3) by (simp add: as_secs_def of_nat_diff diff_divide_distrib)
  have "sorted (t # ts)" using Cons.prems(3) by simp
  note IH = Cons.IH [of m' t, unfolded m', OF Cons.prems(1) refl this]
  show ?case
    unfolding run using IH Cons.prems(1)
    by (auto simp: ops diff algebra_simps)
qed

text \<open>
  The timing metric neither hides nor smears a stall: over any sequence of ticks the first one
  records nothing, every later one records one sample in both histograms, and the samples add up
  to the elapsed time minus the expected intervals.\<close>

lemma timing_samples_telescope:
  assumes "met \<noteq> summ" and "sorted (t0 # ts)"
  shows "let ops = fst (timing_metric_run (t0 # ts) (timing_metric_new met summ expected))
         in sum_list (histogram_samples met ops)
              = as_secs (last (t0 # ts)) - as_secs t0 - real (length ts) * as_secs expected
            \<and> histogram_samples summ ops = histogram_samples met ops
            \<and> length (histogram_samples met ops) = length ts"
proof -
  define m where "m = snd (timing_metric_record t0 (timing_metric_new met summ expected))"
  have m: "tm_metric m = met" "tm_summary m = summ" "tm_expected_interval m = expected"
    "tm_last_tick m = Some t0"
    by (simp_all add: m_def timing_metric_new_def)
  have "fst (timing_metric_run (t0 # ts) (timing_metric_new met summ expected))
      = fst (timing_metric_run ts m)"
    by (simp add: m_def timing_metric_record_def timing_metric_new_def split: prod.split)
  then show ?thesis
    using timing_run_from [of m t0 ts] assms by (simp add: m Let_def)
qed

end
