(* ===== verification/Ports.thy ===== *)
theory Ports
  imports Metrics NetAddr
begin

text \<open>
  The port half of \<open>media/rtp.rs\<close>: the range of RTP/RTCP port pairs, its round-robin cursor with
  the compare-and-exchange loop, and the search for a pair both of whose ports can be bound.

  The flag \<open>chk\<close> is the overflow mode of the build.  The sockets are an operating-system
  parameter, \<open>udp_ops\<close>, over an opaque world \<open>'w\<close>.
\<close>

section \<open>The range\<close>

record rtp_port_pair =
  rtp_port :: u16
  rtcp_port :: u16

record rtp_port_range =
  first_rtp_port :: u16
  last_rtp_port :: u16
  current_rtp_port :: u16

definition range_capacity :: "bool \<Rightarrow> rtp_port_range \<Rightarrow> u16 outcome" where
  "range_capacity chk r =
     (case sub_checked chk (last_rtp_port r) (first_rtp_port r) of
        None \<Rightarrow> None
      | Some d \<Rightarrow> add_checked chk (d div 2) 1)"

definition show_u16 :: "u16 \<Rightarrow> string" where
  "show_u16 w = show_nat (unat w)"

definition rtp_port_range_new ::
    "bool \<Rightarrow> u16 \<Rightarrow> u16 \<Rightarrow> (string + rtp_port_range \<times> metric_op list) outcome" where
  "rtp_port_range_new chk min_port max_port =
     (if max_port \<le> min_port
      then Some (Inl (''Max port '' @ show_u16 max_port @ '' must be larger than min port ''
                      @ show_u16 min_port @ ''.''))
      else
        (case (if unat max_port mod 2 = 0 then sub_checked chk max_port 2
               else sub_checked chk max_port 1) of
           None \<Rightarrow> None
         | Some last_port \<Rightarrow>
             (let range = \<lparr>first_rtp_port = min_port, last_rtp_port = last_port,
                           current_rtp_port = min_port\<rparr>
              in case range_capacity chk range of
                   None \<Rightarrow> None
                 | Some cap \<Rightarrow> Some (Inr (range, [GaugeSet ports_capacity (unat cap)])))))"

section \<open>The cursor\<close>

text \<open>What one round of the loop computes from the port it loaded.\<close>

definition port_after :: "bool \<Rightarrow> rtp_port_range \<Rightarrow> u16 \<Rightarrow> u16 outcome" where
  "port_after chk r current_port =
     (case add_checked chk current_port 2 of
        None \<Rightarrow> None
      | Some p \<Rightarrow> Some (if p > last_rtp_port r then first_rtp_port r else p))"

definition pair_at :: "bool \<Rightarrow> u16 \<Rightarrow> rtp_port_pair outcome" where
  "pair_at chk current_port =
     (case add_checked chk current_port 1 of
        None \<Rightarrow> None
      | Some q \<Rightarrow> Some \<lparr>rtp_port = current_port, rtcp_port = q\<rparr>)"

text \<open>The call as one thread sees it when no other thread interferes: the first exchange succeeds.\<close>

definition next_port_pair :: "bool \<Rightarrow> rtp_port_range \<Rightarrow> (rtp_port_pair \<times> rtp_port_range) outcome" where
  "next_port_pair chk r =
     (let current_port = current_rtp_port r
      in case port_after chk r current_port of
           None \<Rightarrow> None
         | Some next_port \<Rightarrow>
             (case pair_at chk current_port of
                None \<Rightarrow> None
              | Some pair \<Rightarrow> Some (pair, r\<lparr>current_rtp_port := next_port\<rparr>)))"

section \<open>The cursor under contention\<close>

text \<open>
  Any number of threads run the loop.  A thread is outside, or has loaded a value; a step is a
  load or a compare-and-exchange, which writes and returns a pair when the cursor still holds
  the loaded value and loops otherwise.  \<open>handed_out\<close> lists what was returned, in order, and
  \<open>retries\<close> counts how often each thread has looped.
\<close>

record port_sys =
  cursor :: rtp_port_range
  loaded :: "nat \<rightharpoonup> u16"
  handed_out :: "rtp_port_pair list"
  retries :: "nat \<Rightarrow> nat"

inductive port_step :: "bool \<Rightarrow> port_sys \<Rightarrow> port_sys \<Rightarrow> bool" for chk where
  load: "loaded s t = None \<Longrightarrow>
    port_step chk s (s\<lparr>loaded := (loaded s)(t \<mapsto> current_rtp_port (cursor s))\<rparr>)"
| exchange: "loaded s t = Some c \<Longrightarrow> current_rtp_port (cursor s) = c \<Longrightarrow>
    port_after chk (cursor s) c = Some n \<Longrightarrow> pair_at chk c = Some p \<Longrightarrow>
    port_step chk s (s\<lparr>cursor := (cursor s)\<lparr>current_rtp_port := n\<rparr>,
                       loaded := (loaded s)(t := None),
                       handed_out := handed_out s @ [p]\<rparr>)"
| retry: "loaded s t = Some c \<Longrightarrow> current_rtp_port (cursor s) \<noteq> c \<Longrightarrow>
    port_step chk s (s\<lparr>loaded := (loaded s)(t := None), retries := (retries s)(t := retries s t + 1)\<rparr>)"

inductive port_reach :: "bool \<Rightarrow> port_sys \<Rightarrow> port_sys \<Rightarrow> bool" for chk s where
  refl: "port_reach chk s s"
| step: "port_reach chk s u \<Longrightarrow> port_step chk u v \<Longrightarrow> port_reach chk s v"

section \<open>Sockets\<close>

record ('w, 's) udp_ops =
  udp_bind :: "sock_addr \<Rightarrow> 'w \<Rightarrow> 's option \<times> 'w"
  udp_drop :: "'s \<Rightarrow> 'w \<Rightarrow> 'w"
  udp_connect :: "'s \<Rightarrow> sock_addr \<Rightarrow> 'w \<Rightarrow> string option \<times> 'w"

record 's rtp_socket_pair =
  port_pair :: rtp_port_pair
  rtp_socket :: 's
  rtcp_socket :: 's

text \<open>
  \<open>RtpSocketPair::new\<close>.  When the second bind fails, the first socket goes out of scope and is
  dropped.
\<close>

definition rtp_socket_pair_new ::
    "('w, 's) udp_ops \<Rightarrow> rtp_port_pair \<Rightarrow> ip_addr \<Rightarrow> 'w \<Rightarrow> 's rtp_socket_pair option \<times> 'w" where
  "rtp_socket_pair_new os pair local_ip w =
     (case udp_bind os (local_ip, rtp_port pair) w of
        (None, w) \<Rightarrow> (None, w)
      | (Some rtp, w) \<Rightarrow>
          (case udp_bind os (local_ip, rtcp_port pair) w of
             (None, w) \<Rightarrow> (None, udp_drop os rtp w)
           | (Some rtcp, w) \<Rightarrow>
               (Some \<lparr>port_pair = pair, rtp_socket = rtp, rtcp_socket = rtcp\<rparr>, w)))"

text \<open>
  \<open>RtpSocketPair::connect\<close>: both sockets are connected to the one peer address; on an error the
  pair is consumed, so both sockets are dropped.
\<close>

definition socket_pair_connect ::
    "('w, 's) udp_ops \<Rightarrow> 's rtp_socket_pair \<Rightarrow> sock_addr \<Rightarrow> 'w \<Rightarrow> (string + 's rtp_socket_pair) \<times> 'w" where
  "socket_pair_connect os sp peer w =
     (case udp_connect os (rtp_socket sp) peer w of
        (Some e, w) \<Rightarrow> (Inl e, udp_drop os (rtcp_socket sp) (udp_drop os (rtp_socket sp) w))
      | (None, w) \<Rightarrow>
          (case udp_connect os (rtcp_socket sp) peer w of
             (Some e, w) \<Rightarrow> (Inl e, udp_drop os (rtcp_socket sp) (udp_drop os (rtp_socket sp) w))
           | (None, w) \<Rightarrow> (Inr sp, w)))"

text \<open>The loop over \<open>0..capacity\<close>; \<open>i\<close> is \<open>num_attempts\<close>, \<open>n\<close> the attempts left.\<close>

fun allocate_loop ::
    "bool \<Rightarrow> ('w, 's) udp_ops \<Rightarrow> ip_addr \<Rightarrow> nat \<Rightarrow> nat \<Rightarrow> rtp_port_range \<Rightarrow> 'w \<Rightarrow>
     ('s rtp_socket_pair option \<times> metric_op list \<times> rtp_port_range \<times> 'w) outcome" where
  "allocate_loop chk os local_ip 0 i r w =
     Some (None, [CounterIncrement ports_allocation_failures 1], r, w)"
| "allocate_loop chk os local_ip (Suc n) i r w =
     (case next_port_pair chk r of
        None \<Rightarrow> None
      | Some (pair, r) \<Rightarrow>
          (case rtp_socket_pair_new os pair local_ip w of
             (Some sp, w) \<Rightarrow>
               Some (Some sp, [HistogramRecord ports_allocation_attempts (real (i + 1))], r, w)
           | (None, w) \<Rightarrow> allocate_loop chk os local_ip n (i + 1) r w))"

definition try_allocate_socket_pair ::
    "bool \<Rightarrow> ('w, 's) udp_ops \<Rightarrow> rtp_port_range \<Rightarrow> ip_addr \<Rightarrow> 'w \<Rightarrow>
     ('s rtp_socket_pair option \<times> metric_op list \<times> rtp_port_range \<times> 'w) outcome" where
  "try_allocate_socket_pair chk os r local_ip w =
     (case range_capacity chk r of
        None \<Rightarrow> None
      | Some cap \<Rightarrow> allocate_loop chk os local_ip (unat cap) 0 r w)"

section \<open>The range as a round-robin generator\<close>

definition range_size :: "rtp_port_range \<Rightarrow> nat" where
  "range_size r = (unat (last_rtp_port r) - unat (first_rtp_port r)) div 2 + 1"

definition range_index :: "rtp_port_range \<Rightarrow> nat" where
  "range_index r = (unat (current_rtp_port r) - unat (first_rtp_port r)) div 2"

definition range_pair :: "rtp_port_range \<Rightarrow> nat \<Rightarrow> rtp_port_pair" where
  "range_pair r k =
     \<lparr>rtp_port = of_nat (unat (first_rtp_port r) + 2 * k),
      rtcp_port = of_nat (unat (first_rtp_port r) + 2 * k + 1)\<rparr>"

text \<open>
  A range whose cursor is on one of its pairs and whose last step stays below the end of the
  16-bit port space.
\<close>

definition range_ok :: "rtp_port_range \<Rightarrow> bool" where
  "range_ok r \<longleftrightarrow>
     first_rtp_port r \<le> current_rtp_port r \<and> current_rtp_port r \<le> last_rtp_port r \<and>
     even (unat (current_rtp_port r) - unat (first_rtp_port r)) \<and>
     unat (first_rtp_port r) + 2 * range_size r < 65536"

lemma range_okE:
  assumes "range_ok r"
  obtains f l i where "unat (first_rtp_port r) = f" "unat (last_rtp_port r) = l"
    "unat (current_rtp_port r) = f + 2 * i" "range_index r = i" "i < range_size r"
    "range_size r = (l - f) div 2 + 1" "f \<le> l" "f + 2 * range_size r < 65536"
proof -
  have "even (unat (current_rtp_port r) - unat (first_rtp_port r))"
    using assms by (simp only: range_ok_def)
  then obtain i where i: "unat (current_rtp_port r) - unat (first_rtp_port r) = 2 * i"
    by (rule evenE)
  show thesis
    using assms i
    by (intro that [of "unat (first_rtp_port r)" "unat (last_rtp_port r)" i])
      (auto simp: range_ok_def range_index_def range_size_def word_le_nat_alt)
qed

lemma port_after_ok:
  assumes "range_ok r"
  shows "\<exists>n. port_after chk r (current_rtp_port r) = Some n \<and> range_ok (r\<lparr>current_rtp_port := n\<rparr>) \<and>
    range_index (r\<lparr>current_rtp_port := n\<rparr>) = (range_index r + 1) mod range_size r"
proof -
  from assms obtain f l i where r: "unat (first_rtp_port r) = f" "unat (last_rtp_port r) = l"
    "unat (current_rtp_port r) = f + 2 * i" "range_index r = i" "i < range_size r"
    "range_size r = (l - f) div 2 + 1" "f \<le> l" "f + 2 * range_size r < 65536"
    by (rule range_okE)
  have sum: "unat (current_rtp_port r) + 2 < 65536" using r by linarith
  then have add: "add_checked chk (current_rtp_port r) 2 = Some (current_rtp_port r + 2)"
    "unat (current_rtp_port r + 2) = f + 2 * i + 2"
    using r(3) by (simp_all add: unat_word_ariths)
  have "l < f + 2 * i + 2 \<longleftrightarrow> i + 1 = range_size r"
    using r(5-7) by arith
  then have wrap: "current_rtp_port r + 2 > last_rtp_port r \<longleftrightarrow> i + 1 = range_size r"
    using r(2) add(2) by (simp add: word_less_nat_alt)
  have size: "range_size (r\<lparr>current_rtp_port := n\<rparr>) = range_size r" for n
    by (simp add: range_size_def)
  show ?thesis
  proof (cases "i + 1 = range_size r")
    case True
    then show ?thesis
      using r wrap add(1) assms
      by (simp add: port_after_def range_ok_def size range_index_def word_le_nat_alt)
  next
    case False
    then have "i + 1 < range_size r" using r(5) by simp
    then show ?thesis
      using r wrap add False
      by (auto simp: port_after_def range_ok_def size range_index_def word_le_nat_alt)
  qed
qed

lemma pair_at_ok:
  assumes "range_ok r"
  shows "pair_at chk (current_rtp_port r) = Some (range_pair r (range_index r))"
proof -
  from assms obtain f i where r: "unat (first_rtp_port r) = f"
    "unat (current_rtp_port r) = f + 2 * i" "range_index r = i" "f + 2 * i + 1 < 65536"
    by (rule range_okE) auto
  have "current_rtp_port r = of_nat (f + 2 * i)"
    unfolding r(2) [symmetric] by simp
  moreover have "add_checked chk (current_rtp_port r) 1 = Some (current_rtp_port r + 1)"
    using r by simp
  ultimately show ?thesis
    using r by (simp add: pair_at_def range_pair_def)
qed

lemma next_port_pair_ok:
  assumes "range_ok r"
  shows "\<exists>r'. next_port_pair chk r = Some (range_pair r (range_index r), r') \<and> range_ok r' \<and>
    range_size r' = range_size r \<and> range_pair r' = range_pair r \<and>
    range_index r' = (range_index r + 1) mod range_size r"
proof -
  obtain n where "port_after chk r (current_rtp_port r) = Some n"
    "range_ok (r\<lparr>current_rtp_port := n\<rparr>)"
    "range_index (r\<lparr>current_rtp_port := n\<rparr>) = (range_index r + 1) mod range_size r"
    using port_after_ok [OF assms] by blast
  then show ?thesis
    by (simp add: next_port_pair_def pair_at_ok [OF assms] range_size_def range_pair_def fun_eq_iff)
qed

lemma range_pair_inj:
  assumes "range_ok r"
  shows "inj_on (range_pair r) {..<range_size r}"
proof (rule inj_onI)
  fix a b
  assume ab: "a \<in> {..<range_size r}" "b \<in> {..<range_size r}" "range_pair r a = range_pair r b"
  let ?f = "unat (first_rtp_port r)"
  have bound: "?f + 2 * range_size r < 65536" using assms by (simp add: range_ok_def)
  have small: "unat (of_nat n :: u16) = n" if "n < 65536" for n
    using that by (simp add: unat_of_nat)
  have "(of_nat (?f + 2 * a) :: u16) = of_nat (?f + 2 * b)"
    using arg_cong [OF ab(3), of rtp_port] by (simp only: range_pair_def rtp_port_pair.simps)
  then have "unat (of_nat (?f + 2 * a) :: u16) = unat (of_nat (?f + 2 * b) :: u16)" by (rule arg_cong)
  moreover have "?f + 2 * a < 65536" "?f + 2 * b < 65536" using ab(1,2) bound by auto
  ultimately have "?f + 2 * a = ?f + 2 * b" by (simp only: small)
  then show "a = b" by simp
qed

interpretation ports: round_robin "next_port_pair chk" range_ok range_size range_index range_pair
  for chk
proof (unfold_locales, goal_cases)
  case (1 r)
  then show ?case by (rule next_port_pair_ok)
next
  case (2 r)
  then show ?case by (rule range_okE) auto
next
  case (3 r)
  then show ?case by (rule range_pair_inj)
qed

lemma range_capacity_ok: "range_ok r \<Longrightarrow> range_capacity chk r = Some (of_nat (range_size r))"
proof -
  assume ok: "range_ok r"
  then have le: "first_rtp_port r \<le> last_rtp_port r" and b: "range_size r < 65536"
    by (auto simp: range_ok_def)
  have d: "unat ((last_rtp_port r - first_rtp_port r) div 2) + 1 = range_size r"
    using le by (simp add: unat_div unat_sub range_size_def)
  then have "add_checked chk ((last_rtp_port r - first_rtp_port r) div 2) 1
      = Some ((last_rtp_port r - first_rtp_port r) div 2 + 1)"
    using b by simp
  moreover have "(last_rtp_port r - first_rtp_port r) div 2 + 1 = of_nat (range_size r)"
    unfolding d [symmetric] by simp
  ultimately show ?thesis using le by (simp add: range_capacity_def)
qed

section \<open>Making a range\<close>

definition range_usable :: "u16 \<Rightarrow> u16 \<Rightarrow> bool" where
  "range_usable min_port max_port \<longleftrightarrow>
     min_port < max_port \<and>
     \<not> (even (unat max_port) \<and> unat max_port = unat min_port + 1) \<and>
     \<not> (even (unat min_port) \<and> max_port = 65535)"

lemma word16_sub: "(b :: u16) \<le> a \<Longrightarrow> unat (a - b) = unat a - unat b"
  by (rule unat_sub)

lemma rtp_port_range_new_last:
  fixes min_port max_port :: u16
  assumes "min_port < max_port"
  shows "\<exists>lst. (if unat max_port mod 2 = 0 then sub_checked chk max_port 2
                 else sub_checked chk max_port 1) = Some lst \<and>
           unat lst = unat max_port - (if even (unat max_port) then 2 else 1)"
proof -
  have less: "unat min_port < unat max_port" using assms by (simp add: word_less_nat_alt)
  have "(1 :: u16) \<le> max_port" using less by (simp add: word_le_nat_alt)
  moreover have "(2 :: u16) \<le> max_port" if "even (unat max_port)"
  proof -
    have "2 \<le> unat max_port" using that less by presburger
    then show ?thesis by (simp add: word_le_nat_alt)
  qed
  ultimately show ?thesis
    by (auto simp: word16_sub even_iff_mod_2_eq_zero)
qed

lemma range_new_usable:
  assumes "range_usable min_port max_port"
  shows "\<exists>r. rtp_port_range_new chk min_port max_port
               = Some (Inr (r, [GaugeSet ports_capacity (range_size r)])) \<and>
             range_ok r \<and> range_index r = 0 \<and> first_rtp_port r = min_port \<and>
             unat min_port + 2 * range_size r \<le> unat max_port + 1"
proof -
  have lt: "min_port < max_port" using assms by (simp add: range_usable_def)
  then have less: "unat min_port < unat max_port" by (simp add: word_less_nat_alt)
  have top: "unat max_port < 65536" using unsigned_less [of max_port] by simp
  have not_top: "even (unat min_port) \<Longrightarrow> unat max_port \<noteq> 65535"
  proof
    assume "even (unat min_port)" "unat max_port = 65535"
    moreover from this(2) have "max_port = 65535"
      by (intro unsigned_word_eqI) simp
    ultimately show False using assms by (simp add: range_usable_def)
  qed
  obtain lst where lst: "(if unat max_port mod 2 = 0 then sub_checked chk max_port 2
                 else sub_checked chk max_port 1) = Some lst"
    "unat lst = unat max_port - (if even (unat max_port) then 2 else 1)"
    using rtp_port_range_new_last [OF lt] by blast
  define r where "r = \<lparr>first_rtp_port = min_port, last_rtp_port = lst, current_rtp_port = min_port\<rparr>"
  define a m where "a = unat min_port" and "m = unat max_port"
  have arith: "a \<le> unat lst" "a + 2 * range_size r < 65536" "a + 2 * range_size r \<le> m + 1"
    using less top not_top lst(2) assms
    by (auto simp: range_usable_def range_size_def r_def a_def m_def split: if_splits; presburger)+
  have ok: "range_ok r"
    using arith by (simp add: range_ok_def r_def a_def word_le_nat_alt)
  have b: "range_size r < 65536" using arith(2) by simp
  then have "unat (of_nat (range_size r) :: u16) = range_size r" by (simp add: unat_of_nat)
  then have "rtp_port_range_new chk min_port max_port
      = Some (Inr (r, [GaugeSet ports_capacity (range_size r)]))"
    using lt lst(1) range_capacity_ok [OF ok]
    by (simp add: rtp_port_range_new_def Let_def not_le flip: r_def)
  then show ?thesis using ok arith by (auto simp: r_def range_index_def a_def m_def)
qed

section \<open>Properties of the cursor\<close>

definition port_start :: "rtp_port_range \<Rightarrow> port_sys" where
  "port_start r = \<lparr>cursor = r, loaded = (\<lambda>_. None), handed_out = [], retries = (\<lambda>_. 0)\<rparr>"

inductive_cases port_stepE: "port_step chk s v"

lemma port_reach_sequential:
  "port_reach chk (port_start r) s \<Longrightarrow>
   iter_pull (next_port_pair chk) (length (handed_out s)) r = Some (handed_out s, cursor s)"
proof (induction rule: port_reach.induct)
  case refl
  then show ?case by (simp add: port_start_def)
next
  case (step u v)
  from step.hyps(2) show ?case
  proof (cases rule: port_step.cases)
    case (exchange t c n p)
    then have "next_port_pair chk (cursor u) = Some (p, (cursor u)\<lparr>current_rtp_port := n\<rparr>)"
      by (simp add: next_port_pair_def)
    from iter_pull_snoc [OF step.IH this] show ?thesis
      using exchange by simp
  qed (use step.IH in simp_all)
qed

text \<open>C19.
  The compare-and-exchange loop is linearizable and fair.  Whatever threads call
  \<open>next_port_pair\<close> concurrently and however their loads and exchanges interleave, the pairs
  handed out are those of sequential calls: the pairs of the range in turn, starting at the
  cursor, each pair exactly once in a round of \<open>capacity\<close> calls.\<close>

theorem port_pairs_round_robin:
  assumes "range_ok r" and "port_reach chk (port_start r) s"
  shows "handed_out s = map (\<lambda>k. range_pair r ((range_index r + k) mod range_size r))
           [0..<length (handed_out s)] \<and>
         (length (handed_out s) = range_size r \<longrightarrow>
            distinct (handed_out s) \<and> set (handed_out s) = range_pair r ` {..<range_size r})"
proof -
  have "handed_out s = ports.round r (length (handed_out s))"
    using ports.pull_round [OF assms(1), of chk "length (handed_out s)"]
      port_reach_sequential [OF assms(2)] by auto
  then show ?thesis
    using ports.set_full_round [OF assms(1)] ports.distinct_full_round [OF assms(1)]
    by (metis ports.round_def)
qed

text \<open>A run of two threads, used to show that the hypotheses above can hold.\<close>

definition two_pairs :: rtp_port_range where
  "two_pairs = \<lparr>first_rtp_port = 10000, last_rtp_port = 10002, current_rtp_port = 10000\<rparr>"

lemma two_pairs_ok: "range_ok two_pairs"
  by (simp add: range_ok_def two_pairs_def range_size_def)

lemma thread_pulls:
  assumes "port_reach chk s0 s" and "loaded s t = None"
    and "next_port_pair chk (cursor s) = Some (p, r')"
  shows "\<exists>v. port_reach chk s0 v \<and> loaded v = loaded s \<and> cursor v = r' \<and>
    handed_out v = handed_out s @ [p] \<and> retries v = retries s"
proof -
  define u where "u = s\<lparr>loaded := (loaded s)(t \<mapsto> current_rtp_port (cursor s))\<rparr>"
  have u: "port_reach chk s0 u"
    unfolding u_def by (rule port_reach.step [OF assms(1) port_step.load [where t = t]]) (rule assms(2))
  obtain n where n: "port_after chk (cursor s) (current_rtp_port (cursor s)) = Some n"
    "pair_at chk (current_rtp_port (cursor s)) = Some p"
    "r' = (cursor s)\<lparr>current_rtp_port := n\<rparr>"
    using assms(3) by (auto simp: next_port_pair_def Let_def split: option.splits)
  have "port_step chk u (u\<lparr>cursor := (cursor u)\<lparr>current_rtp_port := n\<rparr>,
      loaded := (loaded u)(t := None), handed_out := handed_out u @ [p]\<rparr>)"
    by (rule port_step.exchange [where c = "current_rtp_port (cursor s)"]) (simp_all add: u_def n)
  note reach = port_reach.step [OF u this]
  show ?thesis
    by (rule exI, rule conjI, rule reach) (use assms(2) in \<open>simp add: u_def n fun_upd_idem\<close>)
qed

theorem port_pairs_round_robin_witness:
  "\<exists>s. port_reach True (port_start two_pairs) s \<and>
     handed_out s = [\<lparr>rtp_port = 10000, rtcp_port = 10001\<rparr>, \<lparr>rtp_port = 10002, rtcp_port = 10003\<rparr>]"
proof -
  have n1: "next_port_pair True (cursor (port_start two_pairs))
      = Some (\<lparr>rtp_port = 10000, rtcp_port = 10001\<rparr>, two_pairs\<lparr>current_rtp_port := 10002\<rparr>)"
    by (simp add: next_port_pair_def port_after_def pair_at_def port_start_def two_pairs_def)
  obtain u where u: "port_reach True (port_start two_pairs) u" "loaded u = (\<lambda>_. None)"
    "cursor u = two_pairs\<lparr>current_rtp_port := 10002\<rparr>" "length (handed_out u) = 1"
    using thread_pulls [OF port_reach.refl _ n1, of 1] by (auto simp: port_start_def)
  have n2: "next_port_pair True (cursor u)
      = Some (\<lparr>rtp_port = 10002, rtcp_port = 10003\<rparr>, two_pairs)"
    by (simp add: next_port_pair_def port_after_def pair_at_def u(3) two_pairs_def)
  obtain v where v: "port_reach True (port_start two_pairs) v" "length (handed_out v) = 2"
    using thread_pulls [OF u(1) _ n2, of 2] u(2,4) by auto
  have "handed_out v = map (\<lambda>k. range_pair two_pairs
      ((range_index two_pairs + k) mod range_size two_pairs)) [0..<2]"
    using port_pairs_round_robin [OF two_pairs_ok v(1)] v(2) by simp
  then have "handed_out v = [\<lparr>rtp_port = 10000, rtcp_port = 10001\<rparr>, \<lparr>rtp_port = 10002, rtcp_port = 10003\<rparr>]"
    by (simp add: range_pair_def range_index_def range_size_def two_pairs_def upt_rec)
  then show ?thesis using v(1) by blast
qed

section \<open>Progress\<close>

text \<open>A thread whose loaded value is out of date has been overtaken since it loaded it.\<close>

definition stale :: "port_sys \<Rightarrow> nat \<Rightarrow> bool" where
  "stale s t \<longleftrightarrow> (\<exists>c. loaded s t = Some c \<and> c \<noteq> current_rtp_port (cursor s))"

lemma retries_paid:
  "port_reach chk (port_start r) s \<Longrightarrow> retries s t + (if stale s t then 1 else 0) \<le> length (handed_out s)"
proof (induction rule: port_reach.induct)
  case refl
  then show ?case by (simp add: port_start_def stale_def)
next
  case (step u v)
  from step.hyps(2) show ?case
  proof (cases rule: port_step.cases)
    case (load t')
    then show ?thesis using step.IH by (auto simp: stale_def split: if_splits)
  next
    case (exchange t' c n p)
    then show ?thesis using step.IH by (auto simp: stale_def split: if_splits)
  next
    case (retry t' c)
    then show ?thesis using step.IH by (auto simp: stale_def split: if_splits)
  qed
qed

lemma reach_next:
  assumes "range_ok r" and "port_reach chk (port_start r) s"
  shows "\<exists>r'. next_port_pair chk (cursor s) =
    Some (range_pair r ((range_index r + length (handed_out s)) mod range_size r), r')"
proof -
  have "range_ok (cursor s) \<and> range_pair (cursor s) = range_pair r \<and>
      range_index (cursor s) = (range_index r + length (handed_out s)) mod range_size r"
    using ports.pull_round [OF assms(1), of chk "length (handed_out s)"] port_reach_sequential [OF assms(2)]
    by auto
  then show ?thesis using next_port_pair_ok [of "cursor s" chk] by auto
qed

lemma port_reach_trans: "port_reach chk s u \<Longrightarrow> port_reach chk u v \<Longrightarrow> port_reach chk s v"
  by (rotate_tac, induction rule: port_reach.induct) (auto intro: port_reach.step)

text \<open>C20.
  Some thread always makes progress, as the comment in the loop says.  In every run a thread has
  looped at most as often as pairs have been handed out, since each of its retries is paid for by a
  success of another thread; and a thread that is left alone, wherever it is in its loop, returns
  with the next pair of the round after at most one more retry, without a panic, in either build.\<close>

theorem port_loop_progress:
  assumes "range_ok r" and "port_reach chk (port_start r) s"
  shows "retries s t \<le> length (handed_out s) \<and>
    (\<exists>v. port_reach chk s v \<and> loaded v = (loaded s)(t := None) \<and> retries v t \<le> retries s t + 1 \<and>
       (\<forall>t'. t' \<noteq> t \<longrightarrow> retries v t' = retries s t') \<and>
       handed_out v = handed_out s @ [range_pair r ((range_index r + length (handed_out s)) mod range_size r)])"
proof -
  obtain r' where nxt: "next_port_pair chk (cursor s) =
      Some (range_pair r ((range_index r + length (handed_out s)) mod range_size r), r')" (is "_ = Some (?p, r')")
    using reach_next [OF assms] by blast
  then obtain n where n: "port_after chk (cursor s) (current_rtp_port (cursor s)) = Some n"
    "pair_at chk (current_rtp_port (cursor s)) = Some ?p"
    by (auto simp: next_port_pair_def Let_def split: option.splits)
  consider (out) "loaded s t = None" | (fresh) "loaded s t = Some (current_rtp_port (cursor s))"
    | (stale) c where "loaded s t = Some c" "current_rtp_port (cursor s) \<noteq> c"
    by (cases "loaded s t") auto
  then have "\<exists>v. port_reach chk s v \<and> loaded v = (loaded s)(t := None) \<and> retries v t \<le> retries s t + 1 \<and>
       (\<forall>t'. t' \<noteq> t \<longrightarrow> retries v t' = retries s t') \<and> handed_out v = handed_out s @ [?p]"
  proof cases
    case out
    then show ?thesis
      using thread_pulls [OF port_reach.refl out nxt] by (auto simp: fun_upd_idem)
  next
    case fresh
    show ?thesis
      by (rule exI, rule conjI, rule port_reach.step [OF port_reach.refl port_step.exchange [OF fresh HOL.refl n]]) simp
  next
    case stale
    let ?u = "s\<lparr>loaded := (loaded s)(t := None), retries := (retries s)(t := retries s t + 1)\<rparr>"
    have u: "port_reach chk s ?u"
      by (rule port_reach.step [OF port_reach.refl port_step.retry [OF stale]])
    have "next_port_pair chk (cursor ?u) = Some (?p, r')" using nxt by simp
    from thread_pulls [OF u _ this, of t] show ?thesis by auto
  qed
  moreover have "retries s t \<le> length (handed_out s)"
    using retries_paid [OF assms(2), of t] by simp
  ultimately show ?thesis by blast
qed

theorem port_loop_progress_witness:
  "\<exists>v. port_reach True (port_start two_pairs) v \<and>
     handed_out v = [range_pair two_pairs (range_index two_pairs mod range_size two_pairs)]"
  using port_loop_progress [OF two_pairs_ok port_reach.refl, where chk = True] by (auto simp: port_start_def)

text \<open>The pairs of a range that fits between two ports are between them.\<close>

lemma range_pair_within:
  assumes first: "first_rtp_port r = min_port" and fits: "unat min_port + 2 * range_size r \<le> unat max_port + 1"
    and k: "k < range_size r"
  shows "min_port \<le> rtp_port (range_pair r k) \<and> rtcp_port (range_pair r k) = rtp_port (range_pair r k) + 1 \<and>
    rtcp_port (range_pair r k) \<le> max_port"
proof -
  have "unat min_port + 2 * k + 1 \<le> unat max_port" using k fits by linarith
  moreover have "unat max_port < 65536" using unsigned_less [of max_port] by simp
  ultimately have "unat (of_nat (unat min_port + 2 * k) :: u16) = unat min_port + 2 * k"
    "unat (of_nat (unat min_port + 2 * k + 1) :: u16) = unat min_port + 2 * k + 1"
    "unat min_port + 2 * k + 1 \<le> unat max_port"
    by (simp_all only: unat_of_nat) simp_all
  moreover have "(of_nat (unat min_port + 2 * k + 1) :: u16) = of_nat (unat min_port + 2 * k) + 1"
    by simp
  ultimately show ?thesis
    unfolding range_pair_def first by (simp only: rtp_port_pair.simps word_le_nat_alt) simp
qed

text \<open>C36.
  \<open>RtpPortRange::new\<close> in either build: it fails exactly when the maximum is not above the minimum,
  with the message that names both ports in decimal; a usable range is made with its cursor at the first
  pair, reports its capacity, keeps every pair inside the configured bounds, and its cursor and
  capacity never overflow afterwards.\<close>

theorem range_new_spec:
  "(\<forall>msg. rtp_port_range_new chk min_port max_port = Some (Inl msg) \<longleftrightarrow>
      max_port \<le> min_port \<and>
      msg = ''Max port '' @ show_nat (unat max_port) @ '' must be larger than min port '' @ show_nat (unat min_port) @ ''.'') \<and>
   (range_usable min_port max_port \<longrightarrow>
      (\<exists>r. rtp_port_range_new chk min_port max_port
              = Some (Inr (r, [GaugeSet ports_capacity (range_size r)])) \<and>
           range_index r = 0 \<and> range_capacity chk r = Some (of_nat (range_size r)) \<and>
           (\<forall>k < range_size r. min_port \<le> rtp_port (range_pair r k) \<and>
              rtcp_port (range_pair r k) = rtp_port (range_pair r k) + 1 \<and>
              rtcp_port (range_pair r k) \<le> max_port) \<and>
           (\<forall>n. \<exists>r'. iter_pull (next_port_pair chk) n r = Some (map (\<lambda>k. range_pair r (k mod range_size r)) [0..<n], r'))))"
proof (intro conjI impI)
  show "\<forall>msg. rtp_port_range_new chk min_port max_port = Some (Inl msg) \<longleftrightarrow>
      max_port \<le> min_port \<and>
      msg = ''Max port '' @ show_nat (unat max_port) @ '' must be larger than min port '' @ show_nat (unat min_port) @ ''.''"
    by (auto simp: rtp_port_range_new_def show_u16_def Let_def split: option.split)
next
  assume "range_usable min_port max_port"
  then obtain r where r: "rtp_port_range_new chk min_port max_port
      = Some (Inr (r, [GaugeSet ports_capacity (range_size r)]))" "range_ok r" "range_index r = 0"
    "first_rtp_port r = min_port" "unat min_port + 2 * range_size r \<le> unat max_port + 1"
    using range_new_usable by blast
  have pulls: "\<forall>n. \<exists>r'. iter_pull (next_port_pair chk) n r
      = Some (map (\<lambda>k. range_pair r (k mod range_size r)) [0..<n], r')"
    using ports.pull_round [OF r(2), of chk] by (auto simp: ports.round_def r(3))
  show "\<exists>r. rtp_port_range_new chk min_port max_port
              = Some (Inr (r, [GaugeSet ports_capacity (range_size r)])) \<and>
           range_index r = 0 \<and> range_capacity chk r = Some (of_nat (range_size r)) \<and>
           (\<forall>k < range_size r. min_port \<le> rtp_port (range_pair r k) \<and>
              rtcp_port (range_pair r k) = rtp_port (range_pair r k) + 1 \<and>
              rtcp_port (range_pair r k) \<le> max_port) \<and>
           (\<forall>n. \<exists>r'. iter_pull (next_port_pair chk) n r = Some (map (\<lambda>k. range_pair r (k mod range_size r)) [0..<n], r'))"
    using r range_capacity_ok [OF r(2)] pulls range_pair_within [OF r(4,5)] by blast
qed

theorem range_new_spec_witness:
  "(\<exists>r. rtp_port_range_new True 10000 10099 = Some (Inr (r, [GaugeSet ports_capacity (range_size r)]))) \<and>
   rtp_port_range_new True 10000 9999 = Some (Inl ''Max port 9999 must be larger than min port 10000.'')"
proof -
  have "range_usable 10000 10099" by (simp add: range_usable_def)
  moreover have "show_nat 9999 = ''9999''" "show_nat 10000 = ''10000''"
    by (simp_all add: show_nat.simps digit_chars del: One_nat_def)
  moreover have "(9999 :: u16) \<le> 10000" "unat (9999 :: u16) = 9999" "unat (10000 :: u16) = 10000" by simp_all
  ultimately show ?thesis
    using range_new_spec [of True 10000 10099, THEN conjunct2]
      spec [OF range_new_spec [of True 10000 9999, THEN conjunct1], of "''Max port 9999 must be larger than min port 10000.''"]
    by simp blast
qed

section \<open>Ranges that do not work\<close>

text \<open>The pairs from an even port on, two ports after each other, past 65535 if need be.\<close>

definition pairs_from :: "u16 \<Rightarrow> nat \<Rightarrow> rtp_port_pair list" where
  "pairs_from c n = map (\<lambda>i. \<lparr>rtp_port = c + 2 * of_nat i, rtcp_port = c + 2 * of_nat i + 1\<rparr>) [0..<n]"

lemma pairs_from_Suc: "pairs_from c (Suc n) = \<lparr>rtp_port = c, rtcp_port = c + 1\<rparr> # pairs_from (c + 2) n"
proof -
  have "[0..<Suc n] = 0 # map Suc [0..<n]" by (simp add: upt_conv_Cons map_Suc_upt del: upt_Suc)
  then show ?thesis by (simp add: pairs_from_def comp_def algebra_simps del: upt_Suc)
qed

lemma even_port:
  fixes c :: u16
  assumes "even (unat c)"
  shows "c = 65534 \<or> unat c + 2 \<le> 65534 \<and> unat (c + 2) = unat c + 2"
proof (cases "unat c = 65534")
  case True
  then show ?thesis by (intro disjI1 unsigned_word_eqI) simp
next
  case False
  moreover have "unat c < 65536" using unsigned_less [of c] by simp
  ultimately have "unat c + 2 \<le> 65534" using assms by presburger
  then show ?thesis by (simp add: unat_word_ariths)
qed

text \<open>The cursor of a range that ends at 65534, in both builds.\<close>

lemma next_before_top:
  assumes "even (unat c)" and "c \<noteq> 65534" and "last_rtp_port r = 65534"
  shows "next_port_pair chk (r\<lparr>current_rtp_port := c\<rparr>) =
    Some (\<lparr>rtp_port = c, rtcp_port = c + 1\<rparr>, r\<lparr>current_rtp_port := c + 2\<rparr>) \<and> even (unat (c + 2))"
proof -
  have c: "unat c + 2 \<le> 65534" "unat (c + 2) = unat c + 2" using even_port [OF assms(1)] assms(2) by auto
  then have "\<not> c + 2 > 65534" by (simp add: word_less_nat_alt)
  then show ?thesis
    using c assms by (simp add: next_port_pair_def port_after_def pair_at_def Let_def)
qed

lemma next_at_top:
  assumes "last_rtp_port r = 65534"
  shows "next_port_pair True (r\<lparr>current_rtp_port := 65534\<rparr>) = None"
    "next_port_pair False (r\<lparr>current_rtp_port := 65534\<rparr>) =
       Some (\<lparr>rtp_port = 65534, rtcp_port = 65535\<rparr>, r\<lparr>current_rtp_port := 0\<rparr>)"
  using assms by (simp_all add: next_port_pair_def port_after_def pair_at_def Let_def add_checked_def)

lemma pull_wrapping:
  assumes "even (unat c)" and "last_rtp_port r = 65534"
  shows "\<exists>r'. iter_pull (next_port_pair False) n (r\<lparr>current_rtp_port := c\<rparr>) = Some (pairs_from c n, r')"
  using assms(1)
proof (induction n arbitrary: c)
  case 0
  then show ?case by (simp add: pairs_from_def)
next
  case (Suc n)
  have "next_port_pair False (r\<lparr>current_rtp_port := c\<rparr>) =
      Some (\<lparr>rtp_port = c, rtcp_port = c + 1\<rparr>, r\<lparr>current_rtp_port := c + 2\<rparr>) \<and> even (unat (c + 2))"
    using next_before_top [OF Suc.prems _ assms(2)] next_at_top(2) [OF assms(2)] by (cases "c = 65534") auto
  then show ?case using Suc.IH [of "c + 2"] by (auto simp: pairs_from_Suc)
qed

lemma pull_checked:
  assumes "even (unat c)" and "last_rtp_port r = 65534"
  shows "if unat c + 2 * n \<le> 65534
    then \<exists>r'. iter_pull (next_port_pair True) n (r\<lparr>current_rtp_port := c\<rparr>) = Some (pairs_from c n, r')
    else iter_pull (next_port_pair True) n (r\<lparr>current_rtp_port := c\<rparr>) = None"
  using assms(1)
proof (induction n arbitrary: c)
  case 0
  then show ?case using even_port [OF 0] by (auto simp: pairs_from_def)
next
  case (Suc n)
  show ?case
  proof (cases "c = 65534")
    case True
    then show ?thesis using next_at_top(1) [OF assms(2)] by simp
  next
    case False
    then show ?thesis
      using Suc.IH [of "c + 2"] next_before_top [OF Suc.prems False assms(2), of True] even_port [OF Suc.prems]
      by (auto simp: pairs_from_Suc split: if_splits)
  qed
qed

lemma new_to_top:
  assumes "even (unat min_port)" and "min_port < 65535"
  shows "rtp_port_range_new chk min_port 65535 =
    Some (Inr (\<lparr>first_rtp_port = min_port, last_rtp_port = 65534, current_rtp_port = min_port\<rparr>,
      [GaugeSet ports_capacity ((65536 - unat min_port) div 2)]))"
proof -
  let ?r = "\<lparr>first_rtp_port = min_port, last_rtp_port = 65534 :: u16, current_rtp_port = min_port\<rparr>"
  have le: "unat min_port \<le> 65534" using even_port [OF assms(1)] by auto
  then have le': "min_port \<le> 65534" by (simp add: word_le_nat_alt)
  define w where "w = (65534 - min_port) div 2"
  have "unat w = (65534 - unat min_port) div 2"
    unfolding w_def using le' by (simp only: unat_div unat_sub) simp
  then have w: "unat w + 1 = (65536 - unat min_port) div 2" using le by simp
  then have "unat w + 1 < 65536" by simp
  then have "add_checked chk w 1 = Some (w + 1)" "unat (w + 1) = unat w + 1"
    by (simp_all add: unat_word_ariths)
  then have "range_capacity chk ?r = Some (w + 1)" "unat (w + 1) = (65536 - unat min_port) div 2"
    using le' w by (simp_all add: range_capacity_def flip: w_def)
  then show ?thesis
    using assms(2) by (simp add: rtp_port_range_new_def Let_def not_le)
qed

lemma word16_Suc: "unat (b :: u16) = unat a + 1 \<Longrightarrow> b = a + 1"
proof -
  assume "unat b = unat a + 1"
  then have "(of_nat (unat b) :: u16) = of_nat (unat a + 1)" by (simp only:)
  then show "b = a + 1" by simp
qed

text \<open>An odd minimum directly below an even maximum.\<close>

lemma new_below_even:
  fixes min_port max_port :: u16
  assumes "even (unat max_port)" and "unat max_port = unat min_port + 1"
  shows "rtp_port_range_new True min_port max_port = None"
    "rtp_port_range_new False min_port max_port =
       Some (Inr (\<lparr>first_rtp_port = min_port, last_rtp_port = min_port - 1, current_rtp_port = min_port\<rparr>,
         [GaugeSet ports_capacity 32768]))"
proof -
  have "odd (unat min_port)" using assms by simp
  then have pos: "1 \<le> unat min_port" by presburger
  have less: "min_port < max_port" using assms(2) by (simp add: word_less_nat_alt)
  have two: "2 \<le> max_port" using pos assms(2) by (simp add: word_le_nat_alt)
  have "max_port = min_port + 1" using assms(2) by (rule word16_Suc)
  then have lst: "max_port - 2 = min_port - 1" by simp
  have below: "min_port - 1 < min_port" using pos by (simp add: word_less_nat_alt unat_sub word_le_nat_alt)
  have cap: "(min_port - 1 - min_port) div 2 + 1 = 32768" by simp
  show "rtp_port_range_new True min_port max_port = None"
    using less two assms(1) below
    by (simp add: rtp_port_range_new_def Let_def range_capacity_def lst sub_checked_def [of True "min_port - 1"] not_le
        flip: even_iff_mod_2_eq_zero)
  show "rtp_port_range_new False min_port max_port =
       Some (Inr (\<lparr>first_rtp_port = min_port, last_rtp_port = min_port - 1, current_rtp_port = min_port\<rparr>,
         [GaugeSet ports_capacity 32768]))"
    using less assms(1) cap
    by (simp add: rtp_port_range_new_def Let_def range_capacity_def lst not_le flip: even_iff_mod_2_eq_zero)
qed

lemma pull_stuck:
  assumes "next_port_pair chk r = Some (p, r)"
  shows "iter_pull (next_port_pair chk) n r = Some (replicate n p, r)"
  by (induction n) (simp_all add: assms)

lemma next_below_even:
  fixes min_port max_port :: u16
  assumes "even (unat max_port)" and "unat max_port = unat min_port + 1"
    and "r = \<lparr>first_rtp_port = min_port, last_rtp_port = min_port - 1, current_rtp_port = min_port\<rparr>"
  shows "next_port_pair False r = Some (\<lparr>rtp_port = min_port, rtcp_port = max_port\<rparr>, r)"
proof -
  have "unat max_port < 65536" using unsigned_less [of max_port] by simp
  moreover have "odd (unat min_port)" using assms(1,2) by simp
  ultimately have b: "1 \<le> unat min_port" "unat min_port + 2 < 65536" using assms(1,2) by presburger+
  have "max_port = min_port + 1" using assms(2) by (rule word16_Suc)
  moreover have "min_port - 1 < min_port + 2"
    using b by (simp add: word_less_nat_alt unat_sub word_le_nat_alt unat_word_ariths)
  ultimately show ?thesis using assms(3) by (simp add: next_port_pair_def port_after_def pair_at_def Let_def)
qed

text \<open>An even minimum and the maximum 65535: what the two builds hand out.\<close>

lemma ports_past_top:
  assumes n: "unat min_port + 2 * n = 65536"
  shows "map rtp_port (pairs_from min_port (n + k)) =
    map (\<lambda>i. min_port + 2 * of_nat i) [0..<n] @ map (\<lambda>i. 2 * of_nat i) [0..<k]"
proof -
  have "min_port + 2 * of_nat n = (of_nat (unat min_port + 2 * n) :: u16)" by simp
  then have "min_port + 2 * of_nat n = 0" unfolding n by simp
  moreover have "min_port + 2 * of_nat (n + i) = (min_port + 2 * of_nat n) + 2 * of_nat i" for i
    by (simp only: of_nat_add distrib_left add.assoc)
  ultimately have past: "min_port + 2 * of_nat (n + i) = 2 * of_nat i" for i by (simp only: add_0_left)
  let ?xs = "map (\<lambda>i. min_port + 2 * of_nat i) [0..<n]" and ?ys = "map (\<lambda>i. 2 * of_nat i :: u16) [0..<k]"
  show ?thesis
  proof (rule nth_equalityI)
    fix i assume "i < length (map rtp_port (pairs_from min_port (n + k)))"
    then have i: "i < n + k" by (simp add: pairs_from_def)
    then have "map rtp_port (pairs_from min_port (n + k)) ! i = min_port + 2 * of_nat i"
      by (simp add: pairs_from_def del: upt_Suc)
    also have "\<dots> = (?xs @ ?ys) ! i"
    proof (cases "i < n")
      case False
      then obtain j where "i = n + j" by (metis le_add_diff_inverse not_less)
      then show ?thesis using i past [of j] by (simp add: nth_append del: of_nat_add)
    qed (simp add: nth_append)
    finally show "map rtp_port (pairs_from min_port (n + k)) ! i = (?xs @ ?ys) ! i" .
  qed (simp add: pairs_from_def)
qed

lemma range_to_top:
  assumes "even (unat min_port)" and "min_port < 65535" and n: "n = (65536 - unat min_port) div 2"
  shows "\<exists>r. (\<forall>chk. rtp_port_range_new chk min_port 65535 = Some (Inr (r, [GaugeSet ports_capacity n]))) \<and>
    (\<exists>r' ps. iter_pull (next_port_pair True) (n - 1) r = Some (ps, r') \<and>
       map rtp_port ps = map (\<lambda>i. min_port + 2 * of_nat i) [0..<n - 1]) \<and>
    (\<forall>k \<ge> n. iter_pull (next_port_pair True) k r = None) \<and>
    (\<forall>k. \<exists>r' ps. iter_pull (next_port_pair False) (n + k) r = Some (ps, r') \<and>
       map rtp_port ps = map (\<lambda>i. min_port + 2 * of_nat i) [0..<n] @ map (\<lambda>i. 2 * of_nat i) [0..<k])"
proof -
  let ?r = "\<lparr>first_rtp_port = min_port, last_rtp_port = 65534 :: u16, current_rtp_port = min_port\<rparr>"
  have le: "unat min_port \<le> 65534" using even_port [OF assms(1)] by auto
  have n': "unat min_port + 2 * n = 65536" using le assms(1) unfolding n by presburger
  have cur: "?r\<lparr>current_rtp_port := min_port\<rparr> = ?r" by simp
  note checked = pull_checked [of min_port ?r, OF assms(1), unfolded cur, simplified]
  note wrapping = pull_wrapping [of min_port ?r, OF assms(1), unfolded cur, simplified]
  have "\<exists>r' ps. iter_pull (next_port_pair True) (n - 1) ?r = Some (ps, r') \<and>
      map rtp_port ps = map (\<lambda>i. min_port + 2 * of_nat i) [0..<n - 1]"
  proof -
    have "unat min_port + 2 * (n - 1) \<le> 65534" using n' le by linarith
    then show ?thesis using checked [of "n - 1"] by (auto simp: pairs_from_def comp_def)
  qed
  moreover have "\<forall>k \<ge> n. iter_pull (next_port_pair True) k ?r = None"
    using checked n' by auto
  moreover have "\<forall>k. \<exists>r' ps. iter_pull (next_port_pair False) (n + k) ?r = Some (ps, r') \<and>
      map rtp_port ps = map (\<lambda>i. min_port + 2 * of_nat i) [0..<n] @ map (\<lambda>i. 2 * of_nat i) [0..<k]"
    using wrapping ports_past_top [OF n'] by metis
  ultimately show ?thesis using new_to_top [OF assms(1,2)] unfolding n [symmetric] by blast
qed

text \<open>C37.
  Exactly two kinds of range that the check of \<open>RtpPortRange::new\<close> lets through are broken.  With an
  even minimum and the maximum 65535 the constructor reports \<open>n\<close> pairs, up to port 65535; a build with
  overflow checks hands out all but the last and then panics, at that call and every later one; a
  release build hands out the \<open>n\<close> pairs, and then 0, 2, 4 and so on up to any port.  With an odd minimum
  directly below an even maximum the checked constructor panics, and the other one reports a capacity of 32768
  for a range that hands out one and the same pair for ever.  Every other range is made and its cursor
  never overflows.\<close>

theorem range_new_accepts_broken_ranges:
  assumes "min_port < max_port"
  shows "(even (unat min_port) \<and> max_port = 65535 \<longrightarrow>
      (let n = (65536 - unat min_port) div 2
       in \<exists>r. (\<forall>chk. rtp_port_range_new chk min_port max_port = Some (Inr (r, [GaugeSet ports_capacity n]))) \<and>
          (\<exists>r' ps. iter_pull (next_port_pair True) (n - 1) r = Some (ps, r') \<and>
             map rtp_port ps = map (\<lambda>i. min_port + 2 * of_nat i) [0..<n - 1]) \<and>
          (\<forall>k \<ge> n. iter_pull (next_port_pair True) k r = None) \<and>
          (\<forall>k. \<exists>r' ps. iter_pull (next_port_pair False) (n + k) r = Some (ps, r') \<and>
             map rtp_port ps = map (\<lambda>i. min_port + 2 * of_nat i) [0..<n] @ map (\<lambda>i. 2 * of_nat i) [0..<k]))) \<and>
    (even (unat max_port) \<and> unat max_port = unat min_port + 1 \<longrightarrow>
      rtp_port_range_new True min_port max_port = None \<and>
      (\<exists>r. rtp_port_range_new False min_port max_port = Some (Inr (r, [GaugeSet ports_capacity 32768])) \<and>
         (\<forall>k. iter_pull (next_port_pair False) k r =
            Some (replicate k \<lparr>rtp_port = min_port, rtcp_port = max_port\<rparr>, r)))) \<and>
    (\<not> (even (unat min_port) \<and> max_port = 65535) \<and> \<not> (even (unat max_port) \<and> unat max_port = unat min_port + 1) \<longrightarrow>
      (\<forall>chk. \<exists>r ops. rtp_port_range_new chk min_port max_port = Some (Inr (r, ops)) \<and>
         (\<forall>k. iter_pull (next_port_pair chk) k r \<noteq> None)))"
proof (intro conjI impI)
  assume "even (unat min_port) \<and> max_port = 65535"
  then show "let n = (65536 - unat min_port) div 2
       in \<exists>r. (\<forall>chk. rtp_port_range_new chk min_port max_port = Some (Inr (r, [GaugeSet ports_capacity n]))) \<and>
          (\<exists>r' ps. iter_pull (next_port_pair True) (n - 1) r = Some (ps, r') \<and>
             map rtp_port ps = map (\<lambda>i. min_port + 2 * of_nat i) [0..<n - 1]) \<and>
          (\<forall>k \<ge> n. iter_pull (next_port_pair True) k r = None) \<and>
          (\<forall>k. \<exists>r' ps. iter_pull (next_port_pair False) (n + k) r = Some (ps, r') \<and>
             map rtp_port ps = map (\<lambda>i. min_port + 2 * of_nat i) [0..<n] @ map (\<lambda>i. 2 * of_nat i) [0..<k])"
    using range_to_top [of min_port _, OF _ _ HOL.refl] assms by (simp add: Let_def)
next
  assume "even (unat max_port) \<and> unat max_port = unat min_port + 1"
  then show "rtp_port_range_new True min_port max_port = None" using new_below_even(1) by blast
next
  assume odd: "even (unat max_port) \<and> unat max_port = unat min_port + 1"
  show "\<exists>r. rtp_port_range_new False min_port max_port = Some (Inr (r, [GaugeSet ports_capacity 32768])) \<and>
         (\<forall>k. iter_pull (next_port_pair False) k r =
            Some (replicate k \<lparr>rtp_port = min_port, rtcp_port = max_port\<rparr>, r))"
    using new_below_even(2) [of max_port min_port] odd
      pull_stuck [OF next_below_even [OF conjunct1 [OF odd] conjunct2 [OF odd] HOL.refl]] by blast
next
  assume "\<not> (even (unat min_port) \<and> max_port = 65535) \<and> \<not> (even (unat max_port) \<and> unat max_port = unat min_port + 1)"
  then have "range_usable min_port max_port" using assms by (simp add: range_usable_def)
  then show "\<forall>chk. \<exists>r ops. rtp_port_range_new chk min_port max_port = Some (Inr (r, ops)) \<and>
         (\<forall>k. iter_pull (next_port_pair chk) k r \<noteq> None)"
    using range_new_usable ports.pull_round by (metis option.distinct(1))
qed

theorem range_new_accepts_broken_ranges_witness:
  "(\<exists>r. rtp_port_range_new True 65532 65535 = Some (Inr (r, [GaugeSet ports_capacity 2])) \<and>
      iter_pull (next_port_pair True) 2 r = None) \<and>
   (\<exists>r r' ps. rtp_port_range_new False 65532 65535 = Some (Inr (r, [GaugeSet ports_capacity 2])) \<and>
      iter_pull (next_port_pair False) 4 r = Some (ps, r') \<and> map rtp_port ps = [65532, 65534, 0, 2]) \<and>
   rtp_port_range_new True 10001 10002 = None"
proof -
  have less: "(65532 :: u16) < 65535" "(10001 :: u16) < 10002" by simp_all
  have "even (unat (65532 :: u16)) \<and> (65535 :: u16) = 65535" "(65536 - unat (65532 :: u16)) div 2 = 2" by simp_all
  from mp [OF conjunct1 [OF range_new_accepts_broken_ranges [OF less(1)]] this(1), unfolded this(2) Let_def]
  obtain r where r: "\<forall>chk. rtp_port_range_new chk 65532 65535 = Some (Inr (r, [GaugeSet ports_capacity 2]))"
    "\<forall>k \<ge> 2. iter_pull (next_port_pair True) k r = None"
    "\<forall>k. \<exists>r' ps. iter_pull (next_port_pair False) (2 + k) r = Some (ps, r') \<and>
       map rtp_port ps = map (\<lambda>i. 65532 + 2 * of_nat i) [0..<2] @ map (\<lambda>i. 2 * of_nat i) [0..<k]"
    by blast
  obtain r' ps where "iter_pull (next_port_pair False) (2 + 2) r = Some (ps, r')"
    "map rtp_port ps = map (\<lambda>i. 65532 + 2 * of_nat i) [0..<2] @ map (\<lambda>i. 2 * of_nat i) [0..<2]"
    using r(3) by blast
  moreover have "iter_pull (next_port_pair False) (2 + 2) = iter_pull (next_port_pair False) 4"
    "map (\<lambda>i. 65532 + 2 * of_nat i) [0..<2] @ map (\<lambda>i. 2 * of_nat i) [0..<2] = [65532, 65534, 0, 2 :: u16]"
    by (simp_all add: upt_rec)
  ultimately have four: "iter_pull (next_port_pair False) 4 r = Some (ps, r')" "map rtp_port ps = [65532, 65534, 0, 2]"
    by simp_all
  have "even (unat (10002 :: u16)) \<and> unat (10002 :: u16) = unat (10001 :: u16) + 1" by simp
  then have "rtp_port_range_new True 10001 10002 = None"
    using range_new_accepts_broken_ranges [OF less(2)] by blast
  moreover have "iter_pull (next_port_pair True) 2 r = None" by (rule r(2) [rule_format, OF order_refl])
  ultimately show ?thesis
    by (intro conjI exI) (rule spec [OF r(1)], assumption, rule spec [OF r(1)], rule four(1), rule four(2), assumption)
qed

section \<open>Finding a free pair\<close>

text \<open>
  What the operating system is relied on for: the addresses that are free in a world, a bind
  that succeeds exactly on a free address (port 0 asks for any port and is left out) and takes it,
  a drop that gives it back, and a connect that changes no binding.
\<close>

definition udp_laws ::
    "('w, 's) udp_ops \<Rightarrow> ('w \<Rightarrow> sock_addr set) \<Rightarrow> ('s \<Rightarrow> sock_addr) \<Rightarrow> bool" where
  "udp_laws os free addr \<longleftrightarrow>
     (\<forall>a w. snd a \<noteq> 0 \<longrightarrow> a \<in> free w \<longrightarrow>
        (\<exists>s w'. udp_bind os a w = (Some s, w') \<and> addr s = a \<and> free w' = free w - {a})) \<and>
     (\<forall>a w. snd a \<noteq> 0 \<longrightarrow> a \<notin> free w \<longrightarrow>
        (\<exists>w'. udp_bind os a w = (None, w') \<and> free w' = free w)) \<and>
     (\<forall>s w. free (udp_drop os s w) = insert (addr s) (free w)) \<and>
     (\<forall>s p w. free (snd (udp_connect os s p w)) = free w)"

text \<open>An instance for the witnesses: the world is the list of bound addresses.\<close>

definition list_udp :: "(sock_addr list, sock_addr) udp_ops" where
  "list_udp = \<lparr>udp_bind = (\<lambda>a w. if a \<in> set w then (None, w) else (Some a, a # w)),
               udp_drop = (\<lambda>s w. filter (\<lambda>a. a \<noteq> s) w),
               udp_connect = (\<lambda>s p w. (if snd p = 0 then Some ''invalid argument'' else None, w))\<rparr>"

lemma list_udp_laws: "udp_laws list_udp (\<lambda>w. - set w) id"
  by (auto simp: udp_laws_def list_udp_def)

definition pair_addrs :: "ip_addr \<Rightarrow> rtp_port_pair \<Rightarrow> sock_addr set" where
  "pair_addrs i p = {(i, rtp_port p), (i, rtcp_port p)}"

lemma socket_pair_new_spec:
  assumes laws: "udp_laws os free addr"
    and ports: "rtp_port p \<noteq> 0" "rtcp_port p \<noteq> 0" "rtp_port p \<noteq> rtcp_port p"
  shows "(pair_addrs i p \<subseteq> free w \<longrightarrow>
           (\<exists>sp w'. rtp_socket_pair_new os p i w = (Some sp, w') \<and> port_pair sp = p \<and>
              addr (rtp_socket sp) = (i, rtp_port p) \<and> addr (rtcp_socket sp) = (i, rtcp_port p) \<and>
              free w' = free w - pair_addrs i p)) \<and>
         (\<not> pair_addrs i p \<subseteq> free w \<longrightarrow>
           (\<exists>w'. rtp_socket_pair_new os p i w = (None, w') \<and> free w' = free w))"
proof -
  have bind: "a \<in> free w \<Longrightarrow> snd a \<noteq> 0 \<Longrightarrow>
      \<exists>s w'. udp_bind os a w = (Some s, w') \<and> addr s = a \<and> free w' = free w - {a}"
    and refuse: "a \<notin> free w \<Longrightarrow> snd a \<noteq> 0 \<Longrightarrow> \<exists>w'. udp_bind os a w = (None, w') \<and> free w' = free w"
    and drop: "free (udp_drop os s w) = insert (addr s) (free w)" for a s w
    using laws unfolding udp_laws_def by blast+
  show ?thesis
  proof (cases "(i, rtp_port p) \<in> free w")
    case False
    then obtain w1 where "udp_bind os (i, rtp_port p) w = (None, w1)" "free w1 = free w"
      using refuse [of "(i, rtp_port p)" w] ports by auto
    then show ?thesis using False by (simp add: rtp_socket_pair_new_def pair_addrs_def)
  next
    case True
    then obtain s1 w1 where b1: "udp_bind os (i, rtp_port p) w = (Some s1, w1)"
      "addr s1 = (i, rtp_port p)" "free w1 = free w - {(i, rtp_port p)}"
      using bind [of "(i, rtp_port p)" w] ports by auto
    show ?thesis
    proof (cases "(i, rtcp_port p) \<in> free w1")
      case False
      then obtain w2 where "udp_bind os (i, rtcp_port p) w1 = (None, w2)" "free w2 = free w1"
        using refuse [of "(i, rtcp_port p)" w1] ports by auto
      then show ?thesis
        using False True b1 drop [of s1 w2] ports
        by (auto simp: rtp_socket_pair_new_def pair_addrs_def)
    next
      case c: True
      then obtain s2 w2 where "udp_bind os (i, rtcp_port p) w1 = (Some s2, w2)"
        "addr s2 = (i, rtcp_port p)" "free w2 = free w1 - {(i, rtcp_port p)}"
        using bind [of "(i, rtcp_port p)" w1] ports by auto
      then show ?thesis
        using True c b1 by (auto simp: rtp_socket_pair_new_def pair_addrs_def)
    qed
  qed
qed

lemma range_pair_ports:
  assumes "range_ok r" and "first_rtp_port r \<noteq> 0" and "k < range_size r"
  shows "rtp_port (range_pair r k) \<noteq> 0" "rtcp_port (range_pair r k) \<noteq> 0"
    "rtp_port (range_pair r k) \<noteq> rtcp_port (range_pair r k)"
proof -
  let ?f = "unat (first_rtp_port r)"
  have "0 < ?f" using assms(2) by (simp add: unat_gt_0)
  moreover have "?f + 2 * k + 1 < 65536" using assms(1,3) by (simp add: range_ok_def)
  ultimately have "unat (of_nat (?f + 2 * k) :: u16) = ?f + 2 * k"
    "unat (of_nat (?f + 2 * k + 1) :: u16) = ?f + 2 * k + 1" "0 < ?f"
    by (simp_all only: unat_of_nat) simp_all
  then show "rtp_port (range_pair r k) \<noteq> 0" "rtcp_port (range_pair r k) \<noteq> 0"
    "rtp_port (range_pair r k) \<noteq> rtcp_port (range_pair r k)"
    unfolding range_pair_def rtp_port_pair.simps by (metis unat_0 add_is_0 less_numeral_extra(3)
        add_eq_self_zero one_neq_zero)+
qed

text \<open>The outcome of a search over the pairs \<open>ps\<close>, \<open>i\<close> attempts after the start.\<close>

definition search_result ::
    "('w \<Rightarrow> sock_addr set) \<Rightarrow> ('s \<Rightarrow> sock_addr) \<Rightarrow> ip_addr \<Rightarrow> nat \<Rightarrow> rtp_port_pair list \<Rightarrow> 'w \<Rightarrow>
     's rtp_socket_pair option \<Rightarrow> metric_op list \<Rightarrow> 'w \<Rightarrow> bool" where
  "search_result free addr ip i ps w res ops w' \<longleftrightarrow>
     (case res of
        None \<Rightarrow> (\<forall>p \<in> set ps. \<not> pair_addrs ip p \<subseteq> free w) \<and> free w' = free w \<and>
          ops = [CounterIncrement ports_allocation_failures 1]
      | Some sp \<Rightarrow>
          (\<exists>k < length ps. port_pair sp = ps ! k \<and> pair_addrs ip (ps ! k) \<subseteq> free w \<and>
             (\<forall>j < k. \<not> pair_addrs ip (ps ! j) \<subseteq> free w) \<and>
             addr (rtp_socket sp) = (ip, rtp_port (ps ! k)) \<and>
             addr (rtcp_socket sp) = (ip, rtcp_port (ps ! k)) \<and>
             free w' = free w - pair_addrs ip (ps ! k) \<and>
             ops = [HistogramRecord ports_allocation_attempts (real (i + k + 1))]))"

lemma search_result_skip:
  assumes "search_result free addr ip (Suc i) ps w1 res ops w'"
    and "\<not> pair_addrs ip p \<subseteq> free w" and "free w1 = free w"
  shows "search_result free addr ip i (p # ps) w res ops w'"
proof (cases res)
  case None
  then show ?thesis using assms by (simp add: search_result_def)
next
  case (Some sp)
  then obtain k where k: "k < length ps" "port_pair sp = ps ! k" "pair_addrs ip (ps ! k) \<subseteq> free w"
    "\<forall>j < k. \<not> pair_addrs ip (ps ! j) \<subseteq> free w" "addr (rtp_socket sp) = (ip, rtp_port (ps ! k))"
    "addr (rtcp_socket sp) = (ip, rtcp_port (ps ! k))" "free w' = free w - pair_addrs ip (ps ! k)"
    "ops = [HistogramRecord ports_allocation_attempts (real (Suc i + k + 1))]"
    using assms(1) unfolding search_result_def assms(3) by auto
  have "\<forall>j < Suc k. \<not> pair_addrs ip ((p # ps) ! j) \<subseteq> free w"
    using k(4) assms(2) by (auto simp: less_Suc_eq_0_disj)
  then show ?thesis
    unfolding search_result_def Some option.case
    by (intro exI [of _ "Suc k"]) (use k in auto)
qed

lemma allocate_loop_spec:
  assumes laws: "udp_laws os free addr"
  shows "range_ok r \<Longrightarrow> first_rtp_port r \<noteq> 0 \<Longrightarrow>
    \<exists>res ops r' w'. allocate_loop chk os ip n i r w = Some (res, ops, r', w') \<and> range_ok r' \<and>
      first_rtp_port r' = first_rtp_port r \<and> last_rtp_port r' = last_rtp_port r \<and>
      search_result free addr ip i (ports.round r n) w res ops w'"
proof (induction n arbitrary: i r w)
  case 0
  then show ?case by (simp add: search_result_def ports.round_def)
next
  case (Suc n)
  define p where "p = range_pair r (range_index r)"
  obtain u where u: "next_port_pair chk r = Some (p, u)" "range_ok u" "range_size u = range_size r"
    "range_pair u = range_pair r" "range_index u = (range_index r + 1) mod range_size r"
    using next_port_pair_ok [OF Suc.prems(1)] by (auto simp: p_def)
  have fields: "first_rtp_port u = first_rtp_port r" "last_rtp_port u = last_rtp_port r"
    using u(1) by (auto simp: next_port_pair_def Let_def split: option.splits)
  have round: "ports.round r (Suc n) = p # ports.round u n"
    using ports.round_Suc [OF Suc.prems(1) u(3-5)] by (simp add: p_def)
  have ports: "rtp_port p \<noteq> 0" "rtcp_port p \<noteq> 0" "rtp_port p \<noteq> rtcp_port p"
    using range_pair_ports [OF Suc.prems ports.idx_less [OF Suc.prems(1)]] by (auto simp: p_def)
  note new = socket_pair_new_spec [OF laws ports, of ip w]
  show ?case
  proof (cases "pair_addrs ip p \<subseteq> free w")
    case True
    then obtain sp w1 where "rtp_socket_pair_new os p ip w = (Some sp, w1)" "port_pair sp = p"
      "addr (rtp_socket sp) = (ip, rtp_port p)" "addr (rtcp_socket sp) = (ip, rtcp_port p)"
      "free w1 = free w - pair_addrs ip p"
      using new by blast
    then show ?thesis
      using True u(1,2) fields
      by (auto simp: round search_result_def intro!: exI [of _ 0])
  next
    case False
    then obtain w1 where w1: "rtp_socket_pair_new os p ip w = (None, w1)" "free w1 = free w"
      using new by blast
    obtain res ops r' w' where IH: "allocate_loop chk os ip n (Suc i) u w1 = Some (res, ops, r', w')"
      "range_ok r'" "first_rtp_port r' = first_rtp_port u" "last_rtp_port r' = last_rtp_port u"
      "search_result free addr ip (Suc i) (ports.round u n) w1 res ops w'"
      using Suc.IH [OF u(2), of "Suc i" w1] Suc.prems(2) fields by auto
    show ?thesis
      using IH u(1) w1(1) fields search_result_skip [OF IH(5) False w1(2)]
      by (simp add: round)
  qed
qed

text \<open>Two ranges of the same ports, wherever their cursors are.\<close>

definition same_ports :: "rtp_port_range \<Rightarrow> rtp_port_range \<Rightarrow> bool" where
  "same_ports r r' \<longleftrightarrow> first_rtp_port r' = first_rtp_port r \<and> last_rtp_port r' = last_rtp_port r"

lemma same_portsD:
  "same_ports r r' \<Longrightarrow> first_rtp_port r' = first_rtp_port r"
  "same_ports r r' \<Longrightarrow> range_size r' = range_size r" "same_ports r r' \<Longrightarrow> range_pair r' = range_pair r"
  by (simp_all add: same_ports_def range_size_def range_pair_def fun_eq_iff)

lemma try_allocate_spec:
  assumes "udp_laws os free addr" and "range_ok r" and "first_rtp_port r \<noteq> 0"
  shows "\<exists>res ops r' w'. try_allocate_socket_pair chk os r ip w = Some (res, ops, r', w') \<and>
    range_ok r' \<and> same_ports r r' \<and>
    (res = None \<longleftrightarrow> (\<forall>k < range_size r. \<not> pair_addrs ip (range_pair r k) \<subseteq> free w)) \<and>
    search_result free addr ip 0
      (map (\<lambda>k. range_pair r ((range_index r + k) mod range_size r)) [0..<range_size r]) w res ops w'"
proof -
  have "unat (of_nat (range_size r) :: u16) = range_size r"
    using assms(2) by (simp add: range_ok_def unat_of_nat)
  then obtain res ops r' w' where res: "try_allocate_socket_pair chk os r ip w = Some (res, ops, r', w')"
    "range_ok r'" "same_ports r r'" "search_result free addr ip 0 (ports.round r (range_size r)) w res ops w'"
    using allocate_loop_spec [OF assms, of chk ip "range_size r" 0 w] range_capacity_ok [OF assms(2)]
    by (auto simp: try_allocate_socket_pair_def same_ports_def)
  have set: "set (ports.round r (range_size r)) = range_pair r ` {..<range_size r}"
    by (rule ports.set_full_round [OF assms(2)])
  have "res = None \<longleftrightarrow> (\<forall>p \<in> set (ports.round r (range_size r)). \<not> pair_addrs ip p \<subseteq> free w)"
    using res(4) unfolding search_result_def by (cases res) auto
  then have "res = None \<longleftrightarrow> (\<forall>k < range_size r. \<not> pair_addrs ip (range_pair r k) \<subseteq> free w)"
    unfolding set by auto
  then show ?thesis
    using res unfolding ports.round_def by blast
qed

text \<open>C18.
  Port allocation is complete, first-fit and leak-free.  When the operating system behaves as
  documented, \<open>try_allocate_socket_pair\<close> fails exactly when no pair of the range has both ports
  free, and then it changes no binding and counts one failure; otherwise it binds the first free
  pair after the cursor, both sockets on the local address, changes no other binding (a
  half-bound pair is given back) and records the number of attempts it took.  The range keeps its
  ports.\<close>

theorem allocation_first_fit:
  assumes "udp_laws os free addr" and "range_ok r" and "first_rtp_port r \<noteq> 0"
  shows "\<exists>res ops r' w'. try_allocate_socket_pair chk os r ip w = Some (res, ops, r', w') \<and>
    range_ok r' \<and> same_ports r r' \<and>
    (res = None \<longleftrightarrow> (\<forall>k < range_size r. \<not> pair_addrs ip (range_pair r k) \<subseteq> free w)) \<and>
    search_result free addr ip 0
      (map (\<lambda>k. range_pair r ((range_index r + k) mod range_size r)) [0..<range_size r]) w res ops w'"
  by (rule try_allocate_spec [OF assms])

theorem allocation_first_fit_witness:
  "\<exists>sp ops r' w'. try_allocate_socket_pair True list_udp two_pairs (IpV4 127 0 0 1)
      [((IpV4 127 0 0 1), 10001)] = Some (Some sp, ops, r', w') \<and> range_ok r'"
proof -
  have "first_rtp_port two_pairs \<noteq> 0" by (simp add: two_pairs_def)
  from allocation_first_fit [OF list_udp_laws two_pairs_ok this, of True "(IpV4 127 0 0 1)"
      "[((IpV4 127 0 0 1), 10001)]"]
  obtain res ops r' w' where r: "try_allocate_socket_pair True list_udp two_pairs (IpV4 127 0 0 1)
      [((IpV4 127 0 0 1), 10001)] = Some (res, ops, r', w')" "range_ok r'"
    "res = None \<longleftrightarrow> (\<forall>k < range_size two_pairs. \<not> pair_addrs (IpV4 127 0 0 1) (range_pair two_pairs k)
        \<subseteq> - set [((IpV4 127 0 0 1), 10001)])"
    by blast
  have "1 < range_size two_pairs" by (simp add: range_size_def two_pairs_def)
  moreover have "pair_addrs (IpV4 127 0 0 1) (range_pair two_pairs 1) \<subseteq> - set [((IpV4 127 0 0 1), 10001)]"
    by (simp add: pair_addrs_def range_pair_def two_pairs_def)
  ultimately have "res \<noteq> None" using r(3) by blast
  then show ?thesis using r(1,2) by blast
qed

end
