(* ===== verification/Cancel.thy ===== *)
theory Cancel
  imports Prelude
begin

text \<open>
  Cancellation tokens.  The crate \<open>tokio-util\<close> is not part of the repository.  A token is named by
  how it was made, a root or a child of another one; what has happened to the tokens of a process
  is the list of the \<open>cancel()\<close> calls so far; and whether a token reads as cancelled then is the
  parameter \<open>token_query\<close>.  \<open>token_laws\<close> is its documentation: a token is cancelled by a call on
  itself or on the token it is a child of, at any depth, and by nothing else.
\<close>

datatype token = RootToken nat | ChildToken token nat

type_synonym token_query = "token list \<Rightarrow> token \<Rightarrow> bool"

fun descends :: "token \<Rightarrow> token \<Rightarrow> bool" where
  "descends (RootToken n) c \<longleftrightarrow> RootToken n = c"
| "descends (ChildToken p n) c \<longleftrightarrow> ChildToken p n = c \<or> descends p c"

definition token_laws :: "token_query \<Rightarrow> bool" where
  "token_laws q \<longleftrightarrow> (\<forall>calls t. q calls t \<longleftrightarrow> (\<exists>c \<in> set calls. descends t c))"

text \<open>An instance for the witnesses.\<close>

definition tree_query :: token_query where
  "tree_query calls t \<longleftrightarrow> (\<exists>c \<in> set calls. descends t c)"

lemma tree_query_laws: "token_laws tree_query"
  by (simp add: token_laws_def tree_query_def)

section \<open>Consequences\<close>

lemma descends_refl [simp]: "descends t t"
  by (cases t) auto

lemma descends_child [simp]: "descends (ChildToken t n) t"
  by simp

lemma descends_trans: "descends a b \<Longrightarrow> descends b c \<Longrightarrow> descends a c"
  by (induction a) auto

lemma descends_size: "descends t c \<Longrightarrow> size c \<le> size t"
  by (induction t) auto

lemma not_descends_own_child [simp]: "\<not> descends t (ChildToken t n)"
  using descends_size [of t "ChildToken t n"] by auto

lemma token_Nil: "token_laws q \<Longrightarrow> \<not> q [] t"
  by (simp add: token_laws_def)

lemma token_append: "token_laws q \<Longrightarrow> q (xs @ ys) t \<longleftrightarrow> q xs t \<or> q ys t"
  by (auto simp: token_laws_def)

lemma token_called: "token_laws q \<Longrightarrow> t \<in> set calls \<Longrightarrow> q calls t"
  unfolding token_laws_def using descends_refl by blast

lemma token_parent: "token_laws q \<Longrightarrow> q calls t \<Longrightarrow> q calls (ChildToken t n)"
  by (auto simp: token_laws_def)

text \<open>A call on a child leaves the parent alone.\<close>

lemma token_child_only: "token_laws q \<Longrightarrow> q (calls @ [ChildToken t n]) t \<longleftrightarrow> q calls t"
  by (simp add: token_laws_def Bex_def) auto

end
