(* ===== verification/Deadline.thy ===== *)
theory Deadline
  imports Prelude
begin

text \<open>
  \<open>media/deadline.rs\<close>.  The timer of \<open>tokio\<close> is not part of the repository: it is the parameter
  \<open>sleep_ops\<close> over a timer state \<open>'z\<close>.  Instants and durations are nanoseconds; adding a duration
  to an instant is the operation of the standard library, which panics when the sum leaves what
  an \<open>Instant\<close> holds (signed 64-bit seconds).  \<open>poll\<close> gives whether the future is ready.
\<close>

section \<open>Instants\<close>

definition INSTANT_LIMIT :: nat where
  "INSTANT_LIMIT = 2 ^ 63 * 10 ^ 9"

definition instant_add :: "nat \<Rightarrow> nat \<Rightarrow> nat outcome" where
  "instant_add t d = (if t + d < INSTANT_LIMIT then Some (t + d) else None)"

text \<open>\<open>Duration::MAX\<close>: the largest 64-bit number of seconds and 999999999 nanoseconds.\<close>

definition DURATION_MAX :: nat where
  "DURATION_MAX = 2 ^ 64 * 10 ^ 9 - 1"

section \<open>The deadline\<close>

record 'z sleep_ops =
  sleep_new :: "nat \<Rightarrow> nat \<Rightarrow> 'z"
  sleep_reset :: "nat \<Rightarrow> 'z \<Rightarrow> 'z"
  sleep_poll :: "nat \<Rightarrow> 'z \<Rightarrow> bool \<times> 'z"

record 'z deadline =
  dl_sleep :: 'z
  dl_duration :: nat

definition deadline_new :: "'z sleep_ops \<Rightarrow> nat \<Rightarrow> nat \<Rightarrow> 'z deadline" where
  "deadline_new ops now duration = \<lparr>dl_sleep = sleep_new ops now duration, dl_duration = duration\<rparr>"

definition deadline_reset :: "'z sleep_ops \<Rightarrow> nat \<Rightarrow> 'z deadline \<Rightarrow> 'z deadline outcome" where
  "deadline_reset ops now d =
     (case instant_add now (dl_duration d) of
        None \<Rightarrow> None
      | Some t \<Rightarrow> Some (d\<lparr>dl_sleep := sleep_reset ops t (dl_sleep d)\<rparr>))"

definition deadline_poll :: "'z sleep_ops \<Rightarrow> nat \<Rightarrow> 'z deadline \<Rightarrow> bool \<times> 'z deadline" where
  "deadline_poll ops now d =
     (let (ready, z) = sleep_poll ops now (dl_sleep d) in (ready, d\<lparr>dl_sleep := z\<rparr>))"

section \<open>What the timer is documented to do\<close>

text \<open>
  A timer is due at an instant: the one it was made for (as long as that is an instant), or the
  one it was reset to.  It is never ready early, it is ready once the granularity \<open>g\<close> of the timer
  has passed after that, and polling does not move it.
\<close>

definition sleep_laws :: "'z sleep_ops \<Rightarrow> ('z \<Rightarrow> nat) \<Rightarrow> nat \<Rightarrow> bool" where
  "sleep_laws ops due g \<longleftrightarrow>
     (\<forall>t d. t + d < INSTANT_LIMIT \<longrightarrow> due (sleep_new ops t d) = t + d) \<and>
     (\<forall>t z. due (sleep_reset ops t z) = t) \<and>
     (\<forall>t z. due (snd (sleep_poll ops t z)) = due z) \<and>
     (\<forall>t z. fst (sleep_poll ops t z) \<longrightarrow> due z \<le> t) \<and>
     (\<forall>t z. due z + g \<le> t \<longrightarrow> fst (sleep_poll ops t z))"

text \<open>An instance for the witnesses: the timer is the instant it is due at.\<close>

definition exact_sleep :: "nat sleep_ops" where
  "exact_sleep = \<lparr>sleep_new = (\<lambda>t d. t + d), sleep_reset = (\<lambda>t z. t), sleep_poll = (\<lambda>t z. (z \<le> t, z))\<rparr>"

lemma exact_sleep_laws: "sleep_laws exact_sleep id g"
  by (simp add: sleep_laws_def exact_sleep_def)

section \<open>The instant a deadline is due\<close>

definition due_at :: "('z \<Rightarrow> nat) \<Rightarrow> 'z deadline \<Rightarrow> nat" where
  "due_at due d = due (dl_sleep d)"

lemma deadline_new_due:
  "sleep_laws ops due g \<Longrightarrow> t + d < INSTANT_LIMIT \<Longrightarrow> due_at due (deadline_new ops t d) = t + d"
  by (simp add: sleep_laws_def due_at_def deadline_new_def)

lemma deadline_new_duration [simp]: "dl_duration (deadline_new ops t d) = d"
  by (simp add: deadline_new_def)

lemma deadline_reset_due:
  assumes "sleep_laws ops due g" and "t + dl_duration d < INSTANT_LIMIT"
  shows "\<exists>d'. deadline_reset ops t d = Some d' \<and> due_at due d' = t + dl_duration d \<and>
    dl_duration d' = dl_duration d"
  using assms by (simp add: sleep_laws_def due_at_def deadline_reset_def instant_add_def)

lemma deadline_reset_panics:
  "deadline_reset ops t d = None \<longleftrightarrow> INSTANT_LIMIT \<le> t + dl_duration d"
  by (simp add: deadline_reset_def instant_add_def not_less)

lemma deadline_poll_due:
  assumes "sleep_laws ops due g"
  shows "due_at due (snd (deadline_poll ops t d)) = due_at due d"
    "dl_duration (snd (deadline_poll ops t d)) = dl_duration d"
    "fst (deadline_poll ops t d) \<Longrightarrow> due_at due d \<le> t"
    "due_at due d + g \<le> t \<Longrightarrow> fst (deadline_poll ops t d)"
  using assms
  by (simp_all add: sleep_laws_def due_at_def deadline_poll_def case_prod_beta)

fun deadline_resets :: "'z sleep_ops \<Rightarrow> nat list \<Rightarrow> 'z deadline \<Rightarrow> 'z deadline outcome" where
  "deadline_resets ops [] d = Some d"
| "deadline_resets ops (t # ts) d =
     (case deadline_reset ops t d of None \<Rightarrow> None | Some d \<Rightarrow> deadline_resets ops ts d)"

lemma deadline_resets_due:
  assumes laws: "sleep_laws ops due g"
  shows "list_all (\<lambda>t. t + dl_duration d < INSTANT_LIMIT) ts \<Longrightarrow> due_at due d = t0 + dl_duration d \<Longrightarrow>
    \<exists>d'. deadline_resets ops ts d = Some d' \<and> due_at due d' = last (t0 # ts) + dl_duration d"
proof (induction ts arbitrary: d t0)
  case Nil
  then show ?case by simp
next
  case (Cons t ts)
  obtain e where e: "deadline_reset ops t d = Some e" "due_at due e = t + dl_duration d"
    "dl_duration e = dl_duration d"
    using deadline_reset_due [OF laws, of t d] Cons.prems(1) by auto
  show ?case
    using Cons.IH [of e t] Cons.prems(1) e by simp
qed

text \<open>
  A deadline measures the time since the last reset.  After any sequence of resets it is never
  ready before its duration has passed since the last of them (or since it was made), and it is
  ready once the granularity of the timer has passed after that; no reset panics as long as the
  sums are instants.\<close>

lemma deadline_measures_idle_time:
  assumes "sleep_laws ops due g" and "list_all (\<lambda>t. t + duration < INSTANT_LIMIT) (t0 # ts)"
  shows "\<exists>d. deadline_resets ops ts (deadline_new ops t0 duration) = Some d \<and>
    (fst (deadline_poll ops now d) \<longrightarrow> last (t0 # ts) + duration \<le> now) \<and>
    (last (t0 # ts) + duration + g \<le> now \<longrightarrow> fst (deadline_poll ops now d))"
proof -
  have "due_at due (deadline_new ops t0 duration) = t0 + duration"
    using deadline_new_due [OF assms(1)] assms(2) by simp
  then obtain d where d: "deadline_resets ops ts (deadline_new ops t0 duration) = Some d"
    "due_at due d = last (t0 # ts) + duration"
    using deadline_resets_due [OF assms(1), of "deadline_new ops t0 duration" ts t0] assms(2) by auto
  then show ?thesis
    using deadline_poll_due(3,4) [OF assms(1), where t = now and d = d] by auto
qed

text \<open>
  A reset panics exactly when the instant it asks for does not exist; a deadline of
  \<open>Duration::MAX\<close>, which \<open>Deadline::new\<close> accepts, panics on its first reset whenever that
  happens.\<close>

lemma deadline_reset_overflow:
  "(deadline_reset ops now d = None \<longleftrightarrow> INSTANT_LIMIT \<le> now + dl_duration d) \<and>
   deadline_reset ops now (deadline_new ops t0 DURATION_MAX) = None"
  by (simp add: deadline_reset_panics) (simp add: INSTANT_LIMIT_def DURATION_MAX_def)

end
