(* ===== verification/Session.thy ===== *)
theory Session
  imports Sdp Rtp Ports Cancel Deadline
begin

text \<open>
  \<open>media/session.rs\<close>: a media session, its construction and start, and its two tasks.

  A task is an asynchronous loop around \<open>tokio::select!\<close>.  The model runs it over the list of its
  polls (receive task) or completed branches (send task), each with what the world outside the
  task had done by then: the time, the \<open>cancel()\<close> calls made by others, what the socket and the
  channels have ready.  The packet counters of the source feed log lines only and are left out.
\<close>

section \<open>The session\<close>

record ('e, 's) media_session =
  advertise_ip_addr :: ip_addr
  rtp_socket_pair :: "'s rtp_socket_pair"
  selected_codec :: offered_codec
  media_receive_timeout :: nat
  session_id :: u64
  cancel_token :: token
  recv_codec :: "'e codec"
  send_codec :: "'e codec"

text \<open>Dropping a socket pair drops its sockets in the order of their fields.\<close>

definition socket_pair_drop :: "('w, 's) udp_ops \<Rightarrow> 's rtp_socket_pair \<Rightarrow> 'w \<Rightarrow> 'w" where
  "socket_pair_drop os sp w = udp_drop os (rtcp_socket sp) (udp_drop os (rtp_socket sp) w)"

text \<open>
  \<open>MediaSession::new\<close>; \<open>sid\<close> is the random session id, \<open>n\<close> numbers the calls of the engine
  constructors.  On an error the sockets, which were moved in, are dropped.
\<close>

definition media_session_new ::
    "'e codec_libs \<Rightarrow> nat \<Rightarrow> ('w, 's) udp_ops \<Rightarrow> u64 \<Rightarrow> 's rtp_socket_pair \<Rightarrow> ip_addr \<Rightarrow> sdp_offer \<Rightarrow>
     token \<Rightarrow> nat \<Rightarrow> 'w \<Rightarrow> (codec_init_error + ('e, 's) media_session) \<times> 'w" where
  "media_session_new libs n os sid sp advertise_ip offer tok timeout w =
     (case codec_create libs n (offer_codec_kind offer) of
        Inl e \<Rightarrow> (Inl e, socket_pair_drop os sp w)
      | Inr rcodec \<Rightarrow>
          (case codec_create libs (n + 1) (offer_codec_kind offer) of
             Inl e \<Rightarrow> (Inl e, socket_pair_drop os sp w)
           | Inr scodec \<Rightarrow>
               (Inr \<lparr>advertise_ip_addr = advertise_ip, rtp_socket_pair = sp,
                     selected_codec = \<lparr>oc_payload_type = payload_type offer,
                                       oc_kind = offer_codec_kind offer\<rparr>,
                     media_receive_timeout = timeout, session_id = sid, cancel_token = tok,
                     recv_codec = rcodec, send_codec = scodec\<rparr>, w)))"

definition session_sdp_answer :: "('e, 's) media_session \<Rightarrow> string" where
  "session_sdp_answer s =
     generate_sdp_answer (advertise_ip_addr s) (Ports.rtp_port (port_pair (rtp_socket_pair s)))
       (session_id s) (selected_codec s)"

section \<open>The receive task\<close>

datatype recv_end = RecvCancelled | RecvChannelClosed | RecvError string

text \<open>
  One poll of the select: the time, the cancel calls others made since the poll before, what the
  socket has (nothing, an error, or a datagram), and whether the receiving half of the audio
  channel is gone.
\<close>

record recv_poll =
  rp_now :: nat
  rp_calls :: "token list"
  rp_socket :: "(string + u8 list) option"
  rp_gone :: bool

record ('c, 'z) recv_task =
  rt_codec :: 'c
  rt_deadline :: "'z deadline"
  rt_calls :: "token list"
  rt_frames :: "audio_frame list"
  rt_end :: "recv_end option"

text \<open>The parameters of a task that do not change.\<close>

record ('c, 'z) recv_env =
  re_decode :: "'c \<Rightarrow> u8 list \<Rightarrow> (i16 list \<times> 'c) outcome"
  re_rtp :: rtp_lib
  re_sleep :: "'z sleep_ops"
  re_query :: token_query
  re_token :: token

definition RECV_BUFFER :: nat where
  "RECV_BUFFER = 2048"

definition recv_task_new :: "'z sleep_ops \<Rightarrow> nat \<Rightarrow> 'c \<Rightarrow> nat \<Rightarrow> token list \<Rightarrow> ('c, 'z) recv_task" where
  "recv_task_new ops now c timeout calls =
     \<lparr>rt_codec = c, rt_deadline = deadline_new ops now timeout, rt_calls = calls, rt_frames = [],
      rt_end = None\<rparr>"

text \<open>The branch of a datagram, already cut to the buffer.\<close>

definition recv_datagram ::
    "('c, 'z) recv_env \<Rightarrow> nat \<Rightarrow> bool \<Rightarrow> u8 list \<Rightarrow> ('c, 'z) recv_task \<Rightarrow> ('c, 'z) recv_task outcome" where
  "recv_datagram env now gone data st =
     (case parse_rtp_packet (re_rtp env) data of
        None \<Rightarrow> Some st
      | Some raw \<Rightarrow>
          (case deadline_reset (re_sleep env) now (rt_deadline st) of
             None \<Rightarrow> None
           | Some d \<Rightarrow>
               (case re_decode env (rt_codec st) (raw_payload raw) of
                  None \<Rightarrow> None
                | Some (pcm, c) \<Rightarrow>
                    (let st = st\<lparr>rt_deadline := d, rt_codec := c\<rparr>
                     in if gone then Some (st\<lparr>rt_end := Some RecvChannelClosed\<rparr>)
                        else Some (st\<lparr>rt_frames := rt_frames st @ [\<lparr>samples = pcm\<rparr>]\<rparr>)))))"

text \<open>The branch of the socket.\<close>

definition recv_socket ::
    "('c, 'z) recv_env \<Rightarrow> recv_poll \<Rightarrow> ('c, 'z) recv_task \<Rightarrow> ('c, 'z) recv_task outcome" where
  "recv_socket env p st =
     (case rp_socket p of
        None \<Rightarrow> Some st
      | Some (Inl e) \<Rightarrow> Some (st\<lparr>rt_end := Some (RecvError e)\<rparr>)
      | Some (Inr datagram) \<Rightarrow> recv_datagram env (rp_now p) (rp_gone p) (take RECV_BUFFER datagram) st)"

text \<open>
  One poll of the biased select: cancellation first, then the deadline, then the socket; when
  nothing is ready the task sleeps on.
\<close>

definition receive_poll ::
    "('c, 'z) recv_env \<Rightarrow> recv_poll \<Rightarrow> ('c, 'z) recv_task \<Rightarrow> ('c, 'z) recv_task outcome" where
  "receive_poll env p st =
     (if rt_end st \<noteq> None then Some st
      else
        (let st = st\<lparr>rt_calls := rt_calls st @ rp_calls p\<rparr>
         in if re_query env (rt_calls st) (re_token env) then Some (st\<lparr>rt_end := Some RecvCancelled\<rparr>)
            else
              (let (expired, d) = deadline_poll (re_sleep env) (rp_now p) (rt_deadline st);
                   st = st\<lparr>rt_deadline := d\<rparr>
               in if expired then Some (st\<lparr>rt_calls := rt_calls st @ [re_token env]\<rparr>)
                  else recv_socket env p st)))"

fun rtp_receive_task ::
    "('c, 'z) recv_env \<Rightarrow> recv_poll list \<Rightarrow> ('c, 'z) recv_task \<Rightarrow> ('c, 'z) recv_task outcome" where
  "rtp_receive_task env [] st = Some st"
| "rtp_receive_task env (p # ps) st =
     (case receive_poll env p st of
        None \<Rightarrow> None
      | Some st \<Rightarrow> rtp_receive_task env ps st)"

section \<open>The send task\<close>

datatype send_end = SendCancelled | SendChannelClosed | SendError string

text \<open>
  The branch one round of the select takes: the token, the closed channel, or a frame, with the
  time and the result of the send if it comes to one.
\<close>

datatype send_event =
    TokenCancelled
  | ChannelClosed
  | FrameReady audio_frame nat "string option"

record 'c send_task =
  sd_codec :: 'c
  sd_rtp :: rtp_send_state
  sd_timing :: timing_metric
  sd_ops :: "metric_op list"
  sd_packets :: "u8 list list"
  sd_end :: "send_end option"

record 'c send_env =
  se_encode :: "'c \<Rightarrow> i16 list \<Rightarrow> u8 list \<times> 'c"
  se_rtp :: rtp_lib

definition EXPECTED_SEND_INTERVAL_NS :: nat where
  "EXPECTED_SEND_INTERVAL_NS = EXPECTED_SEND_INTERVAL * 1000000"

definition send_task_new ::
    "u32 \<Rightarrow> u16 \<Rightarrow> u32 \<Rightarrow> u8 \<Rightarrow> timestamp_increment \<Rightarrow> 'c \<Rightarrow> 'c send_task" where
  "send_task_new ssrc seq ts pt incr c =
     \<lparr>sd_codec = c, sd_rtp = rtp_send_state_new ssrc seq ts pt incr,
      sd_timing = rtp_send_timing_deviation EXPECTED_SEND_INTERVAL_NS,
      sd_ops = [], sd_packets = [], sd_end = None\<rparr>"

definition send_frame ::
    "'c send_env \<Rightarrow> audio_frame \<Rightarrow> nat \<Rightarrow> string option \<Rightarrow> 'c send_task \<Rightarrow> 'c send_task outcome" where
  "send_frame env frame now err st =
     (let (payload, c) = se_encode env (sd_codec st) (samples frame);
          st = st\<lparr>sd_codec := c\<rparr>
      in if payload = [] then Some st
         else
           (let (rtp, next_state) = rtp_next (sd_rtp st);
                st = st\<lparr>sd_rtp := next_state\<rparr>
            in case build_rtp_packet (se_rtp env) payload rtp of
                 None \<Rightarrow> None
               | Some packet \<Rightarrow>
                   (case err of
                      None \<Rightarrow>
                        (let (ops, m) = timing_metric_record now (sd_timing st)
                         in Some (st\<lparr>sd_timing := m, sd_packets := sd_packets st @ [packet],
                                    sd_ops := sd_ops st @ ops @ [CounterIncrement rtp_packets_sent 1]\<rparr>))
                    | Some e \<Rightarrow>
                        Some (st\<lparr>sd_ops := sd_ops st @ [CounterIncrement rtp_send_errors 1],
                                 sd_end := Some (SendError e)\<rparr>))))"

definition send_round :: "'c send_env \<Rightarrow> send_event \<Rightarrow> 'c send_task \<Rightarrow> 'c send_task outcome" where
  "send_round env ev st =
     (if sd_end st \<noteq> None then Some st
      else
        (case ev of
           TokenCancelled \<Rightarrow> Some (st\<lparr>sd_end := Some SendCancelled\<rparr>)
         | ChannelClosed \<Rightarrow> Some (st\<lparr>sd_end := Some SendChannelClosed\<rparr>)
         | FrameReady frame now err \<Rightarrow> send_frame env frame now err st))"

fun rtp_send_task :: "'c send_env \<Rightarrow> send_event list \<Rightarrow> 'c send_task \<Rightarrow> 'c send_task outcome" where
  "rtp_send_task env [] st = Some st"
| "rtp_send_task env (ev # evs) st =
     (case send_round env ev st of
        None \<Rightarrow> None
      | Some st \<Rightarrow> rtp_send_task env evs st)"

section \<open>Starting a session\<close>

text \<open>
  \<open>MediaSession::start\<close>: the RTP socket goes to both tasks, the RTCP socket goes out of scope with
  the pair and is dropped.  \<open>now\<close> is the time of the receive task's first poll, the three numbers
  are the random ones of the send task.
\<close>

record ('e, 'z, 's) started_session =
  ss_recv :: "('e codec, 'z) recv_task"
  ss_send :: "'e codec send_task"
  ss_socket :: 's
  ss_token :: token

definition media_session_start ::
    "('w, 's) udp_ops \<Rightarrow> 'z sleep_ops \<Rightarrow> nat \<Rightarrow> u32 \<Rightarrow> u16 \<Rightarrow> u32 \<Rightarrow> token list \<Rightarrow>
     ('e, 's) media_session \<Rightarrow> 'w \<Rightarrow> ('e, 'z, 's) started_session \<times> 'w" where
  "media_session_start os ops now ssrc seq ts calls s w =
     (\<lparr>ss_recv = recv_task_new ops now (recv_codec s) (media_receive_timeout s) calls,
       ss_send = send_task_new ssrc seq ts (oc_payload_type (selected_codec s))
                   (codec_rtp_timestamp_increment (send_codec s)) (send_codec s),
       ss_socket = rtp_socket (rtp_socket_pair s),
       ss_token = cancel_token s\<rparr>,
      udp_drop os (rtcp_socket (rtp_socket_pair s)) w)"

text \<open>The environments of the two tasks of a session: its codec is a trait object.\<close>

definition receiver ::
    "'e codec_libs \<Rightarrow> rtp_lib \<Rightarrow> 'z sleep_ops \<Rightarrow> token_query \<Rightarrow> token \<Rightarrow> ('e codec, 'z) recv_env" where
  "receiver libs lib ops q tok =
     \<lparr>re_decode = codec_decode libs, re_rtp = lib, re_sleep = ops, re_query = q, re_token = tok\<rparr>"

definition sender :: "'e codec_libs \<Rightarrow> rtp_lib \<Rightarrow> 'e codec send_env" where
  "sender libs lib = \<lparr>se_encode = codec_encode libs, se_rtp = lib\<rparr>"

section \<open>What a run of the receive task is measured against\<close>

text \<open>The payload a poll brings, when it brings a packet the RTP reader accepts.\<close>

definition poll_payload :: "rtp_lib \<Rightarrow> recv_poll \<Rightarrow> u8 list option" where
  "poll_payload lib p =
     (case rp_socket p of
        Some (Inr datagram) \<Rightarrow> map_option raw_payload (parse_rtp_packet lib (take RECV_BUFFER datagram))
      | _ \<Rightarrow> None)"

definition valid_payloads :: "rtp_lib \<Rightarrow> recv_poll list \<Rightarrow> u8 list list" where
  "valid_payloads lib ps = List.map_filter (poll_payload lib) ps"

text \<open>The time of the last valid packet, or \<open>t0\<close>.\<close>

fun last_activity :: "rtp_lib \<Rightarrow> nat \<Rightarrow> recv_poll list \<Rightarrow> nat" where
  "last_activity lib t0 [] = t0"
| "last_activity lib t0 (p # ps) =
     last_activity lib (if poll_payload lib p = None then t0 else rp_now p) ps"

definition calls_until :: "recv_poll list \<Rightarrow> token list" where
  "calls_until ps = concat (map rp_calls ps)"

lemma valid_payloads_snoc:
  "valid_payloads lib (ps @ [p]) =
     valid_payloads lib ps @ (case poll_payload lib p of None \<Rightarrow> [] | Some x \<Rightarrow> [x])"
  by (induction ps) (auto simp: valid_payloads_def List.map_filter_simps split: option.splits)

lemma last_activity_snoc:
  "last_activity lib t0 (ps @ [p]) = (if poll_payload lib p = None then last_activity lib t0 ps else rp_now p)"
  by (induction ps arbitrary: t0) auto

lemma calls_until_snoc [simp]: "calls_until (ps @ [p]) = calls_until ps @ rp_calls p"
  by (simp add: calls_until_def)

lemma valid_payloads_Nil [simp]: "valid_payloads lib [] = []"
  by (simp add: valid_payloads_def List.map_filter_simps)

lemma calls_until_Nil [simp]: "calls_until [] = []"
  by (simp add: calls_until_def)

text \<open>
  The state of a task that is still receiving after the polls \<open>ps\<close>: every valid packet so far has
  been decoded and handed on in order, and the deadline counts from the last of them.
\<close>

definition recv_core ::
    "('c, 'z) recv_env \<Rightarrow> ('z \<Rightarrow> nat) \<Rightarrow> 'c \<Rightarrow> nat \<Rightarrow> nat \<Rightarrow> recv_poll list \<Rightarrow> ('c, 'z) recv_task \<Rightarrow> bool" where
  "recv_core env due c0 t0 timeout ps st \<longleftrightarrow>
     rt_end st = None \<and>
     due_at due (rt_deadline st) = last_activity (re_rtp env) t0 ps + timeout \<and>
     dl_duration (rt_deadline st) = timeout \<and>
     (\<exists>pcms. decode_all (re_decode env) c0 (valid_payloads (re_rtp env) ps) = Some (pcms, rt_codec st) \<and>
             rt_frames st = map (\<lambda>pcm. \<lparr>samples = pcm\<rparr>) pcms)"

text \<open>Why a task stops at a poll, and what its loop then returns for.\<close>

datatype recv_stop = StopCancelled | StopTimeout | StopError string | StopClosed

primrec stop_end :: "recv_stop \<Rightarrow> recv_end" where
  "stop_end StopCancelled = RecvCancelled"
| "stop_end StopTimeout = RecvCancelled"
| "stop_end (StopError e) = RecvError e"
| "stop_end StopClosed = RecvChannelClosed"

definition stops_at ::
    "('c, 'z) recv_env \<Rightarrow> nat \<Rightarrow> nat \<Rightarrow> nat \<Rightarrow> recv_poll list \<Rightarrow> recv_poll \<Rightarrow> recv_stop \<Rightarrow> bool" where
  "stops_at env g t0 timeout ps p stop \<longleftrightarrow>
     (let cancelled = re_query env (calls_until (ps @ [p])) (re_token env);
          due = last_activity (re_rtp env) t0 ps + timeout
      in case stop of
           StopCancelled \<Rightarrow> cancelled
         | StopTimeout \<Rightarrow> \<not> cancelled \<and> due \<le> rp_now p
         | StopError e \<Rightarrow> \<not> cancelled \<and> rp_now p < due + g \<and> rp_socket p = Some (Inl e)
         | StopClosed \<Rightarrow> \<not> cancelled \<and> rp_now p < due + g \<and> rp_gone p \<and> poll_payload (re_rtp env) p \<noteq> None)"

definition goes_on_at ::
    "('c, 'z) recv_env \<Rightarrow> nat \<Rightarrow> nat \<Rightarrow> nat \<Rightarrow> recv_poll list \<Rightarrow> recv_poll \<Rightarrow> bool" where
  "goes_on_at env g t0 timeout ps p \<longleftrightarrow>
     \<not> re_query env (calls_until (ps @ [p])) (re_token env) \<and>
     rp_now p < last_activity (re_rtp env) t0 ps + timeout + g \<and>
     (\<forall>e. rp_socket p \<noteq> Some (Inl e)) \<and>
     (rp_gone p \<longrightarrow> poll_payload (re_rtp env) p = None)"

definition recv_stopped :: "('c, 'z) recv_env \<Rightarrow> recv_stop \<Rightarrow> ('c, 'z) recv_task \<Rightarrow> bool" where
  "recv_stopped env stop st \<longleftrightarrow>
     (if stop = StopTimeout then rt_end st = None \<and> re_token env \<in> set (rt_calls st)
      else rt_end st = Some (stop_end stop))"

section \<open>One poll\<close>

lemma receive_task_append:
  "rtp_receive_task env (ps @ qs) st =
     (case rtp_receive_task env ps st of None \<Rightarrow> None | Some u \<Rightarrow> rtp_receive_task env qs u)"
  by (induction ps arbitrary: st) (auto split: option.splits)

lemma receive_task_ended: "rt_end st \<noteq> None \<Longrightarrow> rtp_receive_task env ps st = Some st"
  by (induction ps) (auto simp: receive_poll_def)

lemma receive_task_stopped:
  assumes "recv_stopped env stop st" and "token_laws (re_query env)"
  shows "\<exists>st'. rtp_receive_task env ps st = Some st' \<and> rt_frames st' = rt_frames st \<and>
    (if stop = StopTimeout \<and> ps = [] then recv_stopped env stop st' else rt_end st' = Some (stop_end stop))"
proof (cases "stop = StopTimeout")
  case False
  then show ?thesis
    using assms receive_task_ended [of st env ps] by (auto simp: recv_stopped_def)
next
  case True
  show ?thesis
  proof (cases ps)
    case Nil
    then show ?thesis using True assms by simp
  next
    case (Cons p qs)
    have "re_query env (rt_calls st @ rp_calls p) (re_token env)"
      using assms True by (simp add: recv_stopped_def token_append token_called)
    then have "receive_poll env p st =
        Some (st\<lparr>rt_calls := rt_calls st @ rp_calls p, rt_end := Some RecvCancelled\<rparr>)"
      using assms True by (simp add: receive_poll_def recv_stopped_def)
    then show ?thesis using True Cons by (simp add: receive_task_ended)
  qed
qed

lemma recv_task_new_core:
  assumes "sleep_laws (re_sleep env) due g" and "t0 + timeout < INSTANT_LIMIT"
  shows "recv_core env due c0 t0 timeout [] (recv_task_new (re_sleep env) t0 c0 timeout [])"
    and "rt_calls (recv_task_new (re_sleep env) t0 c0 timeout []) = []"
  using deadline_new_due [OF assms] by (simp_all add: recv_core_def recv_task_new_def)

section \<open>A whole run\<close>

definition decoded_frames ::
    "('c \<Rightarrow> u8 list \<Rightarrow> (i16 list \<times> 'c) outcome) \<Rightarrow> 'c \<Rightarrow> u8 list list \<Rightarrow> audio_frame list option" where
  "decoded_frames dec c payloads =
     map_option (\<lambda>(pcms, _). map (\<lambda>pcm. \<lparr>samples = pcm\<rparr>) pcms) (decode_all dec c payloads)"

text \<open>The run over \<open>ps\<close> ended in \<open>st\<close> after \<open>n\<close> polls that went on.\<close>

definition run_result ::
    "('c, 'z) recv_env \<Rightarrow> ('z \<Rightarrow> nat) \<Rightarrow> nat \<Rightarrow> 'c \<Rightarrow> nat \<Rightarrow> nat \<Rightarrow> ('c, 'z) recv_task \<Rightarrow>
     recv_poll list \<Rightarrow> ('c, 'z) recv_task \<Rightarrow> nat \<Rightarrow> bool" where
  "run_result env due g c0 t0 timeout st0 ps st n \<longleftrightarrow>
     n \<le> length ps \<and> rtp_receive_task env ps st0 = Some st \<and>
     (\<forall>i < n. goes_on_at env g t0 timeout (take i ps) (ps ! i)) \<and>
     (if n = length ps then recv_core env due c0 t0 timeout ps st \<and> rt_calls st = calls_until ps
      else \<exists>stop u. stops_at env g t0 timeout (take n ps) (ps ! n) stop \<and>
             rtp_receive_task env (take (Suc n) ps) st0 = Some u \<and> recv_stopped env stop u \<and>
             decoded_frames (re_decode env) c0 (valid_payloads (re_rtp env) (take n ps)) = Some (rt_frames u))"

context codec_trait
begin

lemma datagram_step:
  assumes sl: "sleep_laws (re_sleep env) due g" and dec: "re_decode env = dec"
    and core: "recv_core env due c0 t0 timeout ps st"
    and now: "rp_now p + timeout < INSTANT_LIMIT"
    and sock: "rp_socket p = Some (Inr data)"
    and x: "poll_payload (re_rtp env) p = Some x"
  shows "\<exists>st'. recv_datagram env (rp_now p) gone (take RECV_BUFFER data) st = Some st' \<and>
    rt_calls st' = rt_calls st \<and>
    (if gone then rt_end st' = Some RecvChannelClosed \<and> rt_frames st' = rt_frames st
     else recv_core env due c0 t0 timeout (ps @ [p]) st')"
proof -
  obtain raw where raw: "parse_rtp_packet (re_rtp env) (take RECV_BUFFER data) = Some raw" "raw_payload raw = x"
    using x by (auto simp: poll_payload_def sock)
  obtain pcms where c: "rt_end st = None" "dl_duration (rt_deadline st) = timeout"
    "decode_all dec c0 (valid_payloads (re_rtp env) ps) = Some (pcms, rt_codec st)"
    "rt_frames st = map (\<lambda>pcm. \<lparr>samples = pcm\<rparr>) pcms"
    using core unfolding recv_core_def dec by blast
  obtain pcm k where pcm: "dec (rt_codec st) x = Some (pcm, k)"
    using dec_total [of "rt_codec st" x] by auto
  obtain d where d: "deadline_reset (re_sleep env) (rp_now p) (rt_deadline st) = Some d"
    "due_at due d = rp_now p + timeout" "dl_duration d = timeout"
    using deadline_reset_due [OF sl, of "rp_now p" "rt_deadline st"] now c(2) by auto
  have "decode_all dec c0 (valid_payloads (re_rtp env) (ps @ [p])) = Some (pcms @ [pcm], k)"
    using decode_all_snoc [OF c(3) pcm] x by (simp add: valid_payloads_snoc)
  then show ?thesis
    using raw pcm d c x by (cases gone) (simp_all add: recv_datagram_def dec recv_core_def last_activity_snoc)
qed

lemma socket_step:
  assumes sl: "sleep_laws (re_sleep env) due g" and dec: "re_decode env = dec"
    and core: "recv_core env due c0 t0 timeout ps st"
    and now: "rp_now p + timeout < INSTANT_LIMIT"
  shows "\<exists>st'. recv_socket env p st = Some st' \<and> rt_calls st' = rt_calls st \<and>
    (recv_core env due c0 t0 timeout (ps @ [p]) st' \<and> (\<forall>e. rp_socket p \<noteq> Some (Inl e)) \<and>
       (rp_gone p \<longrightarrow> poll_payload (re_rtp env) p = None) \<or>
     (\<exists>e. rp_socket p = Some (Inl e) \<and> rt_end st' = Some (RecvError e) \<and> rt_frames st' = rt_frames st) \<or>
     rp_gone p \<and> poll_payload (re_rtp env) p \<noteq> None \<and> rt_end st' = Some RecvChannelClosed \<and>
       rt_frames st' = rt_frames st)"
proof (cases "\<exists>e. rp_socket p = Some (Inl e)")
  case True
  then show ?thesis by (auto simp: recv_socket_def)
next
  case no_error: False
  show ?thesis
  proof (cases "poll_payload (re_rtp env) p")
    case None
    then have "recv_socket env p st = Some st"
      using no_error
      by (auto simp: recv_socket_def recv_datagram_def poll_payload_def split: option.splits sum.splits)
    moreover have "recv_core env due c0 t0 timeout (ps @ [p]) st"
      using core None by (simp add: recv_core_def last_activity_snoc valid_payloads_snoc)
    ultimately show ?thesis using None no_error by auto
  next
    case (Some x)
    then obtain data where data: "rp_socket p = Some (Inr data)"
      by (auto simp: poll_payload_def split: option.splits sum.splits)
    show ?thesis
      using datagram_step [OF sl dec core now data Some, of "rp_gone p"] no_error Some data
      by (auto simp: recv_socket_def split: if_splits)
  qed
qed

lemma live_poll:
  assumes sl: "sleep_laws (re_sleep env) due g" and dec: "re_decode env = dec"
    and core: "recv_core env due c0 t0 timeout ps st" and calls: "rt_calls st = calls_until ps"
    and now: "rp_now p + timeout < INSTANT_LIMIT"
  shows "\<exists>st'. receive_poll env p st = Some st' \<and>
    (recv_core env due c0 t0 timeout (ps @ [p]) st' \<and> rt_calls st' = calls_until (ps @ [p]) \<and>
       goes_on_at env g t0 timeout ps p \<or>
     (\<exists>stop. stops_at env g t0 timeout ps p stop \<and> recv_stopped env stop st' \<and> rt_frames st' = rt_frames st))"
proof -
  let ?q = "re_query env (calls_until (ps @ [p])) (re_token env)"
  let ?dl = "deadline_poll (re_sleep env) (rp_now p) (rt_deadline st)"
  define st2 where "st2 = st\<lparr>rt_calls := calls_until (ps @ [p]), rt_deadline := snd ?dl\<rparr>"
  note poll = deadline_poll_due [OF sl, where t = "rp_now p" and d = "rt_deadline st"]
  have due: "due_at due (rt_deadline st) = last_activity (re_rtp env) t0 ps + timeout" "rt_end st = None"
    using core by (simp_all add: recv_core_def)
  have st2: "recv_core env due c0 t0 timeout ps st2" "rt_calls st2 = calls_until (ps @ [p])"
    "rt_frames st2 = rt_frames st" "rt_end st2 = None"
    using core poll by (simp_all add: recv_core_def st2_def)
  consider (cancelled) "?q" | (expired) "\<not> ?q" "fst ?dl" | (socket) "\<not> ?q" "\<not> fst ?dl" by blast
  then show ?thesis
  proof cases
    case cancelled
    then have "stops_at env g t0 timeout ps p StopCancelled" by (simp add: stops_at_def)
    then show ?thesis
      using cancelled due(2) calls by (auto simp: receive_poll_def recv_stopped_def intro!: exI [of _ StopCancelled])
  next
    case expired
    then have "stops_at env g t0 timeout ps p StopTimeout"
      using poll(3) due by (simp add: stops_at_def)
    then show ?thesis
      using expired due(2) calls
      by (auto simp: receive_poll_def recv_stopped_def case_prod_beta intro!: exI [of _ StopTimeout])
  next
    case socket
    then have early: "rp_now p < last_activity (re_rtp env) t0 ps + timeout + g"
      using poll(4) due(1) by fastforce
    have run: "receive_poll env p st = recv_socket env p st2"
      using socket due(2) calls by (simp add: receive_poll_def case_prod_beta st2_def)
    from socket_step [OF sl dec st2(1) now]
    obtain st' where st': "receive_poll env p st = Some st'" "rt_calls st' = calls_until (ps @ [p])"
      and cases: "recv_core env due c0 t0 timeout (ps @ [p]) st' \<and> (\<forall>e. rp_socket p \<noteq> Some (Inl e)) \<and>
          (rp_gone p \<longrightarrow> poll_payload (re_rtp env) p = None) \<or>
        (\<exists>e. rp_socket p = Some (Inl e) \<and> rt_end st' = Some (RecvError e) \<and> rt_frames st' = rt_frames st) \<or>
        rp_gone p \<and> poll_payload (re_rtp env) p \<noteq> None \<and> rt_end st' = Some RecvChannelClosed \<and>
          rt_frames st' = rt_frames st"
      unfolding run st2(2,3) by blast
    from cases show ?thesis
    proof (elim disjE conjE exE)
      assume "recv_core env due c0 t0 timeout (ps @ [p]) st'" "\<forall>e. rp_socket p \<noteq> Some (Inl e)"
        "rp_gone p \<longrightarrow> poll_payload (re_rtp env) p = None"
      then show ?thesis using st' socket(1) early by (simp add: goes_on_at_def)
    next
      fix e assume e: "rp_socket p = Some (Inl e)" "rt_end st' = Some (RecvError e)" "rt_frames st' = rt_frames st"
      then have "stops_at env g t0 timeout ps p (StopError e)" "recv_stopped env (StopError e) st'"
        using socket(1) early by (simp_all add: stops_at_def recv_stopped_def)
      then show ?thesis using st'(1) e(3) by blast
    next
      assume c: "rp_gone p" "poll_payload (re_rtp env) p \<noteq> None" "rt_end st' = Some RecvChannelClosed"
        "rt_frames st' = rt_frames st"
      then have "stops_at env g t0 timeout ps p StopClosed" "recv_stopped env StopClosed st'"
        using socket(1) early by (simp_all add: stops_at_def recv_stopped_def)
      then show ?thesis using st'(1) c(4) by blast
    qed
  qed
qed

lemma receive_run:
  assumes sl: "sleep_laws (re_sleep env) due g" and tl: "token_laws (re_query env)"
    and dec: "re_decode env = dec"
    and start: "recv_core env due c0 t0 timeout [] st0" "rt_calls st0 = []"
  shows "list_all (\<lambda>p. rp_now p + timeout < INSTANT_LIMIT) ps \<Longrightarrow>
    \<exists>st n. run_result env due g c0 t0 timeout st0 ps st n"
proof (induction ps rule: rev_induct)
  case Nil
  then show ?case using start by (auto simp: run_result_def)
next
  case (snoc p ps)
  then obtain st n where IH: "run_result env due g c0 t0 timeout st0 ps st n" by auto
  then have run: "rtp_receive_task env ps st0 = Some st" and n: "n \<le> length ps"
    by (simp_all add: run_result_def)
  show ?case
  proof (cases "n = length ps")
    case False
    then obtain stop u where stop: "stops_at env g t0 timeout (take n ps) (ps ! n) stop"
      "rtp_receive_task env (take (Suc n) ps) st0 = Some u" "recv_stopped env stop u"
      "decoded_frames dec c0 (valid_payloads (re_rtp env) (take n ps)) = Some (rt_frames u)"
      "\<forall>i < n. goes_on_at env g t0 timeout (take i ps) (ps ! i)"
      using IH by (auto simp: run_result_def dec)
    obtain v where "rtp_receive_task env (drop (Suc n) ps @ [p]) u = Some v"
      using receive_task_stopped [OF stop(3) tl] by blast
    moreover have "ps @ [p] = take (Suc n) ps @ (drop (Suc n) ps @ [p])" by simp
    ultimately have "rtp_receive_task env (ps @ [p]) st0 = Some v"
      using stop(2) by (simp only: receive_task_append) simp
    then have "run_result env due g c0 t0 timeout st0 (ps @ [p]) v n"
      using n False stop by (auto simp: run_result_def nth_append dec)
    then show ?thesis by blast
  next
    case True
    then have live: "recv_core env due c0 t0 timeout ps st" "rt_calls st = calls_until ps"
      and on: "\<forall>i < length ps. goes_on_at env g t0 timeout (take i ps) (ps ! i)"
      using IH by (auto simp: run_result_def)
    obtain v where v: "receive_poll env p st = Some v"
      and cases: "recv_core env due c0 t0 timeout (ps @ [p]) v \<and> rt_calls v = calls_until (ps @ [p]) \<and>
         goes_on_at env g t0 timeout ps p \<or>
       (\<exists>stop. stops_at env g t0 timeout ps p stop \<and> recv_stopped env stop v \<and> rt_frames v = rt_frames st)"
      using live_poll [OF sl dec live, of p] snoc.prems by auto
    have r: "rtp_receive_task env (ps @ [p]) st0 = Some v"
      using run v by (simp add: receive_task_append)
    from cases show ?thesis
    proof (elim disjE)
      assume "recv_core env due c0 t0 timeout (ps @ [p]) v \<and> rt_calls v = calls_until (ps @ [p]) \<and>
         goes_on_at env g t0 timeout ps p"
      then have "run_result env due g c0 t0 timeout st0 (ps @ [p]) v (length (ps @ [p]))"
        using r on by (auto simp: run_result_def nth_append less_Suc_eq)
      then show ?thesis by blast
    next
      assume "\<exists>stop. stops_at env g t0 timeout ps p stop \<and> recv_stopped env stop v \<and> rt_frames v = rt_frames st"
      moreover have "decoded_frames dec c0 (valid_payloads (re_rtp env) ps) = Some (rt_frames st)"
        using live(1) by (auto simp: recv_core_def decoded_frames_def dec)
      ultimately have "run_result env due g c0 t0 timeout st0 (ps @ [p]) v (length ps)"
        using r on by (auto simp: run_result_def nth_append dec)
      then show ?thesis by blast
    qed
  qed
qed

end

lemma run_result_frames:
  assumes "run_result env due g c0 t0 timeout st0 ps st n" and "token_laws (re_query env)"
  shows "decoded_frames (re_decode env) c0 (valid_payloads (re_rtp env) (take n ps)) = Some (rt_frames st)"
    and "n = length ps \<Longrightarrow> rt_end st = None"
    and "n < length ps \<Longrightarrow> \<exists>stop. stops_at env g t0 timeout (take n ps) (ps ! n) stop \<and>
      (if stop = StopTimeout \<and> Suc n = length ps then rt_end st = None \<and> re_token env \<in> set (rt_calls st)
       else rt_end st = Some (stop_end stop))"
proof -
  have all: "decoded_frames (re_decode env) c0 (valid_payloads (re_rtp env) (take n ps)) = Some (rt_frames st) \<and>
    (n = length ps \<longrightarrow> rt_end st = None) \<and>
    (n < length ps \<longrightarrow> (\<exists>stop. stops_at env g t0 timeout (take n ps) (ps ! n) stop \<and>
      (if stop = StopTimeout \<and> Suc n = length ps then rt_end st = None \<and> re_token env \<in> set (rt_calls st)
       else rt_end st = Some (stop_end stop))))"
  proof (cases "n = length ps")
    case True
    then show ?thesis using assms(1) by (auto simp: run_result_def recv_core_def decoded_frames_def)
  next
    case False
    then obtain stop u where u: "stops_at env g t0 timeout (take n ps) (ps ! n) stop"
      "rtp_receive_task env (take (Suc n) ps) st0 = Some u" "recv_stopped env stop u"
      "decoded_frames (re_decode env) c0 (valid_payloads (re_rtp env) (take n ps)) = Some (rt_frames u)"
      and n: "n < length ps"
      using assms(1) by (auto simp: run_result_def)
    have "rtp_receive_task env ps st0 = rtp_receive_task env (drop (Suc n) ps) u"
      using receive_task_append [of env "take (Suc n) ps" "drop (Suc n) ps" st0]
      unfolding append_take_drop_id u(2) by simp
    then have "rtp_receive_task env (drop (Suc n) ps) u = Some st"
      using assms(1) by (simp add: run_result_def)
    then have "rt_frames st = rt_frames u \<and>
        (if stop = StopTimeout \<and> drop (Suc n) ps = [] then rt_end st = None \<and> re_token env \<in> set (rt_calls st)
         else rt_end st = Some (stop_end stop))"
      using receive_task_stopped [OF u(3) assms(2), of "drop (Suc n) ps"]
      by (auto simp: recv_stopped_def split: if_splits)
    moreover have "drop (Suc n) ps = [] \<longleftrightarrow> Suc n = length ps" using n by auto
    ultimately have "rt_frames st = rt_frames u"
      "if stop = StopTimeout \<and> Suc n = length ps then rt_end st = None \<and> re_token env \<in> set (rt_calls st)
       else rt_end st = Some (stop_end stop)"
      by simp_all
    then show ?thesis using u(1,4) n by (intro conjI impI exI [of _ stop]) simp_all
  qed
  show "decoded_frames (re_decode env) c0 (valid_payloads (re_rtp env) (take n ps)) = Some (rt_frames st)"
    and "n = length ps \<Longrightarrow> rt_end st = None"
    and "n < length ps \<Longrightarrow> \<exists>stop. stops_at env g t0 timeout (take n ps) (ps ! n) stop \<and>
      (if stop = StopTimeout \<and> Suc n = length ps then rt_end st = None \<and> re_token env \<in> set (rt_calls st)
       else rt_end st = Some (stop_end stop))"
    using all by auto
qed

lemma receiver_run:
  fixes libs :: "'e codec_libs" and ops :: "'z sleep_ops"
  assumes "sleep_laws ops due g" and "token_laws q" and "t0 + timeout < INSTANT_LIMIT"
    and "list_all (\<lambda>p. rp_now p + timeout < INSTANT_LIMIT) ps"
  shows "\<exists>st n. run_result (receiver libs lib ops q tok) due g c t0 timeout
    (recv_task_new ops t0 c timeout []) ps st n"
  by (rule trait.receive_run [where libs = libs])
    (use assms recv_task_new_core [of "receiver libs lib ops q tok" due g t0 timeout c]
      in \<open>simp_all add: receiver_def\<close>)

text \<open>C10.
  The receive task, over any polls and with any codec.  It never panics while the instants it
  computes exist.  Up to some poll \<open>n\<close> nothing stops it: at each of these polls its token reads
  as not cancelled, the last valid packet (or the start) is less than the timeout and the timer's
  granularity ago, the socket gives no error and no frame meets a closed channel; and the frames
  it has handed on are exactly the decoded payloads of the valid packets among them, in order.
  It goes on to the end of the polls or stops at poll \<open>n\<close> for one of the four reasons, and from
  then on hands on nothing more: cancelled, a socket error, a closed channel, or no valid packet
  for the timeout, in which case it cancels its token and leaves at the poll after.\<close>

theorem receive_task_spec:
  fixes libs :: "'e codec_libs" and ops :: "'z sleep_ops"
  assumes "sleep_laws ops due g" and "token_laws q" and "t0 + timeout < INSTANT_LIMIT"
    and "list_all (\<lambda>p. rp_now p + timeout < INSTANT_LIMIT) ps"
  shows "\<exists>st n. n \<le> length ps \<and>
    rtp_receive_task (receiver libs lib ops q tok) ps (recv_task_new ops t0 c timeout []) = Some st \<and>
    decoded_frames (codec_decode libs) c (valid_payloads lib (take n ps)) = Some (rt_frames st) \<and>
    (\<forall>i < n. goes_on_at (receiver libs lib ops q tok) g t0 timeout (take i ps) (ps ! i)) \<and>
    (n = length ps \<longrightarrow> rt_end st = None) \<and>
    (n < length ps \<longrightarrow>
       (\<exists>stop. stops_at (receiver libs lib ops q tok) g t0 timeout (take n ps) (ps ! n) stop \<and>
          (if stop = StopTimeout \<and> Suc n = length ps then rt_end st = None \<and> tok \<in> set (rt_calls st)
           else rt_end st = Some (stop_end stop))))"
proof -
  let ?env = "receiver libs lib ops q tok"
  obtain st n where r: "run_result ?env due g c t0 timeout (recv_task_new ops t0 c timeout []) ps st n"
    using receiver_run [OF assms] by blast
  have tl: "token_laws (re_query ?env)" using assms(2) by (simp add: receiver_def)
  have env: "re_decode ?env = codec_decode libs" "re_rtp ?env = lib" "re_token ?env = tok"
    by (simp_all add: receiver_def)
  have run: "n \<le> length ps" "rtp_receive_task ?env ps (recv_task_new ops t0 c timeout []) = Some st"
    "\<forall>i < n. goes_on_at ?env g t0 timeout (take i ps) (ps ! i)"
    using r by (simp_all add: run_result_def)
  show ?thesis
    using run run_result_frames [OF r tl, unfolded env]
    by (intro exI [of _ st] exI [of _ n]) simp
qed

text \<open>C24.
  The media timeout.  When the polls \<open>ps\<close> leave the task alone (no cancellation, no socket error,
  no closed channel, each poll before the deadline) and the next poll comes with no valid packet
  for the timeout and the timer's granularity, the task cancels its token at that poll, whatever
  datagrams that are not RTP packets have arrived meanwhile, and stops at the poll after it without
  a further frame.\<close>

theorem receive_timeout_cancels:
  fixes libs :: "'e codec_libs" and ops :: "'z sleep_ops"
  assumes "sleep_laws ops due g" and "token_laws q" and "t0 + timeout < INSTANT_LIMIT"
    and "list_all (\<lambda>p. rp_now p + timeout < INSTANT_LIMIT) (ps @ p # rest)"
    and "\<not> q (calls_until (ps @ [p])) tok"
    and "\<forall>i < length ps. rp_now (ps ! i) < last_activity lib t0 (take i ps) + timeout \<and>
           rp_gone (ps ! i) = False \<and> (\<forall>e. rp_socket (ps ! i) \<noteq> Some (Inl e))"
    and "last_activity lib t0 ps + timeout + g \<le> rp_now p"
  shows "\<exists>st. rtp_receive_task (receiver libs lib ops q tok) (ps @ p # rest) (recv_task_new ops t0 c timeout [])
      = Some st \<and>
    decoded_frames (codec_decode libs) c (valid_payloads lib ps) = Some (rt_frames st) \<and>
    (if rest = [] then rt_end st = None \<and> tok \<in> set (rt_calls st) else rt_end st = Some RecvCancelled)"
proof -
  let ?env = "receiver libs lib ops q tok" and ?ps = "ps @ p # rest"
  obtain st n where r: "run_result ?env due g c t0 timeout (recv_task_new ops t0 c timeout []) ?ps st n"
    using receiver_run [OF assms(1-4)] by blast
  have env: "re_decode ?env = codec_decode libs" "re_rtp ?env = lib" "re_token ?env = tok" "re_query ?env = q"
    by (simp_all add: receiver_def)
  note frames = run_result_frames [OF r, unfolded env, OF assms(2)]
  have "\<not> n < length ps"
  proof
    assume n: "n < length ps"
    then obtain stop where stop: "stops_at ?env g t0 timeout (take n ?ps) (?ps ! n) stop"
      using frames(3) by auto
    have "take n ?ps = take n ps" "?ps ! n = ps ! n" using n by (simp_all add: nth_append)
    moreover have "calls_until (ps @ [p]) = calls_until (take n ps @ [ps ! n]) @ calls_until (drop (Suc n) ps @ [p])"
      by (subst (1) id_take_nth_drop [OF n]) (simp add: calls_until_def)
    then have "\<not> q (calls_until (take n ps @ [ps ! n])) tok"
      using assms(5) token_append [OF assms(2)] by metis
    ultimately show False
      using stop assms(6) n by (cases stop) (auto simp: stops_at_def env not_less [symmetric])
  qed
  moreover have "\<not> length ps < n"
  proof
    assume "length ps < n"
    then have "goes_on_at ?env g t0 timeout (take (length ps) ?ps) (?ps ! length ps)"
      using r by (simp only: run_result_def)
    then show False using assms(7) by (simp add: goes_on_at_def env)
  qed
  ultimately have n: "n = length ps" by simp
  then obtain stop where "stops_at ?env g t0 timeout ps p stop"
      "if stop = StopTimeout \<and> rest = [] then rt_end st = None \<and> tok \<in> set (rt_calls st)
       else rt_end st = Some (stop_end stop)"
    using frames(3) by auto
  moreover from this(1) have "stop = StopTimeout"
    using assms(5,7) by (cases stop) (auto simp: stops_at_def env)
  ultimately show ?thesis
    using r frames(1) n by (auto simp: run_result_def)
qed

text \<open>Polls for the witnesses: one packet of two \<open>\<mu>\<close>-law bytes, then a datagram that is no packet.\<close>

definition packet_poll :: "nat \<Rightarrow> recv_poll" where
  "packet_poll t = \<lparr>rp_now = t, rp_calls = [],
     rp_socket = Some (Inr [0x80, 0, 0, 1, 0, 0, 0, 160, 0, 0, 0, 7, 0xFF, 0x7F]), rp_gone = False\<rparr>"

definition junk_poll :: "nat \<Rightarrow> recv_poll" where
  "junk_poll t = \<lparr>rp_now = t, rp_calls = [], rp_socket = Some (Inr [1, 2, 3]), rp_gone = False\<rparr>"

lemma sample_payloads:
  "poll_payload plain_rtp_lib (packet_poll t) = Some [0xFF, 0x7F]"
  "poll_payload plain_rtp_lib (junk_poll t) = None"
  by (simp_all add: poll_payload_def packet_poll_def junk_poll_def RECV_BUFFER_def parse_rtp_packet_def
      plain_rtp_lib_def)

theorem receive_task_spec_witness:
  "\<exists>st n. n \<le> length [packet_poll 10, junk_poll 50] \<and>
    rtp_receive_task (receiver (undefined :: unit codec_libs) plain_rtp_lib exact_sleep tree_query (RootToken 0))
      [packet_poll 10, junk_poll 50] (recv_task_new exact_sleep 0 PcmuCodec 30 []) = Some st \<and>
    decoded_frames (codec_decode (undefined :: unit codec_libs)) PcmuCodec
      (valid_payloads plain_rtp_lib (take n [packet_poll 10, junk_poll 50])) = Some (rt_frames st)"
proof -
  have "list_all (\<lambda>p. rp_now p + 30 < INSTANT_LIMIT) [packet_poll 10, junk_poll 50]" "0 + 30 < INSTANT_LIMIT"
    by (simp_all add: packet_poll_def junk_poll_def INSTANT_LIMIT_def)
  from receive_task_spec [OF exact_sleep_laws [of 0] tree_query_laws this(2) this(1),
      of "undefined :: unit codec_libs" plain_rtp_lib "RootToken 0" PcmuCodec]
  show ?thesis by (elim exE conjE) (intro exI conjI)
qed

theorem receive_timeout_cancels_witness:
  "\<exists>st. rtp_receive_task (receiver (undefined :: unit codec_libs) plain_rtp_lib exact_sleep tree_query (RootToken 0))
      [packet_poll 10, junk_poll 50] (recv_task_new exact_sleep 0 PcmuCodec 30 []) = Some st \<and>
    RootToken 0 \<in> set (rt_calls st) \<and> rt_end st = None"
proof -
  let ?q = "packet_poll 10" and ?j = "junk_poll 50"
  have 1: "0 + 30 < INSTANT_LIMIT" "list_all (\<lambda>p. rp_now p + 30 < INSTANT_LIMIT) ([?q] @ ?j # [])"
    by (simp_all add: packet_poll_def junk_poll_def INSTANT_LIMIT_def)
  have 2: "\<not> tree_query (calls_until ([?q] @ [?j])) (RootToken 0)"
    by (simp add: tree_query_def calls_until_def packet_poll_def junk_poll_def)
  have 3: "\<forall>i < length [?q]. rp_now ([?q] ! i) < last_activity plain_rtp_lib 0 (take i [?q]) + 30 \<and>
      rp_gone ([?q] ! i) = False \<and> (\<forall>e. rp_socket ([?q] ! i) \<noteq> Some (Inl e))"
    by (simp add: packet_poll_def)
  have 4: "last_activity plain_rtp_lib 0 [?q] + 30 + 0 \<le> rp_now ?j"
    by (simp add: sample_payloads) (simp add: packet_poll_def junk_poll_def)
  show ?thesis
    using receive_timeout_cancels [OF exact_sleep_laws tree_query_laws 1 2 3 4,
        of "undefined :: unit codec_libs" PcmuCodec] by auto
qed

section \<open>The send task\<close>

lemma timing_record_counts [simp]: "counter_delta k (fst (timing_metric_record t m)) = 0"
  by (simp add: timing_metric_record_def Let_def split: option.split)

lemma rtp_counters_differ [simp]: "rtp_packets_sent \<noteq> rtp_send_errors" "rtp_send_errors \<noteq> rtp_packets_sent"
  by (simp_all add: metric_handle_defs metric_name_defs)

lemma send_task_append:
  "rtp_send_task env (xs @ ys) st =
     (case rtp_send_task env xs st of None \<Rightarrow> None | Some u \<Rightarrow> rtp_send_task env ys u)"
  by (induction xs arbitrary: st) (auto split: option.splits)

lemma send_task_ended: "sd_end st \<noteq> None \<Longrightarrow> rtp_send_task env evs st = Some st"
  by (induction evs) (auto simp: send_round_def)

text \<open>The payloads that are worth a packet.\<close>

definition sendable :: "u8 list list \<Rightarrow> u8 list list" where
  "sendable = filter (\<lambda>payload. payload \<noteq> [])"

lemma sendable_simps [simp]:
  "sendable [] = []" "sendable (xs @ ys) = sendable xs @ sendable ys"
  "sendable [x] = (if x = [] then [] else [x])"
  by (simp_all add: sendable_def)

definition stream_packets :: "rtp_send_state \<Rightarrow> u8 list list \<Rightarrow> raw_rtp_packet list" where
  "stream_packets st payloads = map2 raw_of (rtp_headers (length payloads) st) payloads"

lemma length_rtp_headers [simp]: "length (rtp_headers n st) = n"
  by (simp add: rtp_headers_def)

lemma stream_packets_snoc [simp]:
  "stream_packets st [] = []"
  "stream_packets st (xs @ [x]) = stream_packets st xs @ [raw_of (header_after (length xs) st) x]"
  by (simp_all add: stream_packets_def rtp_headers_Suc)

lemma length_stream_packets [simp]: "length (stream_packets st xs) = length xs"
  by (simp add: stream_packets_def)

lemma stream_packets_new:
  "map Some (stream_packets (rtp_send_state_new ssrc seq ts pt incr) xs) =
    map (\<lambda>k. Some \<lparr>raw_payload = xs ! k, raw_timestamp = ts + of_nat k * ticks incr,
          raw_sequence = seq + of_nat k, raw_ssrc = ssrc, raw_payload_type = pt\<rparr>) [0..<length xs]"
  by (rule nth_equalityI)
    (simp_all add: stream_packets_def rtp_headers_def raw_of_def header_after_def rtp_send_state_new_def)

text \<open>
  The state of a sender after the frames \<open>fs\<close>: the packets are those of the sendable payloads, one
  header after the other.
\<close>

definition send_core ::
    "'c send_env \<Rightarrow> 'c \<Rightarrow> rtp_send_state \<Rightarrow> audio_frame list \<Rightarrow> 'c send_task \<Rightarrow> bool" where
  "send_core env c0 rtp0 fs st \<longleftrightarrow>
     (let (payloads, c) = encode_all (se_encode env) c0 (map samples fs);
          n = length (sendable payloads)
      in sd_end st = None \<and> sd_codec st = c \<and> sd_rtp st = header_after n rtp0 \<and>
         map (parse_rtp_packet (se_rtp env)) (sd_packets st)
           = map Some (stream_packets rtp0 (sendable payloads)) \<and>
         counter_delta rtp_packets_sent (sd_ops st) = n \<and> counter_delta rtp_send_errors (sd_ops st) = 0)"

lemma send_frame_step:
  assumes lib: "rtp_lib_ok (se_rtp env)" and pt: "st_payload_type rtp0 < 128"
    and core: "send_core env c0 rtp0 fs st"
  shows "\<exists>st'. send_frame env f t None st = Some st' \<and> send_core env c0 rtp0 (fs @ [f]) st'"
    and "fst (se_encode env (sd_codec st) (samples f)) \<noteq> [] \<Longrightarrow>
      \<exists>st'. send_frame env f t (Some e) st = Some st' \<and> sd_end st' = Some (SendError e) \<and>
        sd_packets st' = sd_packets st \<and> sd_ops st' = sd_ops st @ [CounterIncrement rtp_send_errors 1]"
proof -
  obtain payloads c where enc: "encode_all (se_encode env) c0 (map samples fs) = (payloads, c)"
    by (cases "encode_all (se_encode env) c0 (map samples fs)")
  let ?n = "length (sendable payloads)"
  have st: "sd_end st = None" "sd_codec st = c" "sd_rtp st = header_after ?n rtp0"
    "map (parse_rtp_packet (se_rtp env)) (sd_packets st)
       = map Some (stream_packets rtp0 (sendable payloads))"
    "counter_delta rtp_packets_sent (sd_ops st) = ?n" "counter_delta rtp_send_errors (sd_ops st) = 0"
    using core by (simp_all add: send_core_def enc Let_def)
  obtain p d where p: "se_encode env c (samples f) = (p, d)" by (cases "se_encode env c (samples f)")
  have enc': "encode_all (se_encode env) c0 (map samples (fs @ [f])) = (payloads @ [p], d)"
    using encode_all_snoc [OF enc p] by simp
  obtain packet where packet: "build_rtp_packet (se_rtp env) p (header_after ?n rtp0) = Some packet"
    "parse_rtp_packet (se_rtp env) packet = Some (raw_of (header_after ?n rtp0) p)"
    using build_parse [OF lib, of "header_after ?n rtp0" p] pt by auto
  show "\<exists>st'. send_frame env f t None st = Some st' \<and> send_core env c0 rtp0 (fs @ [f]) st'"
  proof (cases "p = []")
    case True
    then show ?thesis unfolding send_core_def enc' using st p by (simp add: send_frame_def Let_def)
  next
    case False
    then show ?thesis unfolding send_core_def enc' using st p packet
      by (simp add: send_frame_def rtp_next_header rtp_headers_Suc case_prod_beta Let_def)
  qed
  show "\<exists>st'. send_frame env f t (Some e) st = Some st' \<and> sd_end st' = Some (SendError e) \<and>
      sd_packets st' = sd_packets st \<and> sd_ops st' = sd_ops st @ [CounterIncrement rtp_send_errors 1]"
    if "fst (se_encode env (sd_codec st) (samples f)) \<noteq> []"
    using that st p packet by (simp add: send_frame_def rtp_next_header case_prod_beta Let_def)
qed

lemma send_frames:
  assumes lib: "rtp_lib_ok (se_rtp env)" and pt: "st_payload_type rtp0 < 128"
    and core: "send_core env c0 rtp0 [] st0"
  shows "\<exists>st. rtp_send_task env (map (\<lambda>(f, t). FrameReady f t None) fts) st0 = Some st \<and>
    send_core env c0 rtp0 (map fst fts) st"
proof (induction fts rule: rev_induct)
  case Nil
  then show ?case using core by simp
next
  case (snoc ft fts)
  then obtain st where st: "rtp_send_task env (map (\<lambda>(f, t). FrameReady f t None) fts) st0 = Some st"
    "send_core env c0 rtp0 (map fst fts) st"
    by blast
  obtain f t where ft: "ft = (f, t)" by (cases ft)
  obtain st' where "send_frame env f t None st = Some st'" "send_core env c0 rtp0 (map fst (fts @ [ft])) st'"
    using send_frame_step(1) [OF lib pt st(2), of f t] ft by auto
  moreover have "sd_end st = None" using st(2) by (simp add: send_core_def case_prod_beta Let_def)
  ultimately show ?case
    using st(1) by (simp add: send_task_append ft send_round_def)
qed

lemma send_task_new_core:
  "send_core env c (rtp_send_state_new ssrc seq ts pt incr) [] (send_task_new ssrc seq ts pt incr c)"
  by (simp add: send_core_def send_task_new_def rtp_headers_def)

text \<open>C11.
  The packets of a sender.  While the sends succeed, every frame is encoded in order by the one
  codec, each non-empty payload becomes one packet, and the packets read back as these payloads
  with consecutive sequence numbers, timestamps one clock step apart, and the source and payload
  type of the session; an empty payload uses up no sequence number and no timestamp.  One counter
  counts the packets, the other stays at zero, and the task does not stop by itself.\<close>

theorem send_task_stream:
  fixes libs :: "'e codec_libs"
  assumes "rtp_lib_ok lib" and "pt < 128"
  shows "\<exists>st. rtp_send_task (sender libs lib) (map (\<lambda>(f, t). FrameReady f t None) fts)
      (send_task_new ssrc seq ts pt incr c) = Some st \<and> sd_end st = None \<and>
    (let payloads = sendable (fst (encode_all (codec_encode libs) c (map (samples \<circ> fst) fts)))
     in map (parse_rtp_packet lib) (sd_packets st) =
          map (\<lambda>k. Some \<lparr>raw_payload = payloads ! k, raw_timestamp = ts + of_nat k * ticks incr,
                raw_sequence = seq + of_nat k, raw_ssrc = ssrc, raw_payload_type = pt\<rparr>) [0..<length payloads] \<and>
        counter_delta rtp_packets_sent (sd_ops st) = length payloads \<and>
        counter_delta rtp_send_errors (sd_ops st) = 0)"
proof -
  let ?rtp = "rtp_send_state_new ssrc seq ts pt incr"
  have ok: "rtp_lib_ok (se_rtp (sender libs lib))" "st_payload_type ?rtp < 128"
    using assms by (simp_all add: sender_def rtp_send_state_new_def)
  obtain st where st: "rtp_send_task (sender libs lib) (map (\<lambda>(f, t). FrameReady f t None) fts)
      (send_task_new ssrc seq ts pt incr c) = Some st" "send_core (sender libs lib) c ?rtp (map fst fts) st"
    using send_frames [OF ok send_task_new_core] by blast
  then show ?thesis
    by (intro exI [of _ st]) (simp add: sender_def send_core_def stream_packets_new case_prod_beta Let_def)
qed

theorem send_task_stream_witness:
  "\<exists>st. rtp_send_task (sender (undefined :: unit codec_libs) plain_rtp_lib)
      (map (\<lambda>(f, t). FrameReady f t None) [(\<lparr>samples = [0, 0, 0, 0]\<rparr>, 0), (\<lparr>samples = []\<rparr>, 7), (\<lparr>samples = [0, 0]\<rparr>, 20)])
      (send_task_new 1 65535 2 0 (TimestampIncrement 160) PcmuCodec) = Some st \<and>
    counter_delta rtp_packets_sent (sd_ops st) = 2"
proof -
  let ?fts = "[(\<lparr>samples = [0, 0, 0, 0 :: i16]\<rparr>, 0 :: nat), (\<lparr>samples = []\<rparr>, 7), (\<lparr>samples = [0, 0]\<rparr>, 20)]"
  have "sendable (fst (encode_all (codec_encode (undefined :: unit codec_libs)) PcmuCodec (map (samples \<circ> fst) ?fts)))
      = [[0xFF, 0xFF], [0xFF]]"
    by code_simp
  then show ?thesis
    using send_task_stream [OF plain_rtp_lib_ok, of 0 "undefined :: unit codec_libs" ?fts 1 65535 2
        "TimestampIncrement 160" PcmuCodec] by (auto simp: Let_def)
qed

text \<open>
  A failing send ends the task: the packet is not counted as sent, one send error is counted, and
  whatever comes later the task sends nothing and changes nothing more.\<close>

lemma send_error_stops_task:
  fixes libs :: "'e codec_libs"
  assumes "rtp_lib_ok lib" and "pt < 128"
    and "rtp_send_task (sender libs lib) (map (\<lambda>(f, t). FrameReady f t None) fts)
           (send_task_new ssrc seq ts pt incr c) = Some st"
    and "fst (codec_encode libs (sd_codec st) (samples f)) \<noteq> []"
  shows "\<exists>st'. rtp_send_task (sender libs lib) (map (\<lambda>(f, t). FrameReady f t None) fts @ FrameReady f t (Some e) # rest)
      (send_task_new ssrc seq ts pt incr c) = Some st' \<and> sd_end st' = Some (SendError e) \<and>
    sd_packets st' = sd_packets st \<and>
    counter_delta rtp_packets_sent (sd_ops st') = length (sd_packets st) \<and>
    counter_delta rtp_send_errors (sd_ops st') = 1"
proof -
  let ?rtp = "rtp_send_state_new ssrc seq ts pt incr" and ?env = "sender libs lib"
  have ok: "rtp_lib_ok (se_rtp ?env)" "st_payload_type ?rtp < 128" "se_encode ?env = codec_encode libs"
    using assms by (simp_all add: sender_def rtp_send_state_new_def)
  have core: "send_core ?env c ?rtp (map fst fts) st"
    using send_frames [OF ok(1,2) send_task_new_core, of fts c] assms(3) by auto
  obtain st' where st': "send_frame ?env f t (Some e) st = Some st'" "sd_end st' = Some (SendError e)"
    "sd_packets st' = sd_packets st" "sd_ops st' = sd_ops st @ [CounterIncrement rtp_send_errors 1]"
    using send_frame_step(2) [OF ok(1,2) core, of f t e] assms(4) ok(3) by auto
  have "length (map (parse_rtp_packet lib) (sd_packets st)) = counter_delta rtp_packets_sent (sd_ops st)"
    and counts: "counter_delta rtp_send_errors (sd_ops st) = 0" "sd_end st = None"
    using core by (simp_all add: send_core_def case_prod_beta Let_def sender_def)
  then show ?thesis
    using st' assms(3) by (simp add: send_task_append send_round_def send_task_ended)
qed

lemma send_panics_wide:
  assumes "rtp_lib_ok lib" and "128 \<le> pt" and "fst (codec_encode libs c (samples f)) \<noteq> []"
  shows "rtp_send_task (sender libs lib) (FrameReady f t err # rest) (send_task_new ssrc seq ts pt incr c) = None"
proof -
  have "build_rtp_packet lib p (sd_rtp (send_task_new ssrc seq ts pt incr c)) = None" for p
    by (rule build_panics [OF assms(1)]) (use assms(2) in \<open>simp add: send_task_new_def rtp_send_state_new_def not_less\<close>)
  moreover have "sd_codec (send_task_new ssrc seq ts pt incr c) = c" "sd_end (send_task_new ssrc seq ts pt incr c) = None"
    by (simp_all add: send_task_new_def)
  ultimately show ?thesis
    using assms(3) by (simp add: send_round_def send_frame_def sender_def case_prod_beta rtp_next_def Let_def)
qed

text \<open>An offer of L16 under the payload type 200.\<close>

definition wide_sdp :: session_description where
  "wide_sdp = \<lparr>sd_connection = Some (IpV4 10 0 0 1),
     sd_media_descriptions =
       [\<lparr>md_media = Audio, md_port = 4000, md_fmt = ''200'', md_connections = [],
         md_attributes = [Rtpmap \<lparr>rm_payload_type = 200, rm_encoding_name = ''L16'', rm_clock_rate = 16000\<rparr>]\<rparr>]\<rparr>"

lemma wide_offer:
  "parse_sdp_offer fs (\<lambda>_. Inr wide_sdp) body =
     Inr \<lparr>peer_addr = IpV4 10 0 0 1, peer_port = 4000, payload_type = 200, offer_codec_kind = L16\<rparr>"
proof -
  have "parse_sdp_offer \<lparr>feat_opus = a, feat_g722 = b\<rparr> (\<lambda>_. Inr wide_sdp) body =
     Inr \<lparr>peer_addr = IpV4 10 0 0 1, peer_port = 4000, payload_type = 200, offer_codec_kind = L16\<rparr>" for a b
    unfolding parse_sdp_offer_def by (cases a; cases b; simp only:; code_simp)
  then show ?thesis by (cases fs) simp
qed

text \<open>C40.
  An offer can make the send task panic.  There is an offer, which every build accepts, whose payload
  type has eight bits, one more than an RTP header holds; the send task of a session made of it
  panics at the first frame that has a sample.\<close>

theorem send_panics_on_wide_payload_type:
  assumes "rtp_lib_ok lib" and "samples f \<noteq> []"
  shows "\<exists>parse off c. parse_sdp_offer fs parse body = Inr off \<and> codec_create libs n (offer_codec_kind off) = Inr c \<and>
    rtp_send_task (sender libs lib) (FrameReady f t err # rest)
      (send_task_new ssrc seq ts (payload_type off) (codec_rtp_timestamp_increment c) c) = None"
proof -
  have "fst (codec_encode libs L16Codec (samples f)) \<noteq> []"
    using assms(2) by (simp add: l16_encode_empty_iff)
  from send_panics_wide [OF assms(1) _ this, of 200] show ?thesis
    by (intro exI [of _ "\<lambda>_. Inr wide_sdp"] exI [of _ "L16Codec"]) (simp add: wide_offer)
qed

theorem send_panics_on_wide_payload_type_witness:
  "\<exists>parse off c. parse_sdp_offer \<lparr>feat_opus = False, feat_g722 = False\<rparr> parse [] = Inr off \<and>
     codec_create (undefined :: unit codec_libs) 0 (offer_codec_kind off) = Inr c \<and>
     rtp_send_task (sender (undefined :: unit codec_libs) plain_rtp_lib) [FrameReady \<lparr>samples = [0, 0]\<rparr> 20 None]
       (send_task_new 1 2 3 (payload_type off) (codec_rtp_timestamp_increment c) c) = None"
  by (rule send_panics_on_wide_payload_type [OF plain_rtp_lib_ok]) simp

section \<open>Construction\<close>

text \<open>
  A session is made of the offer it answers: its two codecs are of the offered kind, and its
  answer is the one for the offered payload type and kind on the local RTP port; making it changes
  no socket.  It fails only for an Opus offer, with the engine's error, and then both sockets of
  the pair are free again.\<close>

lemma media_session_new_spec:
  fixes libs :: "'e codec_libs"
  assumes "udp_laws os free addr"
  shows "case media_session_new libs n os sid sp ip offer tok timeout w of
      (Inr s, w') \<Rightarrow> w' = w \<and> codec_kind_of (recv_codec s) = offer_codec_kind offer \<and>
        codec_kind_of (send_codec s) = offer_codec_kind offer \<and> cancel_token s = tok \<and>
        media_receive_timeout s = timeout \<and> rtp_socket_pair s = sp \<and>
        session_sdp_answer s = generate_sdp_answer ip (Ports.rtp_port (port_pair sp)) sid
          \<lparr>oc_payload_type = payload_type offer, oc_kind = offer_codec_kind offer\<rparr>
    | (Inl e, w') \<Rightarrow> offer_codec_kind offer = Opus \<and> err_kind e = Opus \<and>
        (opus_new libs n = Inl (err_reason e) \<or> opus_new libs (n + 1) = Inl (err_reason e)) \<and>
        free w' = free w \<union> {addr (rtp_socket sp), addr (rtcp_socket sp)}"
proof -
  have drop: "free (socket_pair_drop os sp w) = free w \<union> {addr (rtp_socket sp), addr (rtcp_socket sp)}"
    using assms by (auto simp: udp_laws_def socket_pair_drop_def)
  show ?thesis
  proof (cases "codec_create libs n (offer_codec_kind offer)")
    case (Inl e)
    then show ?thesis using drop codec_create_error [OF Inl] by (simp add: media_session_new_def)
  next
    case r: (Inr rc)
    show ?thesis
    proof (cases "codec_create libs (n + 1) (offer_codec_kind offer)")
      case (Inl e)
      then show ?thesis using r drop codec_create_error [OF Inl] by (simp add: media_session_new_def)
    next
      case (Inr sc)
      then show ?thesis
        using r codec_create_kind [OF r] codec_create_kind [OF Inr]
        by (simp add: media_session_new_def session_sdp_answer_def)
    qed
  qed
qed

text \<open>An Opus engine whose decoder cannot be made, used by the witnesses.\<close>

definition failing_opus :: "unit codec_libs" where
  "failing_opus = \<lparr>opus_encoder_new = (\<lambda>_ _. Inr ()), opus_decoder_new = (\<lambda>_ _. Inl ''no memory''),
     opus_lib_encode = (\<lambda>e _ out. (Inr 0, out, e)), opus_lib_decode = (\<lambda>e _ out _. (Inr 0, out, e)),
     g722_encoder_new = (), g722_decoder_new = (),
     g722_lib_encode = (\<lambda>e _. ([], e)), g722_lib_decode = (\<lambda>e _. ([], e))\<rparr>"

end
