(* ===== verification/ServerState.thy ===== *)
theory ServerState
  imports Ports Cancel
begin

text \<open>
  The configuration and the shared state of \<open>server.rs\<close>, and the flag that says whether \<open>OPTIONS\<close>
  requests are answered.  Durations are nanoseconds.  The cursor of the port range, an atomic of
  the source, is a field of the state that an operation returns updated.
\<close>

record server_config =
  cfg_port :: u16
  cfg_bind_addr :: "ip_addr option"
  cfg_external_ip :: "ip_addr option"
  cfg_min_port :: u16
  cfg_max_port :: u16
  cfg_media_receive_timeout :: nat

definition server_config_default :: server_config where
  "server_config_default =
     \<lparr>cfg_port = 5060, cfg_bind_addr = None, cfg_external_ip = None, cfg_min_port = 10000,
      cfg_max_port = 10099, cfg_media_receive_timeout = 30 * 10 ^ 9\<rparr>"

record server_state =
  local_ip_addr :: ip_addr
  external_ip :: "ip_addr option"
  port_range :: rtp_port_range
  server_token :: token
  state_media_timeout :: nat

definition media_ip :: "server_state \<Rightarrow> ip_addr" where
  "media_ip s = (case external_ip s of Some ip \<Rightarrow> ip | None \<Rightarrow> local_ip_addr s)"

datatype respond_to_options = RespondToOptions bool

primrec options_enabled :: "respond_to_options \<Rightarrow> bool" where
  "options_enabled (RespondToOptions b) = b"

definition options_set :: "bool \<Rightarrow> respond_to_options \<Rightarrow> respond_to_options" where
  "options_set enabled r = RespondToOptions enabled"

end
