(* ===== verification/Utf8.thy ===== *)
theory Utf8
  imports RustStr
begin

text \<open>
  \<open>String::from_utf8_lossy\<close> of the standard library: well-formed UTF-8 is kept, and each maximal
  ill-formed piece becomes one U+FFFD.
\<close>

definition cont_byte :: "u8 \<Rightarrow> bool" where
  "cont_byte b \<longleftrightarrow> 0x80 \<le> b \<and> b \<le> 0xBF"

text \<open>Whether \<open>c\<close> may follow the lead byte \<open>b\<close> of a sequence of three or four bytes.\<close>

definition second_byte_ok :: "u8 \<Rightarrow> u8 \<Rightarrow> bool" where
  "second_byte_ok b c \<longleftrightarrow>
     (if b = 0xE0 then 0xA0 \<le> c \<and> c \<le> 0xBF
      else if b = 0xED then 0x80 \<le> c \<and> c \<le> 0x9F
      else if b = 0xF0 then 0x90 \<le> c \<and> c \<le> 0xBF
      else if b = 0xF4 then 0x80 \<le> c \<and> c \<le> 0x8F
      else cont_byte c)"

text \<open>Is the next piece well formed, and how many bytes does it have?\<close>

definition utf8_piece :: "u8 \<Rightarrow> u8 list \<Rightarrow> bool \<times> nat" where
  "utf8_piece b bs =
     (if b < 0x80 then (True, 1)
      else if 0xC2 \<le> b \<and> b \<le> 0xDF then
        (case bs of c # _ \<Rightarrow> if cont_byte c then (True, 2) else (False, 1) | [] \<Rightarrow> (False, 1))
      else if 0xE0 \<le> b \<and> b \<le> 0xEF then
        (case bs of
           c # cs \<Rightarrow>
             if second_byte_ok b c
             then (case cs of d # _ \<Rightarrow> if cont_byte d then (True, 3) else (False, 2) | [] \<Rightarrow> (False, 2))
             else (False, 1)
         | [] \<Rightarrow> (False, 1))
      else if 0xF0 \<le> b \<and> b \<le> 0xF4 then
        (case bs of
           c # cs \<Rightarrow>
             if second_byte_ok b c
             then (case cs of
                     d # ds \<Rightarrow>
                       if cont_byte d
                       then (case ds of e # _ \<Rightarrow> if cont_byte e then (True, 4) else (False, 3) | [] \<Rightarrow> (False, 3))
                       else (False, 2)
                   | [] \<Rightarrow> (False, 2))
             else (False, 1)
         | [] \<Rightarrow> (False, 1))
      else (False, 1))"

definition char_of_byte :: "u8 \<Rightarrow> char" where
  "char_of_byte b = char_of (unat b)"

definition byte_of_char :: "char \<Rightarrow> u8" where
  "byte_of_char c = of_nat (of_char c)"

definition replacement :: string where
  "replacement = [CHR 0xEF, CHR 0xBF, CHR 0xBD]"

lemma utf8_piece_pos: "0 < snd (utf8_piece b bs)"
  by (simp add: utf8_piece_def split: list.splits)

function from_utf8_lossy :: "u8 list \<Rightarrow> string" where
  "from_utf8_lossy [] = []"
| "from_utf8_lossy (b # bs) =
     (let (ok, n) = utf8_piece b bs
      in (if ok then map char_of_byte (take n (b # bs)) else replacement)
         @ from_utf8_lossy (drop n (b # bs)))"
  by pat_completeness auto
termination
proof (relation "measure length")
  fix b bs x ok n
  assume "x = utf8_piece b bs" "(ok, n) = x"
  then have "0 < n" using utf8_piece_pos [of b bs] by (metis snd_conv)
  then show "(drop n (b # bs), b # bs) \<in> measure length" by simp
qed auto

text \<open>\<open>String::into_bytes\<close>.\<close>

definition into_bytes :: "string \<Rightarrow> u8 list" where
  "into_bytes = map byte_of_char"

lemma char_of_byte_of_char [simp]: "char_of_byte (byte_of_char c) = c"
proof -
  have "of_char c < (256 :: nat)" using of_char_mod_256 [of c, where 'a = nat] by (metis mod_less_divisor zero_less_numeral)
  then show ?thesis by (simp add: char_of_byte_def byte_of_char_def unat_of_nat)
qed

text \<open>ASCII text goes through unchanged.\<close>

definition ascii :: "char \<Rightarrow> bool" where
  "ascii c \<longleftrightarrow> (of_char c :: nat) < 128"

lemma ascii_byte: "ascii c \<Longrightarrow> byte_of_char c < 0x80"
  by (simp add: ascii_def byte_of_char_def word_less_nat_alt unat_of_nat)

lemma from_utf8_lossy_ascii: "list_all ascii s \<Longrightarrow> from_utf8_lossy (into_bytes s) = s"
proof (induction s)
  case Nil
  then show ?case by (simp add: into_bytes_def)
next
  case (Cons c s)
  then have "utf8_piece (byte_of_char c) (into_bytes s) = (True, 1)"
    using ascii_byte [of c] by (simp add: utf8_piece_def)
  then show ?case using Cons by (simp add: into_bytes_def)
qed

lemma printable_ascii: "printable c \<Longrightarrow> ascii c"
  by (simp add: printable_def ascii_def)

end
