(* ===== verification/CallHandler.thy ===== *)
theory CallHandler
  imports Session ServerState Utf8
begin

text \<open>
  \<open>call_handler.rs\<close>: one incoming call.  The dialog is an object of the SIP library: what the
  handler asks of it, and everything else it does, is a list of effects in program order, and what
  the library answers is part of the environment \<open>call_env\<close>, with the other parameters of the call
  (random numbers, the time, the engines, the sockets).

  \<open>handle_call\<close> waits once, for the dialog's token.  \<open>call_setup\<close> is what it does before that point
  and \<open>call_teardown\<close> what it does after.
\<close>

datatype sip_status =
    StatusOK
  | NotAcceptableHere
  | ServiceUnavailable
  | ServerInternalError
  | CallTransactionDoesNotExist
  | MethodNotAllowed

datatype call_effect =
    Reject sip_status "string option"
  | Ringing
  | Accept "(string \<times> string) list" "u8 list"
  | Metric metric_op
  | SpawnHandler token "(string \<times> string) list"
  | AbortHandler
  | Bye

text \<open>
  The results of \<open>reject\<close> and \<open>accept\<close> are \<open>None\<close> for success, or the error; the errors of \<open>ringing\<close>
  and \<open>bye\<close> are only logged and change nothing.  \<open>ce_codec_call\<close>
  numbers the engine constructors' calls; \<open>ce_child\<close> is the number of the child token.
\<close>

record ('e, 'z, 'w, 's) call_env =
  ce_chk :: bool
  ce_features :: features
  ce_parse :: sdp_parse
  ce_libs :: "'e codec_libs"
  ce_udp :: "('w, 's) udp_ops"
  ce_sleep :: "'z sleep_ops"
  ce_body :: "u8 list"
  ce_headers :: "(string \<times> string) list"
  ce_dialog_token :: token
  ce_child :: nat
  ce_calls :: "token list"
  ce_codec_call :: nat
  ce_session_id :: u64
  ce_now :: nat
  ce_ssrc :: u32
  ce_sequence :: u16
  ce_timestamp :: u32
  ce_reject :: "string option"
  ce_accept :: "string option"

datatype ('e, 'z, 's) call_state =
    Finished "string option"
  | Active "('e, 'z, 's) started_session" scoped_gauge

definition peer_socket_addr_new :: "ip_addr \<Rightarrow> u16 \<Rightarrow> sock_addr" where
  "peer_socket_addr_new ip port = (ip, port)"

text \<open>\<open>self.dialog.reject(..)?\<close> and what follows it.\<close>

definition reject_with ::
    "('e, 'z, 'w, 's) call_env \<Rightarrow> sip_status \<Rightarrow> string option \<Rightarrow> call_effect list \<Rightarrow>
     call_effect list \<times> ('e, 'z, 's) call_state" where
  "reject_with env status reason after =
     (case ce_reject env of
        Some e \<Rightarrow> ([Reject status reason], Finished (Some e))
      | None \<Rightarrow> (Reject status reason # after, Finished None))"

definition sdp_reject_reason :: "sdp_parse_error \<Rightarrow> reject_reason" where
  "sdp_reject_reason e =
     (case e of NoSupportedCodecErr \<Rightarrow> NoSupportedCodec | _ \<Rightarrow> SdpOfferInvalid)"

definition count_rejected :: "reject_reason \<Rightarrow> call_effect" where
  "count_rejected reason = Metric (CounterIncrement (calls_rejected reason) 1)"

text \<open>From the answer to the wait: ringing, accepting, and starting the session and the handler.\<close>

definition accept_call ::
    "('e, 'z, 'w, 's) call_env \<Rightarrow> sdp_offer \<Rightarrow> ('e, 's) media_session \<Rightarrow> 'w \<Rightarrow>
     call_effect list \<times> ('e, 'z, 's) call_state \<times> 'w" where
  "accept_call env offer session w =
     (let sdp_answer = session_sdp_answer session;
          accept = Accept [(''Content-Type'', ''application/sdp'')] (into_bytes sdp_answer)
      in case ce_accept env of
           Some _ \<Rightarrow> ([Ringing, accept], Finished None,
             socket_pair_drop (ce_udp env) (Session.rtp_socket_pair session) w)
         | None \<Rightarrow>
             (let (gauge_ops, guard) = scoped_gauge_new calls_active;
                  (started, w) = media_session_start (ce_udp env) (ce_sleep env) (ce_now env)
                    (ce_ssrc env) (ce_sequence env) (ce_timestamp env) (ce_calls env) session w
              in ([Ringing, accept] @ map Metric gauge_ops
                  @ [Metric (CounterIncrement (calls_accepted (offer_codec_kind offer)) 1),
                     SpawnHandler (ce_dialog_token env) (ce_headers env)],
                  Active started guard, w)))"

text \<open>
  \<open>handle_call\<close> up to its wait.  The result is an outcome because allocating a port pair can
  panic.
\<close>

definition call_setup ::
    "('e, 'z, 'w, 's) call_env \<Rightarrow> server_state \<Rightarrow> 'w \<Rightarrow>
     (call_effect list \<times> ('e, 'z, 's) call_state \<times> server_state \<times> 'w) outcome" where
  "call_setup env state w =
     (let body = from_utf8_lossy (ce_body env)
      in case parse_sdp_offer (ce_features env) (ce_parse env) body of
           Inl e \<Rightarrow>
             (let (effs, res) = reject_with env NotAcceptableHere None [count_rejected (sdp_reject_reason e)]
              in Some (effs, res, state, w))
         | Inr offer \<Rightarrow>
             (case try_allocate_socket_pair (ce_chk env) (ce_udp env) (port_range state) (local_ip_addr state) w of
                None \<Rightarrow> None
              | Some (pair, port_ops, rng, w) \<Rightarrow>
                  (let state = state\<lparr>port_range := rng\<rparr>
                   in case pair of
                        None \<Rightarrow>
                          (let (effs, res) = reject_with env ServiceUnavailable
                                 (Some ''No free RTP/RTCP port pair available'') []
                           in Some (map Metric port_ops @ count_rejected RtpPortPoolExhausted # effs, res, state, w))
                      | Some sp \<Rightarrow>
                          (case socket_pair_connect (ce_udp env) sp (peer_socket_addr_new (peer_addr offer) (peer_port offer)) w of
                             (Inl e, w) \<Rightarrow>
                               (let (effs, res) = reject_with env ServerInternalError
                                      (Some ''Unable to connect to RTP peer'') []
                                in Some (map Metric port_ops @ count_rejected UdpConnectFailed # effs, res, state, w))
                           | (Inr sp, w) \<Rightarrow>
                               (case media_session_new (ce_libs env) (ce_codec_call env) (ce_udp env)
                                       (ce_session_id env) sp (media_ip state) offer
                                       (ChildToken (ce_dialog_token env) (ce_child env))
                                       (state_media_timeout state) w of
                                  (Inl e, w) \<Rightarrow>
                                    (let (effs, res) = reject_with env ServerInternalError
                                           (Some ''Unable to create codec'') []
                                     in Some (map Metric port_ops @ count_rejected CodecInitFailed # effs, res, state, w))
                                | (Inr session, w) \<Rightarrow>
                                    (let (effs, res, w) = accept_call env offer session w
                                     in Some (map Metric port_ops @ effs, res, state, w)))))))"

text \<open>
  \<open>handle_call\<close> after its wait.  The guard of the gauge is dropped when the function returns.
\<close>

definition call_teardown :: "scoped_gauge \<Rightarrow> call_effect list" where
  "call_teardown guard = [AbortHandler, Bye] @ map Metric (scoped_gauge_drop guard)"

text \<open>
  The whole of \<open>handle_call\<close>; \<open>ends\<close> says whether the dialog's token is ever cancelled.  A call whose
  dialog goes on stays active.
\<close>

definition handle_call ::
    "('e, 'z, 'w, 's) call_env \<Rightarrow> bool \<Rightarrow> server_state \<Rightarrow> 'w \<Rightarrow>
     (call_effect list \<times> ('e, 'z, 's) call_state \<times> server_state \<times> 'w) outcome" where
  "handle_call env ends state w =
     (case call_setup env state w of
        None \<Rightarrow> None
      | Some (effs, res, state, w) \<Rightarrow>
          (case res of
             Active started guard \<Rightarrow>
               (if ends then Some (effs @ call_teardown guard, Finished None, state, w)
                else Some (effs, res, state, w))
           | Finished r \<Rightarrow> Some (effs, res, state, w)))"

section \<open>The ways a call can go\<close>

definition offer_of :: "('e, 'z, 'w, 's) call_env \<Rightarrow> sdp_parse_error + sdp_offer" where
  "offer_of env = parse_sdp_offer (ce_features env) (ce_parse env) (from_utf8_lossy (ce_body env))"

definition allocate_of :: "('e, 'z, 'w, 's) call_env \<Rightarrow> server_state \<Rightarrow> 'w \<Rightarrow>
    ('s rtp_socket_pair option \<times> metric_op list \<times> rtp_port_range \<times> 'w) outcome" where
  "allocate_of env state w =
     try_allocate_socket_pair (ce_chk env) (ce_udp env) (port_range state) (local_ip_addr state) w"

definition session_of :: "('e, 'z, 'w, 's) call_env \<Rightarrow> server_state \<Rightarrow> sdp_offer \<Rightarrow> 's rtp_socket_pair \<Rightarrow> 'w \<Rightarrow>
    (codec_init_error + ('e, 's) media_session) \<times> 'w" where
  "session_of env state offer sp w =
     media_session_new (ce_libs env) (ce_codec_call env) (ce_udp env) (ce_session_id env) sp (media_ip state)
       offer (ChildToken (ce_dialog_token env) (ce_child env)) (state_media_timeout state) w"

lemma media_ip_range [simp]: "media_ip (state\<lparr>port_range := r\<rparr>) = media_ip state"
  by (simp add: media_ip_def split: option.split)

lemma call_setup_alt:
  "call_setup env state w =
     (case offer_of env of
        Inl e \<Rightarrow>
          (let (effs, res) = reject_with env NotAcceptableHere None [count_rejected (sdp_reject_reason e)]
           in Some (effs, res, state, w))
      | Inr offer \<Rightarrow>
          (case allocate_of env state w of
             None \<Rightarrow> None
           | Some (None, ops, r, w) \<Rightarrow>
               (let (effs, res) = reject_with env ServiceUnavailable
                      (Some ''No free RTP/RTCP port pair available'') []
                in Some (map Metric ops @ count_rejected RtpPortPoolExhausted # effs, res, state\<lparr>port_range := r\<rparr>, w))
           | Some (Some sp, ops, r, w) \<Rightarrow>
               (case socket_pair_connect (ce_udp env) sp (peer_addr offer, peer_port offer) w of
                  (Inl e, w) \<Rightarrow>
                    (let (effs, res) = reject_with env ServerInternalError (Some ''Unable to connect to RTP peer'') []
                     in Some (map Metric ops @ count_rejected UdpConnectFailed # effs, res, state\<lparr>port_range := r\<rparr>, w))
                | (Inr sp, w) \<Rightarrow>
                    (case session_of env state offer sp w of
                       (Inl e, w) \<Rightarrow>
                         (let (effs, res) = reject_with env ServerInternalError (Some ''Unable to create codec'') []
                          in Some (map Metric ops @ count_rejected CodecInitFailed # effs, res, state\<lparr>port_range := r\<rparr>, w))
                     | (Inr session, w) \<Rightarrow>
                         (let (effs, res, w) = accept_call env offer session w
                          in Some (map Metric ops @ effs, res, state\<lparr>port_range := r\<rparr>, w))))))"
  by (simp add: call_setup_def offer_of_def allocate_of_def session_of_def peer_socket_addr_new_def
      split: sum.split option.split prod.split)

text \<open>
  The six ways a call can go before its wait, with the status and the reason of a rejection.
\<close>

datatype call_way = SdpRejected sdp_parse_error | NoPorts | NoConnection | NoCodec | AcceptFailed | CallAccepted

fun way_response :: "call_way \<Rightarrow> (sip_status \<times> string option \<times> reject_reason) option" where
  "way_response (SdpRejected e) = Some (NotAcceptableHere, None, sdp_reject_reason e)"
| "way_response NoPorts =
     Some (ServiceUnavailable, Some ''No free RTP/RTCP port pair available'', RtpPortPoolExhausted)"
| "way_response NoConnection = Some (ServerInternalError, Some ''Unable to connect to RTP peer'', UdpConnectFailed)"
| "way_response NoCodec = Some (ServerInternalError, Some ''Unable to create codec'', CodecInitFailed)"
| "way_response AcceptFailed = None"
| "way_response CallAccepted = None"

text \<open>Which way a call goes, by the first check that fails.\<close>

definition call_goes :: "('e, 'z, 'w, 's) call_env \<Rightarrow> server_state \<Rightarrow> 'w \<Rightarrow> call_way option" where
  "call_goes env state w =
     (case offer_of env of
        Inl e \<Rightarrow> Some (SdpRejected e)
      | Inr offer \<Rightarrow>
          (case allocate_of env state w of
             None \<Rightarrow> None
           | Some (None, _) \<Rightarrow> Some NoPorts
           | Some (Some sp, _, _, w) \<Rightarrow>
               (case socket_pair_connect (ce_udp env) sp (peer_addr offer, peer_port offer) w of
                  (Inl e, w) \<Rightarrow> Some NoConnection
                | (Inr sp, w) \<Rightarrow>
                    (case session_of env state offer sp w of
                       (Inl e, w) \<Rightarrow> Some NoCodec
                     | (Inr session, w) \<Rightarrow>
                         Some (if ce_accept env = None then CallAccepted else AcceptFailed)))))"

text \<open>The metric operations in a list of effects.\<close>

definition effect_metrics :: "call_effect list \<Rightarrow> metric_op list" where
  "effect_metrics effs = List.map_filter (\<lambda>e. case e of Metric op \<Rightarrow> Some op | _ \<Rightarrow> None) effs"

lemma effect_metrics_simps [simp]:
  "effect_metrics [] = []"
  "effect_metrics (Metric op # effs) = op # effect_metrics effs"
  "effect_metrics (Reject s r # effs) = effect_metrics effs"
  "effect_metrics (Ringing # effs) = effect_metrics effs"
  "effect_metrics (Accept hs b # effs) = effect_metrics effs"
  "effect_metrics (SpawnHandler t hs # effs) = effect_metrics effs"
  "effect_metrics (AbortHandler # effs) = effect_metrics effs"
  "effect_metrics (Bye # effs) = effect_metrics effs"
  "effect_metrics (xs @ ys) = effect_metrics xs @ effect_metrics ys"
  "effect_metrics (map Metric ops) = ops"
proof -
  show app: "effect_metrics (xs @ ys) = effect_metrics xs @ effect_metrics ys" for xs ys
    by (induction xs) (auto simp: effect_metrics_def List.map_filter_simps split: call_effect.splits)
  show "effect_metrics (map Metric ops) = ops"
    by (induction ops) (auto simp: effect_metrics_def List.map_filter_simps)
qed (simp_all add: effect_metrics_def List.map_filter_simps)

primrec is_final :: "call_effect \<Rightarrow> bool" where
  "is_final (Reject _ _) = True"
| "is_final Ringing = False"
| "is_final (Accept _ _) = True"
| "is_final (Metric _) = False"
| "is_final (SpawnHandler _ _) = False"
| "is_final AbortHandler = False"
| "is_final Bye = False"

section \<open>What a call does\<close>

lemma allocate_ops:
  "try_allocate_socket_pair chk os r ip w = Some (res, ops, r', w') \<Longrightarrow>
   gauge_delta g ops = 0 \<and> (c \<noteq> ports_allocation_failures \<longrightarrow> counter_delta c ops = 0)"
proof -
  have "allocate_loop chk os ip n i r w = Some (res, ops, r', w') \<Longrightarrow>
      gauge_delta g ops = 0 \<and> (c \<noteq> ports_allocation_failures \<longrightarrow> counter_delta c ops = 0)" for n i r w
    by (induction chk os ip n i r w rule: allocate_loop.induct) (auto split: option.splits prod.splits)
  then show "try_allocate_socket_pair chk os r ip w = Some (res, ops, r', w') \<Longrightarrow> ?thesis"
    by (auto simp: try_allocate_socket_pair_def split: option.splits)
qed

lemma rejected_not_failures [simp]:
  "calls_rejected k \<noteq> ports_allocation_failures" "calls_accepted c \<noteq> ports_allocation_failures"
  "calls_accepted c \<noteq> calls_rejected k" "calls_rejected k \<noteq> calls_accepted c"
  "calls_active \<noteq> calls_rejected k" "calls_active \<noteq> calls_accepted c"
  "calls_rejected k = calls_rejected k' \<longleftrightarrow> k = k'" "calls_accepted c = calls_accepted c' \<longleftrightarrow> c = c'"
  by (auto simp: metric_handle_defs metric_name_defs reject_reason_str_inject kind_name_inject)

text \<open>The effects of a rejection, around the operations \<open>ops\<close> of the port search.\<close>

definition rejection_effects :: "bool \<Rightarrow> call_way \<Rightarrow> metric_op list \<Rightarrow> call_effect list" where
  "rejection_effects reject_failed way ops =
     (case way_response way of
        None \<Rightarrow> []
      | Some (status, reason, rr) \<Rightarrow>
          (case way of
             SdpRejected _ \<Rightarrow> Reject status reason # (if reject_failed then [] else [count_rejected rr])
           | _ \<Rightarrow> map Metric ops @ [count_rejected rr, Reject status reason]))"

definition accept_effect :: "('e, 's) media_session \<Rightarrow> call_effect" where
  "accept_effect session =
     Accept [(''Content-Type'', ''application/sdp'')] (into_bytes (session_sdp_answer session))"

lemma reject_with_eq:
  "reject_with env s r after =
     (Reject s r # (if ce_reject env = None then after else []), Finished (ce_reject env))"
  by (simp add: reject_with_def split: option.split)

lemma accept_call_eq:
  "accept_call env offer session w =
     (if ce_accept env = None then
        (let (started, w) = media_session_start (ce_udp env) (ce_sleep env) (ce_now env)
               (ce_ssrc env) (ce_sequence env) (ce_timestamp env) (ce_calls env) session w
         in ([Ringing, accept_effect session, Metric (GaugeIncrement calls_active 1),
              Metric (CounterIncrement (calls_accepted (offer_codec_kind offer)) 1),
              SpawnHandler (ce_dialog_token env) (ce_headers env)],
             Active started (ScopedGauge calls_active), w))
      else ([Ringing, accept_effect session], Finished None,
            socket_pair_drop (ce_udp env) (Session.rtp_socket_pair session) w))"
  by (simp add: accept_call_def accept_effect_def scoped_gauge_new_def Let_def split: option.split prod.split)

text \<open>Every way, with its effects, its result and its sockets.\<close>

lemma call_setup_cases:
  assumes "call_setup env state w = Some (effs, res, state', w')"
  obtains (sdp) e where "offer_of env = Inl e" "call_goes env state w = Some (SdpRejected e)"
      "effs = rejection_effects (ce_reject env \<noteq> None) (SdpRejected e) []"
      "res = Finished (ce_reject env)" "state' = state" "w' = w"
  | (ports) offer ops r where "offer_of env = Inr offer" "call_goes env state w = Some NoPorts"
      "allocate_of env state w = Some (None, ops, r, w')" "state' = state\<lparr>port_range := r\<rparr>"
      "effs = rejection_effects (ce_reject env \<noteq> None) NoPorts ops" "res = Finished (ce_reject env)"
  | (connect) offer ops r sp w1 e where "offer_of env = Inr offer" "call_goes env state w = Some NoConnection"
      "allocate_of env state w = Some (Some sp, ops, r, w1)" "state' = state\<lparr>port_range := r\<rparr>"
      "socket_pair_connect (ce_udp env) sp (peer_addr offer, peer_port offer) w1 = (Inl e, w')"
      "effs = rejection_effects (ce_reject env \<noteq> None) NoConnection ops" "res = Finished (ce_reject env)"
  | (codec) offer ops r sp w1 sp' w2 e where "offer_of env = Inr offer" "call_goes env state w = Some NoCodec"
      "allocate_of env state w = Some (Some sp, ops, r, w1)" "state' = state\<lparr>port_range := r\<rparr>"
      "socket_pair_connect (ce_udp env) sp (peer_addr offer, peer_port offer) w1 = (Inr sp', w2)"
      "session_of env state offer sp' w2 = (Inl e, w')"
      "effs = rejection_effects (ce_reject env \<noteq> None) NoCodec ops" "res = Finished (ce_reject env)"
  | (answered) offer ops r sp w1 sp' w2 session w3 effs' where "offer_of env = Inr offer"
      "call_goes env state w = Some (if ce_accept env = None then CallAccepted else AcceptFailed)"
      "allocate_of env state w = Some (Some sp, ops, r, w1)" "state' = state\<lparr>port_range := r\<rparr>"
      "socket_pair_connect (ce_udp env) sp (peer_addr offer, peer_port offer) w1 = (Inr sp', w2)"
      "session_of env state offer sp' w2 = (Inr session, w3)"
      "accept_call env offer session w3 = (effs', res, w')" "effs = map Metric ops @ effs'"
proof (cases "offer_of env")
  case (Inl e)
  then show thesis
    using assms by (intro sdp) (auto simp: call_setup_alt call_goes_def reject_with_eq rejection_effects_def)
next
  case offer: (Inr offer)
  obtain pair ops r w1 where alloc: "allocate_of env state w = Some (pair, ops, r, w1)"
    using assms offer by (auto simp: call_setup_alt split: option.splits)
  show thesis
  proof (cases pair)
    case None
    then show thesis
      using assms offer alloc
      by (intro ports) (auto simp: call_setup_alt call_goes_def reject_with_eq rejection_effects_def)
  next
    case (Some sp)
    obtain con w2 where con: "socket_pair_connect (ce_udp env) sp (peer_addr offer, peer_port offer) w1 = (con, w2)"
      by force
    show thesis
    proof (cases con)
      case (Inl e)
      then show thesis
        using assms offer alloc Some con
        by (intro connect) (auto simp: call_setup_alt call_goes_def reject_with_eq rejection_effects_def)
    next
      case sp': (Inr sp')
      obtain ses w3 where ses: "session_of env state offer sp' w2 = (ses, w3)" by force
      show thesis
      proof (cases ses)
        case (Inl e)
        then show thesis
          using assms offer alloc Some con sp' ses
          by (intro codec) (auto simp: call_setup_alt call_goes_def reject_with_eq rejection_effects_def)
      next
        case (Inr session)
        obtain effs' where "accept_call env offer session w3 = (effs', res, w')" "effs = map Metric ops @ effs'"
          "state' = state\<lparr>port_range := r\<rparr>"
          using assms offer alloc Some con sp' ses Inr by (auto simp: call_setup_alt split: prod.splits)
        then show thesis
          using offer alloc Some con sp' ses Inr
          by (intro answered [of offer sp ops r w1 sp' w2 session w3 effs']) (simp_all add: call_goes_def)
      qed
    qed
  qed
qed

lemma no_final_metrics [simp]:
  "filter is_final (map Metric ops) = []" "Ringing \<notin> Metric ` X" "Bye \<notin> Metric ` X"
  "SpawnHandler t hs \<notin> Metric ` X" "AbortHandler \<notin> Metric ` X"
  by (auto simp: filter_empty_conv)

lemma rejection_finals:
  assumes "way_response way = Some (status, reason, rr)"
  shows "filter is_final (rejection_effects b way ops) = [Reject status reason]"
    "Ringing \<notin> set (rejection_effects b way ops)" "Bye \<notin> set (rejection_effects b way ops)"
    "SpawnHandler t hs \<notin> set (rejection_effects b way ops)"
  using assms by (auto simp: rejection_effects_def count_rejected_def split: call_way.splits)

lemma handle_call_rejected:
  assumes "handle_call env ends state w = Some (effs, res, state', w')"
    and "call_goes env state w = Some way" and "way_response way \<noteq> None"
  shows "\<exists>ops. effs = rejection_effects (ce_reject env \<noteq> None) way ops \<and> res = Finished (ce_reject env) \<and>
    (\<forall>g. gauge_delta g ops = 0) \<and> (\<forall>c. c \<noteq> ports_allocation_failures \<longrightarrow> counter_delta c ops = 0)"
proof -
  obtain effs0 res0 s0 w0 where su: "call_setup env state w = Some (effs0, res0, s0, w0)"
    using assms(1) by (auto simp: handle_call_def split: option.splits)
  from su show ?thesis
  proof (cases rule: call_setup_cases)
    case (answered offer ops r sp w1 sp' w2 session w3 effs')
    then show ?thesis using assms(2,3) by (auto split: if_splits)
  qed (use assms(1,2) su in \<open>auto simp: handle_call_def allocate_of_def dest: allocate_ops intro!: exI\<close>)
qed

lemma handle_call_answered:
  assumes "handle_call env ends state w = Some (effs, res, state', w')"
    and "call_goes env state w = Some way" and "way_response way = None"
  shows "\<exists>offer ops body. offer_of env = Inr offer \<and>
    (\<forall>g. gauge_delta g ops = 0) \<and> (\<forall>c. c \<noteq> ports_allocation_failures \<longrightarrow> counter_delta c ops = 0) \<and>
    effs = map Metric ops @ [Ringing, Accept [(''Content-Type'', ''application/sdp'')] body] @
      (if way = CallAccepted then
         [Metric (GaugeIncrement calls_active 1),
          Metric (CounterIncrement (calls_accepted (offer_codec_kind offer)) 1),
          SpawnHandler (ce_dialog_token env) (ce_headers env)]
         @ (if ends then [AbortHandler, Bye, Metric (GaugeDecrement calls_active 1)] else [])
       else []) \<and>
    (if way = CallAccepted \<and> \<not> ends then \<exists>started. res = Active started (ScopedGauge calls_active)
     else res = Finished None)"
proof -
  obtain effs0 res0 s0 w0 where su: "call_setup env state w = Some (effs0, res0, s0, w0)"
    using assms(1) by (auto simp: handle_call_def split: option.splits)
  from su show ?thesis
  proof (cases rule: call_setup_cases)
    case (answered offer ops r sp w1 sp' w2 session w3 effs')
    have "(\<forall>g. gauge_delta g ops = 0) \<and> (\<forall>c. c \<noteq> ports_allocation_failures \<longrightarrow> counter_delta c ops = 0)"
      using answered(3) by (auto simp: allocate_of_def dest: allocate_ops)
    moreover have "way = (if ce_accept env = None then CallAccepted else AcceptFailed)"
      using answered(2) assms(2) by simp
    ultimately show ?thesis
      using assms(1) su answered(1,7,8)
      by (intro exI [of _ offer] exI [of _ ops] exI [of _ "into_bytes (session_sdp_answer session)"])
        (auto simp: accept_effect_def handle_call_def accept_call_eq Let_def call_teardown_def
          split: if_splits prod.splits)
  qed (use assms(2,3) in auto)
qed

lemma handle_call_goes:
  assumes "handle_call env ends state w = Some (effs, res, state', w')"
  shows "\<exists>way. call_goes env state w = Some way"
proof -
  obtain effs0 res0 s0 w0 where su: "call_setup env state w = Some (effs0, res0, s0, w0)"
    using assms by (auto simp: handle_call_def split: option.splits)
  from su show ?thesis by (cases rule: call_setup_cases) auto
qed

text \<open>C1.
  One final response per call.  The way a call goes decides it: a call that fails a check is
  rejected, once, with the status and the reason text of that check, after no ringing and without
  a later BYE; a call that passes them is ringing and then answered, once, with an SDP body.  An
  answered call sends BYE exactly once, when its dialog's token is cancelled, and not if the answer
  could not be sent.\<close>

theorem call_one_final_response:
  assumes "handle_call env ends state w = Some (effs, res, state', w')"
  shows "\<exists>way. call_goes env state w = Some way \<and>
    (case way_response way of
       Some (status, reason, _) \<Rightarrow>
         filter is_final effs = [Reject status reason] \<and> Ringing \<notin> set effs \<and> Bye \<notin> set effs
     | None \<Rightarrow>
         \<exists>pre body post. effs = pre @ [Ringing, Accept [(''Content-Type'', ''application/sdp'')] body] @ post \<and>
           filter is_final effs = [Accept [(''Content-Type'', ''application/sdp'')] body] \<and>
           length (filter (\<lambda>e. e = Bye) effs) = (if way = CallAccepted \<and> ends then 1 else 0))"
proof -
  obtain way where way: "call_goes env state w = Some way" using handle_call_goes [OF assms] by blast
  show ?thesis
  proof (cases "way_response way")
    case None
    from handle_call_answered [OF assms way None] obtain offer :: sdp_offer and ops body where
      effs: "effs = map Metric ops @ [Ringing, Accept [(''Content-Type'', ''application/sdp'')] body] @
        (if way = CallAccepted then
           [Metric (GaugeIncrement calls_active 1),
            Metric (CounterIncrement (calls_accepted (offer_codec_kind offer)) 1),
            SpawnHandler (ce_dialog_token env) (ce_headers env)]
           @ (if ends then [AbortHandler, Bye, Metric (GaugeDecrement calls_active 1)] else [])
         else [])" by blast
    have "filter (\<lambda>e. e = Bye) (map Metric ops) = []" by (auto simp: filter_empty_conv)
    then show ?thesis
      using way None unfolding effs by (intro exI [of _ way]) auto
  next
    case (Some x)
    then show ?thesis
      using way handle_call_rejected [OF assms way] rejection_finals [of way]
      by (cases x) (auto intro!: exI [of _ way])
  qed
qed

text \<open>C29.
  The call metrics add up.  A rejected call counts one rejection, with the reason of the check that
  failed (an offer without a usable codec has a reason of its own), unless the SDP rejection itself
  could not be sent; an accepted call counts one acceptance, for the offered codec, and no
  rejection; a call whose answer could not be sent counts neither.  The gauge of active calls is up
  by one exactly while the call is active and back when it is over.\<close>

theorem call_metrics_balance:
  assumes "handle_call env ends state w = Some (effs, res, state', w')"
  shows "\<exists>way. call_goes env state w = Some way \<and>
    (\<forall>k. counter_delta (calls_rejected k) (effect_metrics effs) =
       (case way_response way of
          Some (_, _, rr) \<Rightarrow> if k = rr \<and> \<not> (rr \<in> {SdpOfferInvalid, NoSupportedCodec} \<and> ce_reject env \<noteq> None) then 1 else 0
        | None \<Rightarrow> 0)) \<and>
    (\<forall>k. counter_delta (calls_accepted k) (effect_metrics effs) =
       (if way = CallAccepted \<and> (\<exists>offer. offer_of env = Inr offer \<and> offer_codec_kind offer = k) then 1 else 0)) \<and>
    gauge_delta calls_active (effect_metrics effs) =
      (case res of Active _ _ \<Rightarrow> 1 | Finished _ \<Rightarrow> 0)"
proof -
  obtain way where way: "call_goes env state w = Some way" using handle_call_goes [OF assms] by blast
  show ?thesis
  proof (cases "way_response way")
    case None
    from handle_call_answered [OF assms way None] obtain offer :: sdp_offer and ops body where
      offer: "offer_of env = Inr offer"
      and ops: "\<forall>g. gauge_delta g ops = 0" "\<forall>c. c \<noteq> ports_allocation_failures \<longrightarrow> counter_delta c ops = 0"
      and effs: "effs = map Metric ops @ [Ringing, Accept [(''Content-Type'', ''application/sdp'')] body] @
        (if way = CallAccepted then
           [Metric (GaugeIncrement calls_active 1),
            Metric (CounterIncrement (calls_accepted (offer_codec_kind offer)) 1),
            SpawnHandler (ce_dialog_token env) (ce_headers env)]
           @ (if ends then [AbortHandler, Bye, Metric (GaugeDecrement calls_active 1)] else [])
         else [])"
      and res: "if way = CallAccepted \<and> \<not> ends then \<exists>started. res = Active started (ScopedGauge calls_active)
        else res = Finished None"
      by blast
    have "gauge_delta calls_active (effect_metrics effs) = (case res of Active _ _ \<Rightarrow> 1 | Finished _ \<Rightarrow> 0)"
      using ops res unfolding effs by (auto split: if_splits)
    moreover have "counter_delta (calls_rejected k) (effect_metrics effs) = 0" for k
      using ops unfolding effs by simp
    moreover have "counter_delta (calls_accepted k) (effect_metrics effs) =
        (if way = CallAccepted \<and> offer_codec_kind offer = k then 1 else 0)" for k
      using ops unfolding effs by simp
    ultimately show ?thesis
      using way None offer by (intro exI [of _ way]) simp
  next
    case (Some x)
    then obtain ops where "effs = rejection_effects (ce_reject env \<noteq> None) way ops" "res = Finished (ce_reject env)"
      "\<forall>g. gauge_delta g ops = 0" "\<forall>c. c \<noteq> ports_allocation_failures \<longrightarrow> counter_delta c ops = 0"
      using handle_call_rejected [OF assms way] by auto
    then show ?thesis
      using way Some
      by (intro exI [of _ way], cases way)
        (auto simp: rejection_effects_def count_rejected_def sdp_reject_reason_def split: sdp_parse_error.splits)
  qed
qed

section \<open>Sockets and the answer\<close>

lemma connect_spec:
  assumes "udp_laws os free addr" and "socket_pair_connect os sp peer w = (r, w')"
  shows "case r of Inr sp' \<Rightarrow> sp' = sp \<and> free w' = free w
    | Inl _ \<Rightarrow> free w' = free w \<union> {addr (rtp_socket sp), addr (rtcp_socket sp)}"
proof -
  have laws: "free (udp_drop os s v) = insert (addr s) (free v)" "free (snd (udp_connect os s p v)) = free v"
    for s v p using assms(1) unfolding udp_laws_def by blast+
  have con: "udp_connect os s p v = (e, v') \<Longrightarrow> free v' = free v" for s p v e v'
    using laws(2) [of s p v] by simp
  show ?thesis
    using assms(2) by (auto simp: socket_pair_connect_def laws(1) dest!: con split: prod.splits option.splits)
qed

lemma allocated:
  assumes "udp_laws (ce_udp env) free addr" and "range_ok (port_range state)"
    and "first_rtp_port (port_range state) \<noteq> 0" and "allocate_of env state w = Some (res, ops, r, w')"
  shows "range_ok r \<and> same_ports (port_range state) r \<and>
    (case res of None \<Rightarrow> free w' = free w
     | Some sp \<Rightarrow> \<exists>k < range_size (port_range state). port_pair sp = range_pair (port_range state) k \<and>
         pair_addrs (local_ip_addr state) (port_pair sp) \<subseteq> free w \<and>
         addr (rtp_socket sp) = (local_ip_addr state, Ports.rtp_port (port_pair sp)) \<and>
         addr (rtcp_socket sp) = (local_ip_addr state, Ports.rtcp_port (port_pair sp)) \<and>
         free w' = free w - pair_addrs (local_ip_addr state) (port_pair sp))"
proof -
  let ?r = "port_range state" and ?ip = "local_ip_addr state"
  let ?pairs = "map (\<lambda>k. range_pair ?r ((range_index ?r + k) mod range_size ?r)) [0..<range_size ?r]"
  have s: "range_ok r" "same_ports ?r r" "search_result free addr ?ip 0 ?pairs w res ops w'"
    using try_allocate_spec [OF assms(1-3), of "ce_chk env" ?ip w] assms(4) by (auto simp: allocate_of_def)
  show ?thesis
  proof (cases res)
    case None
    then show ?thesis using s by (simp add: search_result_def)
  next
    case (Some sp)
    then obtain k where k: "k < range_size ?r" "port_pair sp = ?pairs ! k"
      "pair_addrs ?ip (port_pair sp) \<subseteq> free w" "addr (rtp_socket sp) = (?ip, Ports.rtp_port (port_pair sp))"
      "addr (rtcp_socket sp) = (?ip, Ports.rtcp_port (port_pair sp))"
      "free w' = free w - pair_addrs ?ip (port_pair sp)"
      using s(3) by (auto simp: search_result_def)
    have "(range_index ?r + k) mod range_size ?r < range_size ?r" using k(1) by simp
    moreover have "port_pair sp = range_pair ?r ((range_index ?r + k) mod range_size ?r)" using k(1,2) by simp
    ultimately show ?thesis
      using s(1,2) k(3-6) unfolding Some option.case by blast
  qed
qed

text \<open>A pair of sockets that is bound and given back leaves no trace.\<close>

lemma allocated_returned:
  assumes "udp_laws (ce_udp env) free addr" and "range_ok (port_range state)"
    and "first_rtp_port (port_range state) \<noteq> 0" and "allocate_of env state w = Some (Some sp, ops, r, w1)"
  shows "range_ok r" "same_ports (port_range state) r" "free w1 \<union> {addr (rtp_socket sp), addr (rtcp_socket sp)} = free w"
proof -
  let ?p = "port_pair sp" and ?ip = "local_ip_addr state"
  have p: "range_ok r" "same_ports (port_range state) r" "pair_addrs ?ip ?p \<subseteq> free w" "addr (rtp_socket sp) = (?ip, Ports.rtp_port ?p)"
    "addr (rtcp_socket sp) = (?ip, Ports.rtcp_port ?p)" "free w1 = free w - pair_addrs ?ip ?p"
    using allocated [OF assms] unfolding option.case by blast+
  show "range_ok r" "same_ports (port_range state) r" by (rule p(1), rule p(2))
  show "free w1 \<union> {addr (rtp_socket sp), addr (rtcp_socket sp)} = free w"
    unfolding p(4-6) using p(3) by (auto simp: pair_addrs_def)
qed

lemma pair_half_returned:
  assumes "pair_addrs ip p \<subseteq> X" and "Ports.rtp_port p \<noteq> Ports.rtcp_port p"
  shows "insert (ip, Ports.rtcp_port p) (X - pair_addrs ip p) = X - {(ip, Ports.rtp_port p)}"
  using assms by (auto simp: pair_addrs_def)

lemma answered_session:
  assumes laws: "udp_laws (ce_udp env) free addr"
    and con: "socket_pair_connect (ce_udp env) sp peer w1 = (Inr sp', w2)"
    and ses: "session_of env state offer sp' w2 = (Inr session, w3)"
  shows "sp' = sp" "free w3 = free w1" "Session.rtp_socket_pair session = sp"
    "cancel_token session = ChildToken (ce_dialog_token env) (ce_child env)"
    "session_sdp_answer session = generate_sdp_answer (media_ip state) (Ports.rtp_port (port_pair sp))
       (ce_session_id env) \<lparr>oc_payload_type = payload_type offer, oc_kind = offer_codec_kind offer\<rparr>"
proof -
  have sp: "sp' = sp" "free w2 = free w1" using connect_spec [OF laws con] by simp_all
  then show "sp' = sp" "free w3 = free w1" "Session.rtp_socket_pair session = sp"
    "cancel_token session = ChildToken (ce_dialog_token env) (ce_child env)"
    "session_sdp_answer session = generate_sdp_answer (media_ip state) (Ports.rtp_port (port_pair sp))
       (ce_session_id env) \<lparr>oc_payload_type = payload_type offer, oc_kind = offer_codec_kind offer\<rparr>"
    using ses
    by (auto simp: session_of_def media_session_new_def session_sdp_answer_def split: sum.splits)
qed

lemma start_spec:
  assumes "udp_laws os free addr" and "media_session_start os ops now a b c calls s w = (started, w')"
  shows "free w' = insert (addr (rtcp_socket (Session.rtp_socket_pair s))) (free w)"
    "ss_socket started = rtp_socket (Session.rtp_socket_pair s)" "ss_token started = cancel_token s"
  using assms by (auto simp: media_session_start_def udp_laws_def)

text \<open>
  What a call holds when its set-up is over: nothing, or the RTP socket of its session, on the local
  address and a port of the range, which was free before.
\<close>

definition call_holds ::
    "('s \<Rightarrow> sock_addr) \<Rightarrow> server_state \<Rightarrow> sock_addr set \<Rightarrow> ('e, 'z, 's) call_state \<Rightarrow> sock_addr set \<Rightarrow> bool" where
  "call_holds addr state before res after \<longleftrightarrow>
     (case res of
        Finished _ \<Rightarrow> after = before
      | Active started _ \<Rightarrow>
          \<exists>k < range_size (port_range state).
            addr (ss_socket started) = (local_ip_addr state, Ports.rtp_port (range_pair (port_range state) k)) \<and>
            addr (ss_socket started) \<in> before \<and> after = before - {addr (ss_socket started)})"

lemma call_setup_sockets:
  assumes "udp_laws (ce_udp env) free addr" and "range_ok (port_range state)"
    and "first_rtp_port (port_range state) \<noteq> 0"
    and su: "call_setup env state w = Some (effs0, res0, s0, w0)"
  shows "range_ok (port_range s0)" "same_ports (port_range state) (port_range s0)"
    "local_ip_addr s0 = local_ip_addr state" "call_holds addr state (free w) res0 (free w0)"
    "call_goes env state w = Some CallAccepted \<longleftrightarrow> (\<exists>started guard. res0 = Active started guard)"
proof -
  have drop: "free (socket_pair_drop (ce_udp env) sp v) = free v \<union> {addr (rtp_socket sp), addr (rtcp_socket sp)}"
    for sp v using assms(1) by (auto simp: udp_laws_def socket_pair_drop_def)
  have "range_ok (port_range s0) \<and> same_ports (port_range state) (port_range s0) \<and>
      local_ip_addr s0 = local_ip_addr state \<and> call_holds addr state (free w) res0 (free w0) \<and>
      (call_goes env state w = Some CallAccepted \<longleftrightarrow> (\<exists>started guard. res0 = Active started guard))"
    using su
  proof (cases rule: call_setup_cases)
    case (sdp e)
    then show ?thesis using assms(2) by (simp add: call_holds_def same_ports_def)
  next
    case (ports offer ops r)
    then show ?thesis using allocated [OF assms(1-3) ports(3)] by (simp add: call_holds_def)
  next
    case (connect offer ops r sp w1 e)
    then show ?thesis
      using allocated_returned [OF assms(1-3) connect(3)] connect_spec [OF assms(1) connect(5)]
      by (simp add: call_holds_def)
  next
    case (codec offer ops r sp w1 sp' w2 e)
    have "sp' = sp" "free w2 = free w1" using connect_spec [OF assms(1) codec(5)] by simp_all
    moreover from this have "free w0 = free w1 \<union> {addr (rtp_socket sp), addr (rtcp_socket sp)}"
      using codec(6) drop by (auto simp: session_of_def media_session_new_def split: sum.splits)
    ultimately show ?thesis
      using codec(2,4,8) allocated_returned [OF assms(1-3) codec(3)] by (simp add: call_holds_def)
  next
    case (answered offer ops r sp w1 sp' w2 session w3 effs')
    note ses = answered_session [OF assms(1) answered(5,6)]
    obtain k where k: "k < range_size (port_range state)" "port_pair sp = range_pair (port_range state) k"
      "pair_addrs (local_ip_addr state) (port_pair sp) \<subseteq> free w"
      "addr (rtp_socket sp) = (local_ip_addr state, Ports.rtp_port (port_pair sp))"
      "addr (rtcp_socket sp) = (local_ip_addr state, Ports.rtcp_port (port_pair sp))"
      "free w1 = free w - pair_addrs (local_ip_addr state) (port_pair sp)"
      "range_ok r" "same_ports (port_range state) r"
      "Ports.rtp_port (port_pair sp) \<noteq> Ports.rtcp_port (port_pair sp)"
      using allocated [OF assms(1-3) answered(3)] range_pair_ports(3) [OF assms(2,3)] by auto
    show ?thesis
    proof (cases "ce_accept env = None")
      case True
      then obtain started where st: "media_session_start (ce_udp env) (ce_sleep env) (ce_now env)
          (ce_ssrc env) (ce_sequence env) (ce_timestamp env) (ce_calls env) session w3 = (started, w0)"
        "res0 = Active started (ScopedGauge calls_active)"
        using answered(7) by (auto simp: accept_call_eq Let_def split: prod.splits)
      have "free w0 = free w - {addr (rtp_socket sp)}"
        unfolding start_spec(1) [OF assms(1) st(1)] ses(2,3) k(4-6) pair_half_returned [OF k(3,9)] ..
      moreover have "addr (rtp_socket sp) \<in> free w" using k(3,4) by (auto simp: pair_addrs_def)
      ultimately show ?thesis
        using True answered(2,4) st(2) start_spec(2) [OF assms(1) st(1)] ses(3) k(2,4,7,8)
        by (simp add: call_holds_def) (metis k(1))
    next
      case False
      then have "w0 = socket_pair_drop (ce_udp env) sp w3" "\<exists>e. res0 = Finished e"
        using answered(7) ses(3) by (auto simp: accept_call_eq)
      then show ?thesis
        using False answered(2,4) drop ses(2) allocated_returned [OF assms(1-3) answered(3)] k(8)
        by (auto simp: call_holds_def)
    qed
  qed
  then show "range_ok (port_range s0)" "same_ports (port_range state) (port_range s0)"
    "local_ip_addr s0 = local_ip_addr state" "call_holds addr state (free w) res0 (free w0)"
    "call_goes env state w = Some CallAccepted \<longleftrightarrow> (\<exists>started guard. res0 = Active started guard)"
    by blast+
qed

text \<open>C21.
  A call keeps no socket it does not use.  When the operating system behaves as documented, every
  call that does not get as far as being accepted leaves the set of free addresses as it found it,
  whichever step failed; an accepted call holds exactly one address more, its RTP port of a pair
  of the range on the local address, the RTCP port being given back when the session starts.  The
  port range stays usable.\<close>

theorem call_releases_sockets:
  assumes "udp_laws (ce_udp env) free addr" and "range_ok (port_range state)"
    and "first_rtp_port (port_range state) \<noteq> 0"
    and "handle_call env ends state w = Some (effs, res, state', w')"
  shows "range_ok (port_range state') \<and> same_ports (port_range state) (port_range state') \<and>
    (if call_goes env state w = Some CallAccepted
     then \<exists>k < range_size (port_range state).
            (local_ip_addr state, Ports.rtp_port (range_pair (port_range state) k)) \<in> free w \<and>
            free w' = free w - {(local_ip_addr state, Ports.rtp_port (range_pair (port_range state) k))}
     else free w' = free w)"
proof -
  obtain effs0 res0 where su: "call_setup env state w = Some (effs0, res0, state', w')"
    using assms(4) by (auto simp: handle_call_def split: option.splits call_state.splits if_splits)
  show ?thesis
    using call_setup_sockets [OF assms(1-3) su] by (auto simp: call_holds_def split: call_state.splits)
qed

lemma answer_ascii: "list_all ascii (generate_sdp_answer ip port sid c)"
proof -
  have "list_all printable l" if "l \<in> set (answer_lines ip port sid c)" for l
    using that answer_lines_printable by (simp add: list_all_iff)
  then show ?thesis
    unfolding generate_sdp_answer_eq
    by (fastforce simp: list_all_iff CRLF_def ascii_def dest: printable_ascii [unfolded ascii_def])
qed

text \<open>C7.
  The answer that goes out belongs to the offer and to the sockets.  The body of the one ACCEPT,
  read back as text, is the answer for the external address if one is configured and the local one
  otherwise, with the payload type and codec selected from the offer and the RTP port of a pair of
  the range; and while the call is active its session listens on that port of the local address,
  under a token that is a child of the dialog's.\<close>

theorem call_answer_matches_session:
  assumes "udp_laws (ce_udp env) free addr" and "range_ok (port_range state)"
    and "first_rtp_port (port_range state) \<noteq> 0"
    and "handle_call env ends state w = Some (effs, res, state', w')"
    and "Accept hdrs body \<in> set effs"
  shows "\<exists>offer k. offer_of env = Inr offer \<and> k < range_size (port_range state) \<and>
    from_utf8_lossy body = generate_sdp_answer (case external_ip state of Some ip \<Rightarrow> ip | None \<Rightarrow> local_ip_addr state)
      (Ports.rtp_port (range_pair (port_range state) k)) (ce_session_id env)
      \<lparr>oc_payload_type = payload_type offer, oc_kind = offer_codec_kind offer\<rparr> \<and>
    (case res of Finished _ \<Rightarrow> True
     | Active started _ \<Rightarrow>
         addr (ss_socket started) = (local_ip_addr state, Ports.rtp_port (range_pair (port_range state) k)) \<and>
         ss_token started = ChildToken (ce_dialog_token env) (ce_child env))"
proof -
  obtain effs0 res0 s0 w0 where su: "call_setup env state w = Some (effs0, res0, s0, w0)"
    using assms(4) by (auto simp: handle_call_def split: option.splits)
  have acc: "Accept hdrs body \<in> set effs0" and res: "res = res0 \<or> res = Finished None"
    using assms(4,5) su
    by (auto simp: handle_call_def call_teardown_def split: call_state.splits if_splits scoped_gauge.splits)
  have no_accept: "Accept hdrs body \<notin> set (rejection_effects b way ops)" for b way ops
    by (auto simp: rejection_effects_def count_rejected_def split: option.splits call_way.splits)
  from su show ?thesis
  proof (cases rule: call_setup_cases)
    case (answered offer ops r sp w1 sp' w2 session w3 effs')
    note ses = answered_session [OF assms(1) answered(5,6)]
    obtain k where k: "k < range_size (port_range state)" "port_pair sp = range_pair (port_range state) k"
      "addr (rtp_socket sp) = (local_ip_addr state, Ports.rtp_port (port_pair sp))"
      using allocated [OF assms(1-3) answered(3)] by auto
    have "Accept hdrs body = accept_effect session"
      using acc answered(7,8) by (auto simp: accept_call_eq Let_def accept_effect_def split: if_splits prod.splits)
    then have "body = into_bytes (session_sdp_answer session)" by (simp add: accept_effect_def)
    then have same: "from_utf8_lossy body = session_sdp_answer session"
      using ses(5) by (simp add: from_utf8_lossy_ascii answer_ascii)
    have "case res0 of Finished _ \<Rightarrow> True
      | Active started _ \<Rightarrow> ss_socket started = rtp_socket sp \<and> ss_token started = cancel_token session"
      using answered(7) start_spec(2,3) [OF assms(1)] ses(3)
      by (auto simp: accept_call_eq Let_def split: if_splits prod.splits)
    then show ?thesis
      using same ses(4,5) k answered(1) res
      by (intro exI [of _ offer] exI [of _ k]) (auto simp: media_ip_def split: call_state.splits)
  qed (use acc no_accept in auto)
qed

section \<open>A concrete call\<close>

lemma handle_call_total:
  assumes "udp_laws (ce_udp env) free addr" and "range_ok (port_range state)"
    and "first_rtp_port (port_range state) \<noteq> 0"
  shows "\<exists>effs res state' w'. handle_call env ends state w = Some (effs, res, state', w')"
proof -
  have "allocate_of env state w \<noteq> None"
    using try_allocate_spec [OF assms, of "ce_chk env" "local_ip_addr state" w] by (auto simp: allocate_of_def)
  then have "call_setup env state w \<noteq> None"
    by (auto simp: call_setup_alt split: sum.splits option.splits prod.splits)
  then show ?thesis
    by (auto simp: handle_call_def split: call_state.splits)
qed

text \<open>A call of the sample offer to a server with two port pairs and no optional codec.\<close>

definition sample_env :: "(unit, nat, sock_addr list, sock_addr) call_env" where
  "sample_env = \<lparr>ce_chk = True, ce_features = \<lparr>feat_opus = False, feat_g722 = False\<rparr>,
     ce_parse = (\<lambda>_. Inr sample_sdp), ce_libs = failing_opus, ce_udp = list_udp, ce_sleep = exact_sleep,
     ce_body = [], ce_headers = [], ce_dialog_token = RootToken 0, ce_child = 1, ce_calls = [],
     ce_codec_call = 0, ce_session_id = 7, ce_now = 0, ce_ssrc = 1, ce_sequence = 2, ce_timestamp = 3,
     ce_reject = None, ce_accept = None\<rparr>"

definition sample_state :: server_state where
  "sample_state = \<lparr>local_ip_addr = IpV4 10 0 0 9, external_ip = None, port_range = two_pairs,
     server_token = RootToken 9, state_media_timeout = 30\<rparr>"

lemma sample_state_ok:
  "udp_laws (ce_udp sample_env) (\<lambda>w. - set w) id" "range_ok (port_range sample_state)"
  "first_rtp_port (port_range sample_state) \<noteq> 0"
  using list_udp_laws two_pairs_ok by (simp_all add: sample_env_def sample_state_def) (simp add: two_pairs_def)

lemma sample_call_offer:
  "offer_of sample_env =
     Inr \<lparr>peer_addr = IpV4 10 0 0 1, peer_port = 4000, payload_type = 0, offer_codec_kind = Pcmu\<rparr>"
  unfolding offer_of_def parse_sdp_offer_def by code_simp

lemma sample_call_sockets:
  "\<exists>sp ops r w'. allocate_of sample_env sample_state [] = Some (Some sp, ops, r, w') \<and>
     socket_pair_connect (ce_udp sample_env) sp (IpV4 10 0 0 1, 4000) w' = (Inr sp, w')"
proof -
  have two: "allocate_loop chk os ip 2 = allocate_loop chk os ip (Suc (Suc 0))"
    for chk and os :: "(sock_addr list, sock_addr) udp_ops" and ip
    by (simp add: numeral_2_eq_2)
  show ?thesis
    by (simp add: allocate_of_def sample_env_def sample_state_def two_pairs_def try_allocate_socket_pair_def
        range_capacity_def sub_checked_def add_checked_def next_port_pair_def port_after_def pair_at_def
        rtp_socket_pair_new_def list_udp_def socket_pair_connect_def Let_def two)
qed

lemma sample_call_goes: "call_goes sample_env sample_state [] = Some CallAccepted"
proof -
  obtain sp ops r w' where "allocate_of sample_env sample_state [] = Some (Some sp, ops, r, w')"
    "socket_pair_connect (ce_udp sample_env) sp (IpV4 10 0 0 1, 4000) w' = (Inr sp, w')"
    using sample_call_sockets by blast
  then show ?thesis
    by (simp add: call_goes_def sample_call_offer session_of_def media_session_new_def)
      (simp add: sample_env_def)
qed

lemma sample_call:
  "\<exists>effs res state' w'. handle_call sample_env ends sample_state [] = Some (effs, res, state', w')"
  by (rule handle_call_total [OF sample_state_ok])

theorem call_one_final_response_witness:
  "\<exists>effs res state' w'. handle_call sample_env True sample_state [] = Some (effs, res, state', w') \<and>
     length (filter (\<lambda>e. e = Bye) effs) = 1"
proof -
  obtain effs res state' w' where r: "handle_call sample_env True sample_state [] = Some (effs, res, state', w')"
    using sample_call by blast
  then show ?thesis
    using call_one_final_response [OF r] by (auto simp: sample_call_goes)
qed

theorem call_metrics_balance_witness:
  "\<exists>effs res state' w'. handle_call sample_env True sample_state [] = Some (effs, res, state', w') \<and>
     counter_delta (calls_accepted Pcmu) (effect_metrics effs) = 1 \<and>
     counter_delta (calls_rejected SdpOfferInvalid) (effect_metrics effs) = 0"
proof -
  obtain effs res state' w' where r: "handle_call sample_env True sample_state [] = Some (effs, res, state', w')"
    using sample_call by blast
  then show ?thesis
    using call_metrics_balance [OF r] by (auto simp: sample_call_goes sample_call_offer)
qed

theorem call_releases_sockets_witness:
  "\<exists>effs res state' w' p. handle_call sample_env True sample_state [] = Some (effs, res, state', w') \<and>
     - set w' = - {(IpV4 10 0 0 9, p)}"
proof -
  obtain effs res state' w' where r: "handle_call sample_env True sample_state [] = Some (effs, res, state', w')"
    using sample_call by blast
  moreover have "local_ip_addr sample_state = IpV4 10 0 0 9" by (simp add: sample_state_def)
  ultimately show ?thesis
    using call_releases_sockets [OF sample_state_ok r] by (auto simp: sample_call_goes)
qed

lemma sample_call_accepts:
  "handle_call sample_env ends sample_state [] = Some (effs, res, state', w') \<Longrightarrow>
   \<exists>body. Accept [(''Content-Type'', ''application/sdp'')] body \<in> set effs"
  using handle_call_answered [OF _ sample_call_goes] by force

theorem call_answer_matches_session_witness:
  "\<exists>effs res state' w' body port. handle_call sample_env True sample_state [] = Some (effs, res, state', w') \<and>
     Accept [(''Content-Type'', ''application/sdp'')] body \<in> set effs \<and>
     from_utf8_lossy body = generate_sdp_answer (IpV4 10 0 0 9) port 7 \<lparr>oc_payload_type = 0, oc_kind = Pcmu\<rparr>"
proof -
  obtain effs res state' w' where r: "handle_call sample_env True sample_state [] = Some (effs, res, state', w')"
    using sample_call by blast
  obtain body where body: "Accept [(''Content-Type'', ''application/sdp'')] body \<in> set effs"
    using sample_call_accepts [OF r] by blast
  have "external_ip sample_state = None" "local_ip_addr sample_state = IpV4 10 0 0 9" "ce_session_id sample_env = 7"
    by (simp_all add: sample_state_def sample_env_def)
  then show ?thesis
    using call_answer_matches_session [OF sample_state_ok r body] r body
    by (auto simp: sample_call_offer)
qed

end
