(* ===== verification/Drain.thy ===== *)
theory Drain
  imports Cancel
begin

text \<open>
  \<open>drain.rs\<close>: the drain token, a cancellation token of its own.  \<open>drain_triggered\<close> is a future
  that is ready once the token reads as cancelled.
\<close>

datatype drain_token = DrainToken token

definition drain_token_new :: "nat \<Rightarrow> drain_token" where
  "drain_token_new n = DrainToken (RootToken n)"

primrec start_drain :: "drain_token \<Rightarrow> token list \<Rightarrow> token list" where
  "start_drain (DrainToken t) calls = calls @ [t]"

primrec drain_triggered_ready :: "token_query \<Rightarrow> token list \<Rightarrow> drain_token \<Rightarrow> bool" where
  "drain_triggered_ready q calls (DrainToken t) = q calls t"

primrec is_draining :: "token_query \<Rightarrow> token list \<Rightarrow> drain_token \<Rightarrow> bool" where
  "is_draining q calls (DrainToken t) = q calls t"

lemma drain_token_fresh: "token_laws q \<Longrightarrow> \<not> is_draining q [] d"
  by (cases d) (simp add: token_Nil)

lemma start_drain_draining: "token_laws q \<Longrightarrow> is_draining q (start_drain d calls @ later) d"
  by (cases d) (simp add: token_called)

end
