(* ===== verification/Server.thy ===== *)
theory Server
  imports CallHandler Drain
begin

text \<open>
  \<open>server.rs\<close>: construction of the server, its two request loops, the drain monitor and \<open>run\<close>.

  The SIP library is not part of the repository: its dialog layer is the parameter \<open>dialog_layer\<close>
  over a world \<open>'w\<close>, with dialogs \<open>'d\<close>, and the result of a reply is part of the transaction.
  What the loops do is a list of effects in program order.
\<close>

section \<open>Choosing an address\<close>

record interface =
  if_loopback :: bool
  if_addr :: ip_addr

text \<open>\<open>get_first_non_loopback_interface\<close>; the argument is what \<open>get_if_addrs\<close> returns.\<close>

fun first_v4 :: "interface list \<Rightarrow> ip_addr option" where
  "first_v4 [] = None"
| "first_v4 (i # is) =
     (if \<not> if_loopback i
      then (case if_addr i of IpV4 a b c d \<Rightarrow> Some (IpV4 a b c d) | IpV6 _ \<Rightarrow> first_v4 is)
      else first_v4 is)"

definition get_first_non_loopback_interface :: "string + interface list \<Rightarrow> string + ip_addr" where
  "get_first_non_loopback_interface ifs =
     (case ifs of
        Inl e \<Rightarrow> Inl e
      | Inr is \<Rightarrow> (case first_v4 is of Some ip \<Rightarrow> Inr ip | None \<Rightarrow> Inl ''No IPv4 interface found''))"

section \<open>Construction\<close>

record sip_server =
  srv_cancel_token :: token
  srv_drain_token :: drain_token
  srv_state :: server_state
  srv_local_addr :: sock_addr
  srv_external_addr :: sock_addr
  srv_options :: respond_to_options

text \<open>
  What the constructor asks of its surroundings: the interfaces, whether the SIP socket could be
  made, whether the metrics are registered already, and the numbers of the two new tokens.
\<close>

record new_env =
  ne_chk :: bool
  ne_features :: features
  ne_interfaces :: "string + interface list"
  ne_udp_error :: "string option"
  ne_metrics_done :: bool
  ne_cancel :: nat
  ne_drain :: nat

definition sip_server_new ::
    "new_env \<Rightarrow> server_config \<Rightarrow> ((string + sip_server) \<times> metric_op list) outcome" where
  "sip_server_new env config =
     (let (init_ops, _) = ensure_initialized (ne_features env) (ne_metrics_done env);
          cancel = RootToken (ne_cancel env)
      in case (case cfg_bind_addr config of
                 Some ip \<Rightarrow> Inr ip
               | None \<Rightarrow> get_first_non_loopback_interface (ne_interfaces env)) of
           Inl e \<Rightarrow> Some (Inl e, init_ops)
         | Inr local_ip \<Rightarrow>
             (let local_addr = (local_ip, cfg_port config);
                  external_addr = map_option (\<lambda>ip. (ip, cfg_port config)) (cfg_external_ip config)
              in case ne_udp_error env of
                   Some e \<Rightarrow> Some (Inl e, init_ops)
                 | None \<Rightarrow>
                     (case rtp_port_range_new (ne_chk env) (cfg_min_port config) (cfg_max_port config) of
                        None \<Rightarrow> None
                      | Some (Inl e) \<Rightarrow> Some (Inl e, init_ops)
                      | Some (Inr (rng, range_ops)) \<Rightarrow>
                          Some (Inr \<lparr>srv_cancel_token = cancel,
                                srv_drain_token = drain_token_new (ne_drain env),
                                srv_state = \<lparr>local_ip_addr = local_ip, external_ip = cfg_external_ip config,
                                  port_range = rng, server_token = cancel,
                                  state_media_timeout = cfg_media_receive_timeout config\<rparr>,
                                srv_local_addr = local_addr,
                                srv_external_addr =
                                  (case external_addr of Some a \<Rightarrow> a | None \<Rightarrow> local_addr),
                                srv_options = RespondToOptions True\<rparr>, init_ops @ range_ops))))"

section \<open>Requests\<close>

datatype sip_method = Invite | Options | Register | OtherMethod string

text \<open>
  A transaction: the results of \<open>to_header\<close> and of its \<open>tag\<close>, and the error of a reply, if one is
  sent and fails.
\<close>

record transaction =
  tx_id :: nat
  tx_method :: sip_method
  tx_to :: "string + string + string option"
  tx_reply_error :: "string option"

datatype 'd dialog = ServerInvite 'd | OtherDialog

type_synonym dialog_id = nat

record ('w, 'd) dialog_layer =
  dl_match :: "transaction \<Rightarrow> 'w \<Rightarrow> 'd dialog option"
  dl_create :: "transaction \<Rightarrow> sock_addr \<Rightarrow> 'w \<Rightarrow> (string + 'd) \<times> 'w"
  dl_get :: "dialog_id \<Rightarrow> 'w \<Rightarrow> 'd dialog option"
  dl_remove :: "dialog_id \<Rightarrow> 'w \<Rightarrow> 'w"
  dl_len :: "'w \<Rightarrow> nat"

datatype 'd server_effect =
    Reply nat sip_status
  | SpawnDialogHandle "'d dialog" nat
  | SpawnCall 'd
  | RemoveDialog dialog_id
  | ServerMetric metric_op

text \<open>\<open>tx.reply(..).await?\<close>\<close>

definition reply_to :: "transaction \<Rightarrow> sip_status \<Rightarrow> 'd server_effect list \<times> string option" where
  "reply_to tx status = ([Reply (tx_id tx) status], tx_reply_error tx)"

text \<open>Does the request carry a to-tag?\<close>

definition in_dialog :: "transaction \<Rightarrow> bool" where
  "in_dialog tx \<longleftrightarrow> (case tx_to tx of Inr (Inr (Some _)) \<Rightarrow> True | _ \<Rightarrow> False)"

text \<open>One round of the loop: the effects, the error that ends the loop, and the world.\<close>

definition process_request ::
    "('w, 'd) dialog_layer \<Rightarrow> sock_addr \<Rightarrow> respond_to_options \<Rightarrow> transaction \<Rightarrow> 'w \<Rightarrow>
     'd server_effect list \<times> string option \<times> 'w" where
  "process_request dl contact options tx w =
     (if in_dialog tx then
        (case dl_match dl tx w of
           Some dialog \<Rightarrow> ([SpawnDialogHandle dialog (tx_id tx)], None, w)
         | None \<Rightarrow>
             (let (effs, res) = reply_to tx CallTransactionDoesNotExist
              in (ServerMetric (CounterIncrement calls_dialog_not_found 1) # effs, res, w)))
      else
        (case tx_method tx of
           Invite \<Rightarrow>
             (case dl_create dl tx contact w of
                (Inr d, w) \<Rightarrow> ([SpawnDialogHandle (ServerInvite d) (tx_id tx)], None, w)
              | (Inl _, w) \<Rightarrow>
                  (let (effs, res) = reply_to tx ServerInternalError in (effs, res, w)))
         | Options \<Rightarrow>
             (if options_enabled options
              then (let (effs, res) = reply_to tx StatusOK in (effs, res, w))
              else ([], None, w))
         | Register \<Rightarrow> (let (effs, res) = reply_to tx MethodNotAllowed in (effs, res, w))
         | OtherMethod _ \<Rightarrow> (let (effs, res) = reply_to tx MethodNotAllowed in (effs, res, w))))"

section \<open>Dialog states\<close>

datatype 'sc dialog_state =
    Calling dialog_id
  | Confirmed dialog_id
  | Terminated dialog_id "'sc terminated_reason"
  | Early dialog_id
  | OtherDialogState

text \<open>\<open>SpawnCall\<close> is the spawned task that makes an audio handler and runs \<open>handle_call\<close>.\<close>

definition process_dialog_state ::
    "('w, 'd) dialog_layer \<Rightarrow> 'sc dialog_state \<Rightarrow> 'w \<Rightarrow> 'd server_effect list \<times> 'w" where
  "process_dialog_state dl st w =
     (case st of
        Calling i \<Rightarrow>
          (case dl_get dl i w of
             Some (ServerInvite d) \<Rightarrow> ([SpawnCall d], w)
           | Some OtherDialog \<Rightarrow> ([], w)
           | None \<Rightarrow> ([], w))
      | Confirmed _ \<Rightarrow> ([], w)
      | Terminated i reason \<Rightarrow>
          ([ServerMetric (CounterIncrement (calls_terminated (terminated_label_from reason)) 1), RemoveDialog i],
           dl_remove dl i w)
      | Early _ \<Rightarrow> ([], w)
      | OtherDialogState \<Rightarrow> ([], w))"

section \<open>Running\<close>

text \<open>
  \<open>run\<close> starts the drain monitor and then waits in one \<open>select!\<close> for the endpoint and the two
  loops; the first to end ends it.  Its state, and the events that can happen to it in any order:
  the endpoint ends, a loop receives something or its channel closes, the monitor's wait for the
  drain token is over, the monitor's interval ticks, or someone else calls \<open>cancel()\<close> on tokens.
\<close>

datatype run_end = EndpointFinished | RequestsFinished "string option" | StatesFinished

record ('w, 'd) run_state =
  run_world :: 'w
  run_effects :: "'d server_effect list"
  run_options :: respond_to_options
  run_calls :: "token list"
  run_monitor :: bool
  run_end :: "run_end option"

datatype 'sc server_event =
    EndpointEnds
  | RequestArrives transaction
  | RequestsClose
  | StateArrives "'sc dialog_state"
  | StatesClose
  | DrainSeen
  | DrainTick
  | TokensCancelled "token list"

record ('w, 'd) run_env =
  rn_layer :: "('w, 'd) dialog_layer"
  rn_query :: token_query
  rn_cancel :: token
  rn_drain :: drain_token
  rn_contact :: sock_addr

definition run_env_of :: "('w, 'd) dialog_layer \<Rightarrow> token_query \<Rightarrow> sip_server \<Rightarrow> ('w, 'd) run_env" where
  "run_env_of dl q srv =
     \<lparr>rn_layer = dl, rn_query = q, rn_cancel = srv_cancel_token srv, rn_drain = srv_drain_token srv,
      rn_contact = srv_external_addr srv\<rparr>"

text \<open>The state in which \<open>run\<close> enters its \<open>select!\<close>: the drain gauge has been set to zero.\<close>

definition run_start :: "sip_server \<Rightarrow> token list \<Rightarrow> 'w \<Rightarrow> ('w, 'd) run_state" where
  "run_start srv calls w =
     \<lparr>run_world = w, run_effects = [ServerMetric (GaugeSet drain_active 0)], run_options = srv_options srv,
      run_calls = calls, run_monitor = False, run_end = None\<rparr>"

text \<open>
  The drain monitor is a spawned task, so it goes on after \<open>run\<close> has returned; what belongs to the
  \<open>select!\<close> does not.
\<close>

fun drain_monitor :: "('w, 'd) run_env \<Rightarrow> 'sc server_event \<Rightarrow> ('w, 'd) run_state \<Rightarrow> ('w, 'd) run_state" where
  "drain_monitor env DrainSeen s =
     (if drain_triggered_ready (rn_query env) (run_calls s) (rn_drain env) \<and> \<not> run_monitor s
      then s\<lparr>run_monitor := True, run_options := options_set False (run_options s),
             run_effects := run_effects s @ [ServerMetric (GaugeSet drain_active 1)]\<rparr>
      else s)"
| "drain_monitor env DrainTick s =
     (if run_monitor s \<and> dl_len (rn_layer env) (run_world s) = 0
      then s\<lparr>run_calls := run_calls s @ [rn_cancel env]\<rparr> else s)"
| "drain_monitor env _ s = s"

fun select_branch :: "('w, 'd) run_env \<Rightarrow> 'sc server_event \<Rightarrow> ('w, 'd) run_state \<Rightarrow> ('w, 'd) run_state" where
  "select_branch env EndpointEnds s = s\<lparr>run_end := Some EndpointFinished\<rparr>"
| "select_branch env (RequestArrives tx) s =
     (let (effs, res, w) = process_request (rn_layer env) (rn_contact env) (run_options s) tx (run_world s);
          s = s\<lparr>run_world := w, run_effects := run_effects s @ effs\<rparr>
      in case res of None \<Rightarrow> s | Some e \<Rightarrow> s\<lparr>run_end := Some (RequestsFinished (Some e))\<rparr>)"
| "select_branch env RequestsClose s = s\<lparr>run_end := Some (RequestsFinished None)\<rparr>"
| "select_branch env (StateArrives st) s =
     (let (effs, w) = process_dialog_state (rn_layer env) st (run_world s)
      in s\<lparr>run_world := w, run_effects := run_effects s @ effs\<rparr>)"
| "select_branch env StatesClose s = s\<lparr>run_end := Some StatesFinished\<rparr>"
| "select_branch env _ s = s"

definition server_step :: "('w, 'd) run_env \<Rightarrow> 'sc server_event \<Rightarrow> ('w, 'd) run_state \<Rightarrow> ('w, 'd) run_state" where
  "server_step env ev s =
     (let s = (case ev of TokensCancelled ts \<Rightarrow> s\<lparr>run_calls := run_calls s @ ts\<rparr> | _ \<Rightarrow> s);
          s = drain_monitor env ev s
      in if run_end s = None then select_branch env ev s else s)"

fun server_run :: "('w, 'd) run_env \<Rightarrow> 'sc server_event list \<Rightarrow> ('w, 'd) run_state \<Rightarrow> ('w, 'd) run_state" where
  "server_run env [] s = s"
| "server_run env (ev # evs) s = server_run env evs (server_step env ev s)"

text \<open>
  \<open>run\<close> as a whole: without the stream of incoming transactions it fails at once; otherwise it
  returns \<open>Ok\<close> when its \<open>select!\<close> ends, whatever ended it.
\<close>

definition sip_server_run ::
    "('w, 'd) run_env \<Rightarrow> sip_server \<Rightarrow> string option \<Rightarrow> token list \<Rightarrow> 'sc server_event list \<Rightarrow> 'w \<Rightarrow>
     string + ('w, 'd) run_state" where
  "sip_server_run env srv incoming_error calls evs w =
     (case incoming_error of
        Some e \<Rightarrow> Inl e
      | None \<Rightarrow> Inr (server_run env evs (run_start srv calls w)))"

section \<open>Runs\<close>

lemma server_run_append: "server_run env (xs @ ys) s = server_run env ys (server_run env xs s)"
  by (induction xs arbitrary: s) auto

lemma server_run_snoc: "server_run env (evs @ [ev]) s = server_step env ev (server_run env evs s)"
  by (simp add: server_run_append)

lemma server_run_take_Suc:
  "i < length evs \<Longrightarrow> server_run env (take (Suc i) evs) s = server_step env (evs ! i) (server_run env (take i evs) s)"
  by (simp add: take_Suc_conv_app_nth server_run_snoc)

text \<open>What a step does to each field.\<close>

lemma monitor_fields [simp]:
  "run_end (drain_monitor env ev s) = run_end s"
  "run_world (drain_monitor env ev s) = run_world s"
  by (cases ev; simp)+

lemma step_ended: "run_end s \<noteq> None \<Longrightarrow> run_end (server_step env ev s) = run_end s"
  by (cases ev) (auto simp: server_step_def Let_def)

lemma run_ended: "run_end s \<noteq> None \<Longrightarrow> run_end (server_run env evs s) = run_end s"
proof (induction evs arbitrary: s)
  case (Cons ev evs)
  then show ?case using step_ended [of s env ev] by simp
qed simp

lemma step_calls:
  "run_calls (server_step env ev s) = run_calls s @
     (case ev of TokensCancelled ts \<Rightarrow> ts
      | DrainTick \<Rightarrow> if run_monitor s \<and> dl_len (rn_layer env) (run_world s) = 0 then [rn_cancel env] else []
      | _ \<Rightarrow> [])"
  by (cases ev) (auto simp: server_step_def Let_def split: option.splits prod.splits)

lemma step_monitor:
  "run_monitor (server_step env ev s) \<longleftrightarrow> run_monitor s \<or>
     ev = DrainSeen \<and> drain_triggered_ready (rn_query env) (run_calls s) (rn_drain env)"
  by (cases ev) (auto simp: server_step_def Let_def split: option.splits prod.splits)

lemma step_options:
  "run_options (server_step env ev s) =
     (if ev = DrainSeen \<and> drain_triggered_ready (rn_query env) (run_calls s) (rn_drain env) \<and> \<not> run_monitor s
      then RespondToOptions False else run_options s)"
  by (cases ev) (auto simp: server_step_def Let_def options_set_def split: option.splits prod.splits)

text \<open>
  The invariant of the drain monitor: once it is past its wait, the server is draining and
  \<open>OPTIONS\<close> is off.
\<close>

definition drain_inv :: "('w, 'd) run_env \<Rightarrow> ('w, 'd) run_state \<Rightarrow> bool" where
  "drain_inv env s \<longleftrightarrow>
     (run_monitor s \<longrightarrow>
        is_draining (rn_query env) (run_calls s) (rn_drain env) \<and> \<not> options_enabled (run_options s))"

lemma is_draining_append:
  "token_laws q \<Longrightarrow> is_draining q calls d \<Longrightarrow> is_draining q (calls @ later) d"
  by (cases d) (simp add: token_append)

lemma triggered_is_draining: "drain_triggered_ready q calls d = is_draining q calls d"
  by (cases d) simp

lemma drain_inv_step:
  assumes "token_laws (rn_query env)" and "drain_inv env s"
  shows "drain_inv env (server_step env ev s)"
  using assms is_draining_append [OF assms(1)]
  unfolding drain_inv_def step_monitor step_options step_calls
  by (auto simp: triggered_is_draining split: server_event.splits)

lemma drain_inv_run:
  assumes "token_laws (rn_query env)" and "drain_inv env s"
  shows "drain_inv env (server_run env evs s)"
  using assms(2) by (induction evs arbitrary: s) (auto intro: drain_inv_step [OF assms(1)])

lemma drain_inv_start: "drain_inv env (run_start srv calls w)"
  by (simp add: drain_inv_def run_start_def)

section \<open>Requests\<close>

primrec is_reply :: "'d server_effect \<Rightarrow> bool" where
  "is_reply (Reply _ _) = True"
| "is_reply (SpawnDialogHandle _ _) = False"
| "is_reply (SpawnCall _) = False"
| "is_reply (RemoveDialog _) = False"
| "is_reply (ServerMetric _) = False"

primrec is_handled :: "'d server_effect \<Rightarrow> bool" where
  "is_handled (Reply _ _) = False"
| "is_handled (SpawnDialogHandle _ _) = True"
| "is_handled (SpawnCall _) = False"
| "is_handled (RemoveDialog _) = False"
| "is_handled (ServerMetric _) = False"

text \<open>C25.
  Every request is served exactly once.  It is either handed to one dialog or answered by one
  reply, never both, and neither only for an out-of-dialog \<open>OPTIONS\<close> while \<open>OPTIONS\<close> is off; the
  loop goes on unless a reply was sent and failed.  A request with a to-tag never creates a dialog;
  one whose dialog is unknown is answered 481 and counted, and no other request is.\<close>

theorem request_served_once:
  "case process_request dl contact options tx w of (effs, res, w') \<Rightarrow>
     length (filter is_reply effs) + length (filter is_handled effs) =
       (if \<not> in_dialog tx \<and> tx_method tx = Options \<and> \<not> options_enabled options then 0 else 1) \<and>
     res = (if filter is_reply effs = [] then None else tx_reply_error tx) \<and>
     w' = (if \<not> in_dialog tx \<and> tx_method tx = Invite then snd (dl_create dl tx contact w) else w) \<and>
     (Reply (tx_id tx) CallTransactionDoesNotExist \<in> set effs \<longleftrightarrow> in_dialog tx \<and> dl_match dl tx w = None) \<and>
     (ServerMetric (CounterIncrement calls_dialog_not_found 1) \<in> set effs \<longleftrightarrow>
        in_dialog tx \<and> dl_match dl tx w = None)"
  by (cases "tx_method tx"; cases "in_dialog tx"; cases "dl_match dl tx w")
    (auto simp: process_request_def reply_to_def split: prod.splits sum.splits)

text \<open>The effects of a server that serve a peer, as opposed to the metrics of the drain monitor.\<close>

definition service_effects :: "'d server_effect list \<Rightarrow> 'd server_effect list" where
  "service_effects = filter (\<lambda>e. case e of ServerMetric (GaugeSet _ _) \<Rightarrow> False | _ \<Rightarrow> True)"

lemma service_effects_append [simp]: "service_effects (xs @ ys) = service_effects xs @ service_effects ys"
  by (simp add: service_effects_def)

lemma monitor_service [simp]:
  "service_effects (run_effects (drain_monitor env ev s)) = service_effects (run_effects s)"
  by (cases ev) (simp_all add: service_effects_def)

lemma step_ended_service:
  "run_end s \<noteq> None \<Longrightarrow> service_effects (run_effects (server_step env ev s)) = service_effects (run_effects s)"
  by (cases ev) (auto simp: server_step_def Let_def service_effects_def)

lemma run_ended_service:
  "run_end s \<noteq> None \<Longrightarrow> service_effects (run_effects (server_run env evs s)) = service_effects (run_effects s)"
proof (induction evs arbitrary: s)
  case (Cons ev evs)
  then show ?case using step_ended [of s env ev] step_ended_service [of s env ev] by simp
qed simp

text \<open>C39.
  One failed reply takes the server down.  When a reply to a request cannot be sent, \<open>run\<close> ends with
  that error, and whatever arrives afterwards, no request is handled or answered and no dialog
  state is processed any more.\<close>

theorem failed_reply_ends_server:
  assumes "run_end s = None" and "tx_reply_error tx = Some e"
    and "Reply (tx_id tx) status \<in> set (fst (process_request (rn_layer env) (rn_contact env) (run_options s) tx (run_world s)))"
  shows "let s1 = server_step env (RequestArrives tx :: 'sc server_event) s; s2 = server_run env evs s1
    in run_end s2 = Some (RequestsFinished (Some e)) \<and>
       service_effects (run_effects s2) = service_effects (run_effects s1)"
proof -
  let ?s1 = "server_step env (RequestArrives tx :: 'sc server_event) s"
  obtain effs res w where p: "process_request (rn_layer env) (rn_contact env) (run_options s) tx (run_world s) = (effs, res, w)"
    by (cases "process_request (rn_layer env) (rn_contact env) (run_options s) tx (run_world s)")
  have "res = Some e"
    using assms(2,3) p
    by (auto simp: process_request_def reply_to_def split: if_splits option.splits sip_method.splits sum.splits prod.splits)
  then have "run_end ?s1 = Some (RequestsFinished (Some e))"
    using assms(1) p by (simp add: server_step_def)
  then show ?thesis
    using run_ended [of ?s1 env evs] run_ended_service [of ?s1 env evs] by (simp add: Let_def)
qed

section \<open>Draining\<close>

primrec is_ok :: "'d server_effect \<Rightarrow> bool" where
  "is_ok (Reply _ status) = (status = StatusOK)"
| "is_ok (SpawnDialogHandle _ _) = False"
| "is_ok (SpawnCall _) = False"
| "is_ok (RemoveDialog _) = False"
| "is_ok (ServerMetric _) = False"

lemma request_no_ok:
  "\<not> options_enabled options \<Longrightarrow> filter is_ok (fst (process_request dl contact options tx w)) = []"
  by (auto simp: process_request_def reply_to_def split: option.split sip_method.split prod.split sum.split)

lemma state_no_ok: "filter is_ok (fst (process_dialog_state dl st w)) = []"
  by (auto simp: process_dialog_state_def split: dialog_state.split option.split dialog.split)

lemma step_no_ok:
  assumes "\<not> options_enabled (run_options s)"
  shows "filter is_ok (run_effects (server_step env ev s)) = filter is_ok (run_effects s)"
proof (cases ev)
  case (RequestArrives tx)
  then show ?thesis
    using request_no_ok [OF assms, of "rn_layer env" "rn_contact env" tx "run_world s"]
    by (auto simp: server_step_def Let_def split: option.split prod.splits)
next
  case (StateArrives st)
  then show ?thesis
    using state_no_ok [of "rn_layer env" st "run_world s"]
    by (auto simp: server_step_def Let_def split: prod.splits)
qed (auto simp: server_step_def Let_def)

lemma run_monitor_mono: "run_monitor s \<Longrightarrow> run_monitor (server_run env evs s)"
  by (induction evs arbitrary: s) (auto simp: step_monitor)

text \<open>Where the monitor and the switch stand, by what has happened so far.\<close>

definition drain_seen :: "('w, 'd) run_env \<Rightarrow> 'sc server_event list \<Rightarrow> ('w, 'd) run_state \<Rightarrow> nat \<Rightarrow> bool" where
  "drain_seen env evs s k \<longleftrightarrow>
     (\<exists>i < k. evs ! i = DrainSeen \<and>
        is_draining (rn_query env) (run_calls (server_run env (take i evs) s)) (rn_drain env))"

lemma monitor_drain_seen:
  "k \<le> length evs \<Longrightarrow>
   run_monitor (server_run env (take k evs) s) \<longleftrightarrow> run_monitor s \<or> drain_seen env evs s k"
proof (induction k)
  case (Suc k)
  then show ?case
    by (auto simp: server_run_take_Suc step_monitor triggered_is_draining drain_seen_def less_Suc_eq)
qed (simp add: drain_seen_def)

lemma options_by_monitor:
  "run_options (server_run env evs (run_start srv calls w)) =
     (if run_monitor (server_run env evs (run_start srv calls w)) then RespondToOptions False else srv_options srv)"
proof (induction evs rule: rev_induct)
  case Nil
  then show ?case by (simp add: run_start_def)
next
  case (snoc ev evs)
  then show ?case by (auto simp: server_run_snoc step_options step_monitor)
qed

lemma options_drain_seen:
  assumes "k \<le> length evs"
  shows "run_options (server_run env (take k evs) (run_start srv calls w)) =
    (if drain_seen env evs (run_start srv calls w) k then RespondToOptions False else srv_options srv)"
  using options_by_monitor [of env "take k evs" srv calls w] monitor_drain_seen [OF assms, of env "run_start srv calls w"]
  by (simp add: run_start_def)

lemma drain_seen_mono: "drain_seen env evs s k \<Longrightarrow> k \<le> l \<Longrightarrow> drain_seen env evs s l"
  unfolding drain_seen_def using less_le_trans by blast

lemma drained_no_ok:
  assumes "drain_seen env evs (run_start srv calls w) k" and "k \<le> l" and "l \<le> length evs"
  shows "filter is_ok (run_effects (server_run env (take l evs) (run_start srv calls w))) =
    filter is_ok (run_effects (server_run env (take k evs) (run_start srv calls w)))"
  using assms(2,3)
proof (induction l rule: dec_induct)
  case (step l)
  have "\<not> options_enabled (run_options (server_run env (take l evs) (run_start srv calls w)))"
    using options_drain_seen [of l evs env srv calls w] drain_seen_mono [OF assms(1) step.hyps(1)] step.prems by simp
  then show ?case using step by (simp add: server_run_take_Suc step_no_ok)
qed simp

text \<open>What a server does apart from its \<open>OPTIONS\<close> replies and its drain gauge.\<close>

definition other_effects :: "'d server_effect list \<Rightarrow> 'd server_effect list" where
  "other_effects effs = filter (\<lambda>e. \<not> is_ok e) (service_effects effs)"

definition same_service :: "('w, 'd) run_state \<Rightarrow> ('w, 'd) run_state \<Rightarrow> bool" where
  "same_service s t \<longleftrightarrow> run_world s = run_world t \<and> run_end s = run_end t \<and>
     other_effects (run_effects s) = other_effects (run_effects t)"

lemma other_effects_append [simp]: "other_effects (xs @ ys) = other_effects xs @ other_effects ys"
  by (simp add: other_effects_def)

definition options_reply_ok :: "'sc server_event \<Rightarrow> bool" where
  "options_reply_ok ev \<longleftrightarrow>
     (\<forall>tx. ev = RequestArrives tx \<and> \<not> in_dialog tx \<and> tx_method tx = Options \<longrightarrow> tx_reply_error tx = None)"

lemma request_other_options:
  assumes "options_reply_ok (RequestArrives tx)"
  shows "snd (process_request dl contact o1 tx w) = snd (process_request dl contact o2 tx w)"
    "other_effects (fst (process_request dl contact o1 tx w)) = other_effects (fst (process_request dl contact o2 tx w))"
  using assms
  by (auto simp: process_request_def reply_to_def options_reply_ok_def other_effects_def service_effects_def
      split: sip_method.split)

lemma monitor_same_service: "same_service (drain_monitor env ev s) s"
  by (cases ev) (simp_all add: same_service_def other_effects_def service_effects_def)

lemma same_service_step:
  assumes "same_service s t" and "options_reply_ok ev"
  shows "same_service (server_step env ev s) (server_step env ev t)"
proof (cases ev)
  case (RequestArrives tx)
  have ok: "options_reply_ok (RequestArrives tx)" using assms(2) RequestArrives by (simp add: options_reply_ok_def)
  then show ?thesis
    using assms(1) RequestArrives request_other_options [OF ok, of "rn_layer env" "rn_contact env" "run_options s"
        "run_world t" "run_options t"]
    by (simp add: same_service_def server_step_def Let_def case_prod_beta split: option.split)
next
  case (StateArrives st)
  then show ?thesis
    using assms(1) by (auto simp: same_service_def server_step_def Let_def case_prod_beta)
qed (use assms(1) monitor_same_service [of env ev s] monitor_same_service [of env ev t] in
    \<open>auto simp: same_service_def server_step_def Let_def\<close>)

lemma drain_event_same_service:
  "ev = DrainSeen \<or> ev = DrainTick \<Longrightarrow> same_service (server_step env ev s) s"
  using monitor_same_service [of env ev s] by (auto simp: server_step_def Let_def)

lemma same_service_run:
  assumes "same_service s t" and "list_all options_reply_ok evs"
  shows "same_service (server_run env evs s)
    (server_run env (filter (\<lambda>ev. ev \<noteq> DrainSeen \<and> ev \<noteq> DrainTick) evs) t)"
  using assms
proof (induction evs arbitrary: s t)
  case (Cons ev evs)
  show ?case
  proof (cases "ev = DrainSeen \<or> ev = DrainTick")
    case True
    then have "same_service (server_step env ev s) t"
      using drain_event_same_service [of ev env s] Cons.prems(1) by (simp add: same_service_def)
    then show ?thesis using Cons.IH Cons.prems(2) True by auto
  next
    case False
    have "same_service (server_step env ev s) (server_step env ev t)"
      using Cons.prems by (intro same_service_step) simp_all
    then show ?thesis using Cons.IH Cons.prems(2) False by simp
  qed
qed simp

text \<open>C27.
  A draining server stops answering \<open>OPTIONS\<close> and nothing else.  In every run, \<open>OPTIONS\<close> is on at a
  point exactly if the server began with it on and the drain monitor has not woken before to a drained
  token; accordingly an out-of-dialog \<open>OPTIONS\<close> that arrives is answered 200 or not at all, and after
  the drain has been seen no event makes the server send a 200.  Everything else is as without the
  monitor: if the replies to \<open>OPTIONS\<close> do not fail, the server's other effects, its dialogs and the
  way it ends are those of the run from which the events of the monitor have been left out.\<close>

theorem drain_turns_options_off:
  fixes evs :: "'sc server_event list"
  shows "let st = (\<lambda>k. server_run env (take k evs) (run_start srv calls w));
      on = (\<lambda>k. options_enabled (srv_options srv) \<and> \<not> (\<exists>i < k. evs ! i = DrainSeen \<and>
              is_draining (rn_query env) (run_calls (st i)) (rn_drain env)));
      quiet = server_run env (filter (\<lambda>ev. ev \<noteq> DrainSeen \<and> ev \<noteq> DrainTick) evs) (run_start srv calls w)
    in (\<forall>k \<le> length evs. options_enabled (run_options (st k)) = on k) \<and>
      (\<forall>k < length evs. \<forall>tx. evs ! k = RequestArrives tx \<and> \<not> in_dialog tx \<and> tx_method tx = Options \<and>
           run_end (st k) = None \<longrightarrow>
         run_effects (st (Suc k)) = run_effects (st k) @ (if on k then [Reply (tx_id tx) StatusOK] else [])) \<and>
      (\<forall>k l. k \<le> l \<and> l \<le> length evs \<and> options_enabled (srv_options srv) \<and> \<not> on k \<longrightarrow>
         filter is_ok (run_effects (st l)) = filter is_ok (run_effects (st k))) \<and>
      (list_all options_reply_ok evs \<longrightarrow>
         other_effects (run_effects (st (length evs))) = other_effects (run_effects quiet) \<and>
         run_world (st (length evs)) = run_world quiet \<and> run_end (st (length evs)) = run_end quiet)"
proof -
  let ?s0 = "run_start srv calls w"
  let ?st = "\<lambda>k. server_run env (take k evs) ?s0"
  let ?on = "\<lambda>k. options_enabled (srv_options srv) \<and> \<not> drain_seen env evs ?s0 k"
  have on: "options_enabled (run_options (?st k)) = ?on k" if "k \<le> length evs" for k
    using options_drain_seen [OF that, of env srv calls w] by simp
  have reply: "run_effects (?st (Suc k)) = run_effects (?st k) @ (if ?on k then [Reply (tx_id tx) StatusOK] else [])"
    if "k < length evs" "evs ! k = RequestArrives tx \<and> \<not> in_dialog tx \<and> tx_method tx = Options \<and> run_end (?st k) = None" for k tx
    using that on [of k]
    by (auto simp: server_run_take_Suc server_step_def process_request_def reply_to_def Let_def split: option.split)
  have silent: "filter is_ok (run_effects (?st l)) = filter is_ok (run_effects (?st k))"
    if "k \<le> l \<and> l \<le> length evs \<and> options_enabled (srv_options srv) \<and> \<not> ?on k" for k l
    using drained_no_ok [of env evs srv calls w k l] that by blast
  have "same_service (server_run env evs ?s0)
      (server_run env (filter (\<lambda>ev. ev \<noteq> DrainSeen \<and> ev \<noteq> DrainTick) evs) ?s0)" if "list_all options_reply_ok evs"
    by (rule same_service_run [OF _ that]) (simp add: same_service_def)
  then show ?thesis
    unfolding Let_def drain_seen_def [symmetric]
    by (intro conjI allI impI on reply silent) (simp_all add: same_service_def)
qed

lemma root_called: "token_laws q \<Longrightarrow> q calls (RootToken n) \<longleftrightarrow> RootToken n \<in> set calls"
  by (auto simp: token_laws_def)

text \<open>C26.
  The server shuts itself down exactly when it is drained and idle.  If nobody else cancels the
  server's token, it reads as cancelled after a run precisely when at some tick of the drain
  monitor's interval the monitor was past its wait, so the server was draining, and the dialog layer
  held no dialog.\<close>

theorem drain_cancels_when_idle:
  fixes evs :: "'sc server_event list"
  assumes "token_laws (rn_query env)" and "rn_cancel env = RootToken n"
    and "\<forall>ts. TokensCancelled ts \<in> set evs \<longrightarrow> RootToken n \<notin> set ts"
  shows "rn_query env (run_calls (server_run env evs (run_start srv [] w))) (RootToken n) \<longleftrightarrow>
    (\<exists>i < length evs. evs ! i = DrainTick \<and>
       (let s = server_run env (take i evs) (run_start srv [] w)
        in run_monitor s \<and> is_draining (rn_query env) (run_calls s) (rn_drain env) \<and>
           dl_len (rn_layer env) (run_world s) = 0))"
proof -
  let ?s = "\<lambda>i. server_run env (take i evs) (run_start srv [] w)"
  have calls: "RootToken n \<in> set (run_calls (?s k)) \<longleftrightarrow>
      (\<exists>i < k. evs ! i = DrainTick \<and> run_monitor (?s i) \<and> dl_len (rn_layer env) (run_world (?s i)) = 0)"
    if "k \<le> length evs" for k using that
  proof (induction k)
    case 0
    then show ?case by (simp add: run_start_def)
  next
    case (Suc k)
    then have k: "k < length evs" by simp
    have others: "evs ! k = TokensCancelled ts \<Longrightarrow> RootToken n \<notin> set ts" for ts
      using assms(3) nth_mem [OF k] by metis
    show ?case
      using Suc k others
      by (auto simp: server_run_take_Suc step_calls assms(2) less_Suc_eq split: server_event.splits if_splits)
  qed
  have inv: "drain_inv env (?s i)" for i by (rule drain_inv_run [OF assms(1) drain_inv_start])
  then have "run_monitor (?s i) \<Longrightarrow> is_draining (rn_query env) (run_calls (?s i)) (rn_drain env)" for i
    by (simp add: drain_inv_def)
  then show ?thesis
    using calls [of "length evs"] by (auto simp: root_called [OF assms(1)] Let_def)
qed

section \<open>Terminated calls\<close>

definition server_metrics :: "'d server_effect list \<Rightarrow> metric_op list" where
  "server_metrics effs = List.map_filter (\<lambda>e. case e of ServerMetric op \<Rightarrow> Some op | _ \<Rightarrow> None) effs"

definition removed_dialogs :: "'d server_effect list \<Rightarrow> dialog_id list" where
  "removed_dialogs effs = List.map_filter (\<lambda>e. case e of RemoveDialog i \<Rightarrow> Some i | _ \<Rightarrow> None) effs"

definition terminations :: "'sc server_event list \<Rightarrow> (dialog_id \<times> 'sc terminated_reason) list" where
  "terminations evs =
     List.map_filter (\<lambda>ev. case ev of StateArrives (Terminated i r) \<Rightarrow> Some (i, r) | _ \<Rightarrow> None) evs"

lemma map_filter_append [simp]:
  "List.map_filter f (xs @ ys) = List.map_filter f xs @ List.map_filter f ys"
  by (induction xs) (auto simp: List.map_filter_simps split: option.splits)

lemmas server_log_defs = server_metrics_def removed_dialogs_def terminations_def

lemma server_log_append [simp]:
  "server_metrics (xs @ ys) = server_metrics xs @ server_metrics ys"
  "removed_dialogs (xs @ ys) = removed_dialogs xs @ removed_dialogs ys"
  "terminations (es @ fs) = terminations es @ terminations fs"
  by (simp_all add: server_log_defs)

lemma terminated_not_not_found [simp]:
  "calls_terminated l \<noteq> calls_dialog_not_found" "calls_dialog_not_found \<noteq> calls_terminated l"
  "calls_terminated l = calls_terminated m \<longleftrightarrow> l = m"
  by (auto simp: metric_handle_defs metric_name_defs terminated_label_str_inject)

lemma request_log:
  "counter_delta (calls_terminated l) (server_metrics (fst (process_request dl contact options tx w))) = 0"
  "removed_dialogs (fst (process_request dl contact options tx w)) = []"
  by (auto simp: process_request_def reply_to_def server_log_defs List.map_filter_simps
      split: option.split sip_method.split prod.split sum.split)

lemma state_log:
  "counter_delta (calls_terminated l) (server_metrics (fst (process_dialog_state dl st w))) =
     length (filter (\<lambda>(i, r). terminated_label_from r = l) (terminations [StateArrives st]))"
  "removed_dialogs (fst (process_dialog_state dl st w)) = map fst (terminations [StateArrives st])"
  by (auto simp: process_dialog_state_def server_log_defs List.map_filter_simps
      split: dialog_state.split option.split dialog.split)

lemma step_log:
  assumes "run_end (server_step env ev s) = None"
  shows "counter_delta (calls_terminated l) (server_metrics (run_effects (server_step env ev s))) =
      counter_delta (calls_terminated l) (server_metrics (run_effects s))
      + length (filter (\<lambda>(i, r). terminated_label_from r = l) (terminations [ev]))"
    and "removed_dialogs (run_effects (server_step env ev s)) = removed_dialogs (run_effects s) @ map fst (terminations [ev])"
proof -
  have s: "run_end s = None" using assms step_ended [of s env ev] by metis
  have none: "terminations [ev] = []" if "\<And>st. ev \<noteq> StateArrives st"
    using that by (cases ev) (auto simp: terminations_def List.map_filter_simps)
  have both: "counter_delta (calls_terminated l) (server_metrics (run_effects (server_step env ev s))) =
      counter_delta (calls_terminated l) (server_metrics (run_effects s))
      + length (filter (\<lambda>(i, r). terminated_label_from r = l) (terminations [ev])) \<and>
    removed_dialogs (run_effects (server_step env ev s)) = removed_dialogs (run_effects s) @ map fst (terminations [ev])"
  proof (cases ev)
    case (StateArrives st)
    then show ?thesis
      using s state_log(1) [of l "rn_layer env" st "run_world s"]
        state_log(2) [of "rn_layer env" st "run_world s"]
      by (auto simp: server_step_def Let_def split: prod.split)
  next
    case (RequestArrives tx)
    then show ?thesis
      using none s request_log(1) [of l "rn_layer env" "rn_contact env" "run_options s" tx "run_world s"]
        request_log(2) [of "rn_layer env" "rn_contact env" "run_options s" tx "run_world s"]
      by (auto simp: server_step_def Let_def split: prod.splits option.splits)
  qed (use none s in \<open>auto simp: server_step_def Let_def server_log_defs List.map_filter_simps\<close>)
  show "counter_delta (calls_terminated l) (server_metrics (run_effects (server_step env ev s))) =
      counter_delta (calls_terminated l) (server_metrics (run_effects s))
      + length (filter (\<lambda>(i, r). terminated_label_from r = l) (terminations [ev]))"
    and "removed_dialogs (run_effects (server_step env ev s)) = removed_dialogs (run_effects s) @ map fst (terminations [ev])"
    using both by blast+
qed

text \<open>C38.
  Every terminated dialog is counted once and forgotten once.  While the server runs, the counter of
  terminated calls with a label stands at the number of dialogs that ended for a reason of that
  label (whatever status code the reason carries), and exactly these dialogs have been removed from
  the dialog layer, in the order they ended.  It makes no difference whether a dialog was ever accepted:
  the README says that this counter counts calls terminated after being accepted, the code counts every
  termination it hears of.\<close>

theorem terminations_counted_and_removed:
  assumes "run_end (server_run env evs (run_start srv calls w)) = None"
  shows "counter_delta (calls_terminated l) (server_metrics (run_effects (server_run env evs (run_start srv calls w)))) =
      length (filter (\<lambda>(i, r). terminated_label_from r = l) (terminations evs)) \<and>
    removed_dialogs (run_effects (server_run env evs (run_start srv calls w))) = map fst (terminations evs)"
  using assms
proof (induction evs rule: rev_induct)
  case Nil
  then show ?case by (simp add: run_start_def server_log_defs List.map_filter_simps)
next
  case (snoc ev evs)
  let ?s = "server_run env evs (run_start srv calls w)"
  have e: "run_end (server_step env ev ?s) = None" using snoc.prems by (simp add: server_run_snoc)
  then have "run_end ?s = None" using step_ended [of ?s env ev] by metis
  then show ?case
    using snoc.IH step_log [OF e] by (simp add: server_run_snoc)
qed

section \<open>Construction\<close>

primrec is_v4 :: "ip_addr \<Rightarrow> bool" where
  "is_v4 (IpV4 _ _ _ _) = True"
| "is_v4 (IpV6 _) = False"

lemma first_v4_find: "first_v4 is = map_option if_addr (find (\<lambda>i. \<not> if_loopback i \<and> is_v4 (if_addr i)) is)"
  by (induction "is" rule: first_v4.induct) (auto split: ip_addr.splits)

text \<open>
  A server that comes up is usable and is what the configuration says.  It listens on the configured
  address, or else on the first IPv4 address of an interface that is not loopback; it advertises the
  external address if there is one and the local one otherwise, in the contact and for media alike;
  its port range is made of the configured bounds, and when those are usable, it starts on the first
  pair; it answers \<open>OPTIONS\<close>, is not draining and not cancelled.  It does not come up without an
  address, without its SIP socket, or with a port range that is upside down.\<close>

lemma sip_server_new_spec:
  assumes "token_laws q" and "sip_server_new env config = Some (res, ops)"
  shows "case res of
      Inr srv \<Rightarrow>
        (case cfg_bind_addr config of
           Some ip \<Rightarrow> local_ip_addr (srv_state srv) = ip
         | None \<Rightarrow> \<exists>is i. ne_interfaces env = Inr is \<and>
             find (\<lambda>i. \<not> if_loopback i \<and> is_v4 (if_addr i)) is = Some i \<and> local_ip_addr (srv_state srv) = if_addr i) \<and>
        srv_local_addr srv = (local_ip_addr (srv_state srv), cfg_port config) \<and>
        srv_external_addr srv = (media_ip (srv_state srv), cfg_port config) \<and>
        media_ip (srv_state srv) =
          (case cfg_external_ip config of Some ip \<Rightarrow> ip | None \<Rightarrow> local_ip_addr (srv_state srv)) \<and>
        (range_usable (cfg_min_port config) (cfg_max_port config) \<longrightarrow>
           range_ok (port_range (srv_state srv)) \<and> range_index (port_range (srv_state srv)) = 0 \<and>
           first_rtp_port (port_range (srv_state srv)) = cfg_min_port config) \<and>
        options_enabled (srv_options srv) \<and> \<not> is_draining q [] (srv_drain_token srv) \<and>
        \<not> q [] (srv_cancel_token srv) \<and> server_token (srv_state srv) = srv_cancel_token srv
    | Inl e \<Rightarrow>
        cfg_bind_addr config = None \<and> get_first_non_loopback_interface (ne_interfaces env) = Inl e \<or>
        ne_udp_error env = Some e \<or> cfg_max_port config \<le> cfg_min_port config"
proof -
  have broken: "rtp_port_range_new chk a b = Some (Inl e) \<Longrightarrow> b \<le> a" for chk a b e
    by (auto simp: rtp_port_range_new_def Let_def split: if_splits option.splits)
  have usable: "rtp_port_range_new chk a b = Some (Inr (r, x)) \<Longrightarrow> range_usable a b \<Longrightarrow>
      range_ok r \<and> range_index r = 0 \<and> first_rtp_port r = a" for chk a b r x
    using range_new_usable [of a b chk] by auto
  show ?thesis
    using assms(2) token_Nil [OF assms(1)] drain_token_fresh [OF assms(1)]
    by (auto simp: sip_server_new_def Let_def media_ip_def get_first_non_loopback_interface_def first_v4_find
        split: option.splits sum.splits prod.splits dest!: broken usable)
qed

section \<open>A concrete server\<close>

text \<open>A dialog layer whose world is the list of dialogs it holds, for the witnesses.\<close>

definition list_layer :: "(nat list, nat) dialog_layer" where
  "list_layer = \<lparr>dl_match = (\<lambda>tx w. if tx_id tx \<in> set w then Some (ServerInvite (tx_id tx)) else None),
     dl_create = (\<lambda>tx _ w. (Inr (tx_id tx), tx_id tx # w)),
     dl_get = (\<lambda>i w. if i \<in> set w then Some (ServerInvite i) else None),
     dl_remove = (\<lambda>i w. filter (\<lambda>j. j \<noteq> i) w), dl_len = List.length\<rparr>"

definition sample_new_env :: new_env where
  "sample_new_env = \<lparr>ne_chk = True, ne_features = \<lparr>feat_opus = False, feat_g722 = False\<rparr>,
     ne_interfaces = Inr [\<lparr>if_loopback = True, if_addr = IpV4 127 0 0 1\<rparr>,
                          \<lparr>if_loopback = False, if_addr = IpV4 10 0 0 9\<rparr>],
     ne_udp_error = None, ne_metrics_done = False, ne_cancel = 0, ne_drain = 1\<rparr>"

definition sample_server :: sip_server where
  "sample_server = \<lparr>srv_cancel_token = RootToken 0, srv_drain_token = drain_token_new 1,
     srv_state = sample_state, srv_local_addr = (IpV4 10 0 0 9, 5060),
     srv_external_addr = (IpV4 10 0 0 9, 5060), srv_options = RespondToOptions True\<rparr>"

definition sample_run_env :: "(nat list, nat) run_env" where
  "sample_run_env = run_env_of list_layer tree_query sample_server"

definition options_request :: "string option \<Rightarrow> transaction" where
  "options_request err = \<lparr>tx_id = 5, tx_method = Options, tx_to = Inr (Inr None), tx_reply_error = err\<rparr>"

lemma sample_run_env_fields [simp]:
  "rn_query sample_run_env = tree_query" "rn_cancel sample_run_env = RootToken 0"
  "rn_drain sample_run_env = drain_token_new 1" "rn_layer sample_run_env = list_layer"
  by (simp_all add: sample_run_env_def run_env_of_def sample_server_def)

theorem failed_reply_ends_server_witness:
  "run_end (server_run sample_run_env ([RequestArrives (options_request None)] :: unit server_event list)
     (server_step sample_run_env (RequestArrives (options_request (Some ''io'')) :: unit server_event)
        (run_start sample_server [] []))) = Some (RequestsFinished (Some ''io''))"
proof -
  have "run_end (run_start sample_server [] ([] :: nat list)) = None" "tx_reply_error (options_request (Some ''io'')) = Some ''io''"
    "Reply (tx_id (options_request (Some ''io''))) StatusOK \<in> set (fst (process_request (rn_layer sample_run_env)
      (rn_contact sample_run_env) (run_options (run_start sample_server [] ([] :: nat list)))
      (options_request (Some ''io'')) (run_world (run_start sample_server [] ([] :: nat list)))))"
    by (simp_all add: run_start_def options_request_def process_request_def in_dialog_def sample_server_def reply_to_def)
  from failed_reply_ends_server [OF this, where evs = "[RequestArrives (options_request None)] :: unit server_event list"]
  show ?thesis unfolding Let_def by (rule conjunct1)
qed

text \<open>A server that is asked, drained, and asked again.\<close>

definition drained_events :: "unit server_event list" where
  "drained_events = [TokensCancelled [RootToken 1], RequestArrives (options_request None), DrainSeen,
     RequestArrives (options_request None)]"

theorem drain_turns_options_off_witness:
  "let st = (\<lambda>k. server_run sample_run_env (take k drained_events) (run_start sample_server [] ([] :: nat list)))
   in run_effects (st 2) = run_effects (st 1) @ [Reply 5 StatusOK] \<and> run_effects (st 4) = run_effects (st 3) \<and>
      \<not> options_enabled (run_options (st 4)) \<and> run_end (st 4) = None"
proof -
  let ?st = "\<lambda>k. server_run sample_run_env (take k drained_events) (run_start sample_server [] ([] :: nat list))"
  let ?on = "\<lambda>k. options_enabled (srv_options sample_server) \<and> \<not> (\<exists>i < k. drained_events ! i = DrainSeen \<and>
    is_draining (rn_query sample_run_env) (run_calls (?st i)) (rn_drain sample_run_env))"
  note all = drain_turns_options_off [of sample_run_env drained_events sample_server "[]" "[] :: nat list", unfolded Let_def]
  have seen: "\<exists>i < Suc (Suc (Suc k)). drained_events ! i = DrainSeen \<and>
      is_draining (rn_query sample_run_env) (run_calls (?st i)) (rn_drain sample_run_env)" for k
    by (rule exI [of _ 2]) (simp add: drained_events_def step_calls run_start_def drain_token_new_def tree_query_def numeral_2_eq_2)
  have on: "?on 1" by (simp add: drained_events_def sample_server_def)
  have off: "\<not> ?on 3" "\<not> ?on 4" using seen [of 0] seen [of 1] by (simp_all add: eval_nat_numeral)
  have ends: "run_end (?st 1) = None" "run_end (?st 3) = None" "run_end (?st 4) = None"
    by (simp_all add: drained_events_def server_step_def process_request_def reply_to_def in_dialog_def run_start_def
        options_request_def Let_def)
  have req: "drained_events ! 1 = RequestArrives (options_request None)" "drained_events ! 3 = RequestArrives (options_request None)"
    "1 < length drained_events" "3 < length drained_events" "4 \<le> length drained_events"
    "\<not> in_dialog (options_request None)" "tx_method (options_request None) = Options" "tx_id (options_request None) = 5"
    by (simp_all add: drained_events_def in_dialog_def options_request_def)
  have num: "Suc 1 = 2" "Suc 3 = 4" by simp_all
  note reply = conjunct1 [OF conjunct2 [OF all], rule_format]
  have "run_effects (?st 2) = run_effects (?st 1) @ [Reply 5 StatusOK]"
    using reply [OF req(3), OF conjI [OF req(1) conjI [OF req(6) conjI [OF req(7) ends(1)]]]]
    unfolding if_P [OF on] num req(8) .
  moreover have "run_effects (?st 4) = run_effects (?st 3)"
    using reply [OF req(4), OF conjI [OF req(2) conjI [OF req(6) conjI [OF req(7) ends(2)]]]]
    unfolding if_not_P [OF off(1)] num append_Nil2 .
  moreover have "\<not> options_enabled (run_options (?st 4))"
    using conjunct1 [OF all, rule_format, OF req(5)] off(2) by blast
  ultimately show ?thesis using ends(3) unfolding Let_def by blast
qed

theorem drain_cancels_when_idle_witness:
  "rn_query sample_run_env (run_calls (server_run sample_run_env
      ([TokensCancelled [RootToken 1], DrainSeen, DrainTick] :: unit server_event list)
      (run_start sample_server [] ([] :: nat list)))) (RootToken 0)"
proof -
  let ?evs = "[TokensCancelled [RootToken 1], DrainSeen, DrainTick] :: unit server_event list"
  have 1: "token_laws (rn_query sample_run_env)" "rn_cancel sample_run_env = RootToken 0"
    "\<forall>ts. TokensCancelled ts \<in> set ?evs \<longrightarrow> RootToken 0 \<notin> set ts"
    by (simp_all add: tree_query_laws)
  have "2 < length ?evs \<and> ?evs ! 2 = DrainTick \<and>
     (let s = server_run sample_run_env (take 2 ?evs) (run_start sample_server [] ([] :: nat list))
      in run_monitor s \<and> is_draining (rn_query sample_run_env) (run_calls s) (rn_drain sample_run_env) \<and>
         dl_len (rn_layer sample_run_env) (run_world s) = 0)"
    by (simp add: Let_def numeral_2_eq_2 step_monitor step_calls triggered_is_draining drain_token_new_def
        tree_query_def run_start_def list_layer_def server_step_def)
  then show ?thesis using drain_cancels_when_idle [OF 1] by blast
qed

text \<open>A call that is cancelled before it is accepted.\<close>

theorem terminations_counted_and_removed_witness:
  "let s = server_run sample_run_env ([StateArrives (Calling 3), StateArrives (Terminated 3 UacCancel)] :: unit server_event list)
         (run_start sample_server [] [3])
   in counter_delta (calls_terminated (terminated_label_from (UacCancel :: unit terminated_reason)))
        (server_metrics (run_effects s)) = 1 \<and> removed_dialogs (run_effects s) = [3]"
proof -
  let ?evs = "[StateArrives (Calling 3), StateArrives (Terminated 3 UacCancel)] :: unit server_event list"
  have "run_end (server_run sample_run_env ?evs (run_start sample_server [] [3])) = None"
    by (simp add: server_step_def process_dialog_state_def list_layer_def run_start_def)
  from terminations_counted_and_removed [OF this, where l = LUacCancel] show ?thesis
    by (simp add: terminations_def List.map_filter_simps Let_def)
qed

lemma sample_server_up:
  "\<exists>srv ops. sip_server_new sample_new_env server_config_default = Some (Inr srv, ops)"
proof -
  have "range_usable (cfg_min_port server_config_default) (cfg_max_port server_config_default)"
    by (simp add: range_usable_def server_config_default_def)
  from range_new_usable [OF this] obtain r
    where "rtp_port_range_new True (cfg_min_port server_config_default) (cfg_max_port server_config_default)
      = Some (Inr (r, [GaugeSet ports_capacity (range_size r)]))"
    by blast
  moreover have "ne_chk sample_new_env = True" "ne_udp_error sample_new_env = None"
    "get_first_non_loopback_interface (ne_interfaces sample_new_env) = Inr (IpV4 10 0 0 9)"
    "cfg_bind_addr server_config_default = None"
    by (simp_all add: sample_new_env_def get_first_non_loopback_interface_def server_config_default_def)
  ultimately show ?thesis by (auto simp: sip_server_new_def case_prod_beta Let_def)
qed

end
