(* ===== verification/MediaPath.thy ===== *)
theory MediaPath
  imports Session
begin

text \<open>
  Two media sessions joined by a network that delivers every packet in order and in time: what the
  send task of one (\<open>media/session.rs\<close>) makes of the frames of its audio handler, and what the
  receive task of the other hands to its own.  The theory adds no model of code; it composes the
  tasks of \<open>Session\<close>.
\<close>

section \<open>Delivery\<close>

text \<open>A poll that finds one datagram and nothing else.\<close>

definition delivery :: "nat \<times> u8 list \<Rightarrow> recv_poll" where
  "delivery tp = \<lparr>rp_now = fst tp, rp_calls = [], rp_socket = Some (Inr (snd tp)), rp_gone = False\<rparr>"

lemma delivery_fields [simp]:
  "rp_now (delivery tp) = fst tp" "rp_calls (delivery tp) = []"
  "rp_socket (delivery tp) = Some (Inr (snd tp))" "\<not> rp_gone (delivery tp)"
  by (simp_all add: delivery_def)

text \<open>No gap of the timeout or more between two packets, or before the first.\<close>

fun on_time :: "nat \<Rightarrow> nat \<Rightarrow> nat list \<Rightarrow> bool" where
  "on_time t0 timeout [] = True"
| "on_time t0 timeout (t # ts) \<longleftrightarrow>
     t < t0 + timeout \<and> t + timeout < INSTANT_LIMIT \<and> on_time t timeout ts"

lemma on_time_nth:
  "on_time t0 timeout ts \<Longrightarrow> i < length ts \<Longrightarrow> ts ! i < last (t0 # take i ts) + timeout"
proof (induction ts arbitrary: t0 i)
  case (Cons t ts)
  then show ?case by (cases i) auto
qed simp

lemma on_time_instants: "on_time t0 timeout ts \<Longrightarrow> t \<in> set ts \<Longrightarrow> t + timeout < INSTANT_LIMIT"
  by (induction ts arbitrary: t0) auto

text \<open>Datagrams that fit the buffer and that the reader accepts as the packets \<open>raws\<close>.\<close>

definition readable :: "rtp_lib \<Rightarrow> (nat \<times> u8 list) list \<Rightarrow> raw_rtp_packet list \<Rightarrow> bool" where
  "readable lib tps raws \<longleftrightarrow>
     list_all (\<lambda>tp. length (snd tp) \<le> RECV_BUFFER) tps \<and>
     map (parse_rtp_packet lib) (map snd tps) = map Some raws"

lemma delivery_payload:
  "length (snd tp) \<le> RECV_BUFFER \<Longrightarrow> parse_rtp_packet lib (snd tp) = Some raw \<Longrightarrow>
   poll_payload lib (delivery tp) = Some (raw_payload raw)"
  by (simp add: poll_payload_def)

lemma readable_Cons:
  "readable lib (tp # tps) raws \<longleftrightarrow> (\<exists>raw raws'. raws = raw # raws' \<and> length (snd tp) \<le> RECV_BUFFER \<and>
     parse_rtp_packet lib (snd tp) = Some raw \<and> readable lib tps raws')"
  by (cases raws) (auto simp: readable_def)

lemma readable_payloads:
  "readable lib tps raws \<Longrightarrow> valid_payloads lib (map delivery tps) = map raw_payload raws"
proof (induction tps arbitrary: raws)
  case (Cons tp tps)
  then show ?case
    by (auto simp: readable_Cons valid_payloads_def List.map_filter_simps delivery_payload)
qed (simp add: readable_def)

lemma readable_activity:
  "readable lib tps raws \<Longrightarrow> last_activity lib t0 (map delivery tps) = last (t0 # map fst tps)"
  by (induction tps arbitrary: raws t0) (auto simp: readable_Cons delivery_payload)

lemma readable_take: "readable lib tps raws \<Longrightarrow> readable lib (take i tps) (take i raws)"
  by (simp add: readable_def take_map [symmetric] list_all_iff)
    (metis in_set_takeD)

section \<open>A receiver that is served in time\<close>

lemma calls_until_deliveries [simp]: "calls_until (map delivery tps) = []"
  by (induction tps) (simp_all add: calls_until_def)

lemma deliveries_run:
  fixes libs :: "'e codec_libs" and ops :: "'z sleep_ops"
  assumes "sleep_laws ops due g" and "token_laws q" and "t0 + timeout < INSTANT_LIMIT"
    and time: "on_time t0 timeout (map fst tps)" and read: "readable lib tps raws"
  shows "\<exists>rst. rtp_receive_task (receiver libs lib ops q tok) (map delivery tps) (recv_task_new ops t0 c timeout [])
      = Some rst \<and> rt_end rst = None \<and>
    decoded_frames (codec_decode libs) c (map raw_payload raws) = Some (rt_frames rst)"
proof -
  let ?env = "receiver libs lib ops q tok" and ?ps = "map delivery tps"
  have env: "re_decode ?env = codec_decode libs" "re_rtp ?env = lib" "re_query ?env = q"
    by (simp_all add: receiver_def)
  have "list_all (\<lambda>p. rp_now p + timeout < INSTANT_LIMIT) ?ps"
    using on_time_instants [OF time] by (auto simp: list_all_iff)
  then obtain st n where r: "run_result ?env due g c t0 timeout (recv_task_new ops t0 c timeout []) ?ps st n"
    using receiver_run [OF assms(1-3)] by blast
  note frames = run_result_frames [OF r, unfolded env, OF assms(2)]
  have never: "\<not> stops_at ?env g t0 timeout (take i ?ps) (?ps ! i) stop" if i: "i < length tps" for i stop
  proof -
    have "calls_until (take i ?ps @ [?ps ! i]) = []" using i by (simp add: take_map)
    moreover have "rp_now (?ps ! i) < last_activity lib t0 (take i ?ps) + timeout"
      using on_time_nth [OF time, of i] i readable_activity [OF readable_take [OF read], of t0 i]
      by (simp add: take_map)
    ultimately show ?thesis
      using token_Nil [OF assms(2)] i by (cases stop) (simp_all add: stops_at_def env)
  qed
  have n: "n = length tps"
  proof (rule ccontr)
    assume "n \<noteq> length tps"
    moreover have "n \<le> length tps" using r by (simp add: run_result_def)
    ultimately show False using frames(3) never [of n] by auto
  qed
  have "rtp_receive_task ?env ?ps (recv_task_new ops t0 c timeout []) = Some st"
    using r by (simp add: run_result_def)
  then show ?thesis
    using frames(1,2) n readable_payloads [OF read] by (intro exI [of _ st]) simp
qed

section \<open>Streams of the codecs without state\<close>

lemma encode_all_stateless:
  "(\<And>f. enc s f = (g f, s)) \<Longrightarrow> encode_all enc s fs = (map g fs, s)"
  by (induction fs) simp_all

lemma decode_all_stateless:
  "(\<And>p. p \<in> set ps \<Longrightarrow> dec s p = Some (g p, s)) \<Longrightarrow> decode_all dec s ps = Some (map g ps, s)"
  by (induction ps) simp_all

lemma l16_stream:
  "decoded_frames (codec_decode libs) L16Codec (sendable (map l16_encode fs))
     = Some (map (\<lambda>pcm. \<lparr>samples = pcm\<rparr>) (filter (\<lambda>pcm. pcm \<noteq> []) fs))"
proof -
  have "decode_all (codec_decode libs) L16Codec (map l16_encode gs) = Some (gs, L16Codec)" for gs
    by (induction gs) (simp_all add: l16_decode_encode)
  moreover have "sendable (map l16_encode fs) = map l16_encode (filter (\<lambda>pcm. pcm \<noteq> []) fs)"
    by (simp add: sendable_def filter_map o_def l16_encode_empty_iff)
  ultimately show ?thesis by (simp add: decoded_frames_def)
qed

lemma g711_stream:
  assumes "codec_encode libs cdc = (\<lambda>pcm. (enc pcm, cdc))" and "codec_decode libs cdc = (\<lambda>p. Some (dec p, cdc))"
    and "\<And>pcm. enc pcm = [] \<longleftrightarrow> pcm = []"
  shows "decoded_frames (codec_decode libs) cdc (sendable (fst (encode_all (codec_encode libs) cdc fs)))
     = Some (map (\<lambda>pcm. \<lparr>samples = dec (enc pcm)\<rparr>) (filter (\<lambda>pcm. pcm \<noteq> []) fs))"
proof -
  have "fst (encode_all (codec_encode libs) cdc fs) = map enc fs"
    by (simp add: encode_all_stateless [where g = enc] assms(1))
  moreover have "sendable (map enc fs) = map enc (filter (\<lambda>pcm. pcm \<noteq> []) fs)"
    by (simp add: sendable_def filter_map o_def assms(3))
  moreover have "decode_all (codec_decode libs) cdc ps = Some (map dec ps, cdc)" for ps
    by (rule decode_all_stateless) (simp add: assms(2))
  ultimately show ?thesis by (simp add: decoded_frames_def)
qed

text \<open>What a compander leaves of a frame: one sample of two, twice, up to its accuracy.\<close>

definition close_frame :: "int \<Rightarrow> audio_frame \<Rightarrow> audio_frame \<Rightarrow> bool" where
  "close_frame slack f g \<longleftrightarrow>
     length (samples g) = 2 * ((length (samples f) + 1) div 2) \<and>
     (\<forall>j. 2 * j + 1 < length (samples f) \<longrightarrow>
        samples g ! (2 * j + 1) = samples g ! (2 * j) \<and>
        32 * \<bar>sint (samples g ! (2 * j)) - sint (samples f ! (2 * j + 1))\<bar>
          \<le> \<bar>sint (samples f ! (2 * j + 1))\<bar> + slack)"

lemma pcmu_close: "close_frame 132 f \<lparr>samples = pcmu_decode (pcmu_encode (samples f))\<rparr>"
  using pcmu.frame_accuracy pcmu.decode_encode_nth
  by (simp add: close_frame_def pcmu.length_decode pcmu.length_encode)

lemma pcma_close: "close_frame 256 f \<lparr>samples = pcma_decode (pcma_encode (samples f))\<rparr>"
  using pcma.frame_accuracy pcma.decode_encode_nth
  by (simp add: close_frame_def pcma.length_decode pcma.length_encode)

lemma frames_of_samples:
  "map (\<lambda>pcm. \<lparr>samples = g pcm\<rparr>) (filter (\<lambda>pcm. pcm \<noteq> []) (map (samples \<circ> fst) fts))
     = map (\<lambda>f. \<lparr>samples = g (samples f)\<rparr>) (filter (\<lambda>f. samples f \<noteq> []) (map fst fts))"
  by (induction fts) simp_all

lemma frame_eta [simp]: "\<lparr>samples = samples f\<rparr> = f"
  by (cases f) simp

lemma list_all2_map_same: "(\<And>f. P f (g f)) \<Longrightarrow> list_all2 P fs (map g fs)"
  by (simp add: list_all2_conv_all_nth)

section \<open>The path\<close>

text \<open>C13.
  From one audio handler to the other.  When every packet a sender makes arrives in order, fits the
  receiver's buffer and comes within the timeout after the one before, the receive task of the
  other side runs through, and its handler gets the frames the sender's handler gave, empty ones
  dropped: decoded from what the codec encoded, with L16 unchanged sample by sample, and with the
  companders with as many samples (one more if the number was odd), each pair being the second
  sample of the sent pair up to the accuracy of the law.\<close>

theorem media_path_faithful:
  fixes libs :: "'e codec_libs" and ops :: "'z sleep_ops"
  assumes "rtp_lib_ok lib" and "pt < 128"
    and "sleep_laws ops due g" and "token_laws q" and "t0 + timeout < INSTANT_LIMIT"
    and sent: "rtp_send_task (sender libs lib) (map (\<lambda>(f, t). FrameReady f t None) fts)
           (send_task_new ssrc seq ts pt incr c) = Some st"
    and packets: "sd_packets st = map snd tps"
    and fits: "list_all (\<lambda>tp. length (snd tp) \<le> RECV_BUFFER) tps"
    and time: "on_time t0 timeout (map fst tps)"
  shows "\<exists>rst. rtp_receive_task (receiver libs lib ops q tok) (map delivery tps) (recv_task_new ops t0 c' timeout [])
      = Some rst \<and> rt_end rst = None \<and>
    decoded_frames (codec_decode libs) c'
      (sendable (fst (encode_all (codec_encode libs) c (map (samples \<circ> fst) fts)))) = Some (rt_frames rst) \<and>
    (let given = filter (\<lambda>f. samples f \<noteq> []) (map fst fts)
     in (c = L16Codec \<and> c' = L16Codec \<longrightarrow> rt_frames rst = given) \<and>
        (c = PcmuCodec \<and> c' = PcmuCodec \<longrightarrow> list_all2 (close_frame 132) given (rt_frames rst)) \<and>
        (c = PcmaCodec \<and> c' = PcmaCodec \<longrightarrow> list_all2 (close_frame 256) given (rt_frames rst)))"
proof -
  let ?rtp = "rtp_send_state_new ssrc seq ts pt incr" and ?env = "sender libs lib"
  let ?payloads = "sendable (fst (encode_all (codec_encode libs) c (map (samples \<circ> fst) fts)))"
  have ok: "rtp_lib_ok (se_rtp ?env)" "st_payload_type ?rtp < 128"
    using assms(1,2) by (simp_all add: sender_def rtp_send_state_new_def)
  have "send_core ?env c ?rtp (map fst fts) st"
    using send_frames [OF ok send_task_new_core, of fts c] sent by auto
  then have "readable lib tps (stream_packets ?rtp ?payloads)"
    using fits packets by (simp add: readable_def send_core_def sender_def case_prod_beta Let_def)
  from deliveries_run [OF assms(3-5) time this]
  obtain rst where rst: "rtp_receive_task (receiver libs lib ops q tok) (map delivery tps)
      (recv_task_new ops t0 c' timeout []) = Some rst" "rt_end rst = None"
    "decoded_frames (codec_decode libs) c' (map raw_payload (stream_packets ?rtp ?payloads)) = Some (rt_frames rst)"
    by blast
  have "map raw_payload (stream_packets r xs) = xs" for r xs
    by (rule nth_equalityI) (simp_all add: stream_packets_def raw_of_def)
  then have frames: "decoded_frames (codec_decode libs) c' ?payloads = Some (rt_frames rst)"
    using rst(3) by simp
  have l16: "rt_frames rst = filter (\<lambda>f. samples f \<noteq> []) (map fst fts)" if "c = L16Codec" "c' = L16Codec"
    using frames l16_stream [of libs "map (samples \<circ> fst) fts"] frames_of_samples [of "\<lambda>pcm. pcm" fts] that
    by (simp add: encode_all_stateless [where g = l16_encode])
  have pcmu: "list_all2 (close_frame 132) (filter (\<lambda>f. samples f \<noteq> []) (map fst fts)) (rt_frames rst)"
    if "c = PcmuCodec" "c' = PcmuCodec"
  proof -
    have "rt_frames rst = map (\<lambda>f. \<lparr>samples = pcmu_decode (pcmu_encode (samples f))\<rparr>)
        (filter (\<lambda>f. samples f \<noteq> []) (map fst fts))"
      using frames g711_stream [of libs PcmuCodec pcmu_encode pcmu_decode "map (samples \<circ> fst) fts"] that
      by (simp add: fun_eq_iff pcmu.encode_empty_iff frames_of_samples)
    then show ?thesis by (simp only: list_all2_map_same pcmu_close)
  qed
  have pcma: "list_all2 (close_frame 256) (filter (\<lambda>f. samples f \<noteq> []) (map fst fts)) (rt_frames rst)"
    if "c = PcmaCodec" "c' = PcmaCodec"
  proof -
    have "rt_frames rst = map (\<lambda>f. \<lparr>samples = pcma_decode (pcma_encode (samples f))\<rparr>)
        (filter (\<lambda>f. samples f \<noteq> []) (map fst fts))"
      using frames g711_stream [of libs PcmaCodec pcma_encode pcma_decode "map (samples \<circ> fst) fts"] that
      by (simp add: fun_eq_iff pcma.encode_empty_iff frames_of_samples)
    then show ?thesis by (simp only: list_all2_map_same pcma_close)
  qed
  show ?thesis using rst(1,2) frames l16 pcmu pcma unfolding Let_def by blast
qed

theorem media_path_faithful_witness:
  "\<exists>rst. rtp_receive_task
      (receiver (undefined :: unit codec_libs) plain_rtp_lib exact_sleep tree_query (RootToken 0))
      (map delivery [(10, [0x80, 96, 0, 2, 0, 0, 0, 3, 0, 0, 0, 1, 1, 2, 0, 7])])
      (recv_task_new exact_sleep 0 L16Codec 30 []) = Some rst \<and>
    rt_end rst = None \<and> rt_frames rst = [\<lparr>samples = [258, 7]\<rparr>]"
proof -
  let ?packet = "[0x80, 96, 0, 2, 0, 0, 0, 3, 0, 0, 0, 1, 1, 2, 0, 7] :: u8 list"
  have "map_option sd_packets (rtp_send_task (sender (undefined :: unit codec_libs) plain_rtp_lib)
      (map (\<lambda>(f, t). FrameReady f t None) [(\<lparr>samples = [258, 7]\<rparr>, 0)])
      (send_task_new 1 2 3 96 (TimestampIncrement 320) L16Codec)) = Some [?packet]"
    by (simp add: send_task_new_def send_round_def send_frame_def sender_def rtp_next_def build_rtp_packet_def
        plain_rtp_lib_def plain_rtp_build_def be16_def be32_def rtp_send_state_new_def Let_def
        timing_metric_record_def rtp_send_timing_deviation_def timing_metric_new_def to_be_bytes_i16_def)
  then obtain st where st: "rtp_send_task (sender (undefined :: unit codec_libs) plain_rtp_lib)
      (map (\<lambda>(f, t). FrameReady f t None) [(\<lparr>samples = [258, 7]\<rparr>, 0)])
      (send_task_new 1 2 3 96 (TimestampIncrement 320) L16Codec) = Some st"
    "sd_packets st = map snd [(10 :: nat, ?packet)]"
    by auto
  have "list_all (\<lambda>tp. length (snd tp) \<le> RECV_BUFFER) [(10 :: nat, ?packet)]"
    "on_time 0 30 (map fst [(10 :: nat, ?packet)])" "0 + 30 < INSTANT_LIMIT"
    by (simp_all add: RECV_BUFFER_def INSTANT_LIMIT_def)
  from media_path_faithful [OF plain_rtp_lib_ok _ exact_sleep_laws [of 0] tree_query_laws this(3) st this(1,2),
      of "RootToken 0" L16Codec]
  show ?thesis by (auto simp: Let_def)
qed

end
