(* ===== verification/EchoServer.thy ===== *)
theory EchoServer
  imports Server MediaPath
begin

text \<open>
  \<open>examples/echo_server.rs\<close>: the audio handler that sends every frame back, the command line, and
  \<open>main\<close>, which makes a server of the arguments, wires Ctrl-C and SIGTERM to its two tokens, and runs
  it.  It is the one application of the library in the repository, so the audio path is closed
  here: packets in, receive task, handler, send task, packets out.  The argument parser and the
  log set-up are not modelled, nor the counter of frames that only the log shows.
\<close>

section \<open>The handler\<close>

text \<open>
  The branch one round of the \<open>select!\<close> takes: the token, a frame, with whether the receiving half
  of the output channel is gone, or the closed input channel.
\<close>

datatype echo_event =
    EchoCancelled
  | EchoFrame audio_frame bool
  | EchoInputClosed

datatype echo_end = EndCancelled | EndOutputClosed | EndInputClosed

record echo_task =
  eh_sent :: "audio_frame list"
  eh_end :: "echo_end option"

definition echo_handler_new :: echo_task where
  "echo_handler_new = \<lparr>eh_sent = [], eh_end = None\<rparr>"

definition echo_round :: "echo_event \<Rightarrow> echo_task \<Rightarrow> echo_task" where
  "echo_round ev st =
     (if eh_end st \<noteq> None then st
      else
        (case ev of
           EchoCancelled \<Rightarrow> st\<lparr>eh_end := Some EndCancelled\<rparr>
         | EchoFrame frame gone \<Rightarrow>
             (if gone then st\<lparr>eh_end := Some EndOutputClosed\<rparr>
              else st\<lparr>eh_sent := eh_sent st @ [\<lparr>samples = samples frame\<rparr>]\<rparr>)
         | EchoInputClosed \<Rightarrow> st\<lparr>eh_end := Some EndInputClosed\<rparr>))"

fun echo_process :: "echo_event list \<Rightarrow> echo_task \<Rightarrow> echo_task" where
  "echo_process [] st = st"
| "echo_process (ev # evs) st = echo_process evs (echo_round ev st)"

section \<open>The program\<close>

record echo_args =
  arg_port :: u16
  arg_bind :: "ip_addr option"
  arg_external_ip :: "ip_addr option"
  arg_min_port :: u16
  arg_max_port :: u16
  arg_log_level :: string

text \<open>The arguments of a command line without options.\<close>

definition echo_args_default :: echo_args where
  "echo_args_default =
     \<lparr>arg_port = 5060, arg_bind = None, arg_external_ip = None, arg_min_port = 10000,
      arg_max_port = 10099, arg_log_level = ''info''\<rparr>"

definition echo_server_config :: "echo_args \<Rightarrow> server_config" where
  "echo_server_config args =
     server_config_default\<lparr>cfg_port := arg_port args, cfg_bind_addr := arg_bind args,
       cfg_external_ip := arg_external_ip args, cfg_min_port := arg_min_port args,
       cfg_max_port := arg_max_port args\<rparr>"

datatype os_signal = CtrlC | SigTerm

text \<open>What the two spawned tasks do when their signal comes: the calls on tokens they add.\<close>

definition signal_calls :: "sip_server \<Rightarrow> os_signal \<Rightarrow> token list \<Rightarrow> token list" where
  "signal_calls srv sig calls =
     (case sig of
        CtrlC \<Rightarrow> calls @ [srv_cancel_token srv]
      | SigTerm \<Rightarrow> start_drain (srv_drain_token srv) calls)"

text \<open>The event a signal is to the running server.\<close>

definition signal_event :: "sip_server \<Rightarrow> os_signal \<Rightarrow> 'sc server_event" where
  "signal_event srv sig = TokensCancelled (signal_calls srv sig [])"

text \<open>
  \<open>main\<close>; \<open>sigterm_error\<close> is the result of installing the SIGTERM handler.  The result is the error
  that ends the program, or the state \<open>run\<close> leaves.
\<close>

definition echo_main ::
    "new_env \<Rightarrow> echo_args \<Rightarrow> ('w, 'd) dialog_layer \<Rightarrow> token_query \<Rightarrow> string option \<Rightarrow> string option \<Rightarrow>
     (sip_server \<Rightarrow> 'sc server_event list) \<Rightarrow> 'w \<Rightarrow> (string + ('w, 'd) run_state) outcome" where
  "echo_main env args layer q sigterm_error incoming_error events w =
     (case sip_server_new env (echo_server_config args) of
        None \<Rightarrow> None
      | Some (Inl e, _) \<Rightarrow> Some (Inl e)
      | Some (Inr srv, _) \<Rightarrow>
          (case sigterm_error of
             Some e \<Rightarrow> Some (Inl e)
           | None \<Rightarrow>
               Some (sip_server_run (run_env_of layer q srv) srv incoming_error [] (events srv) w)))"

section \<open>The handler echoes\<close>

lemma echo_process_append: "echo_process (xs @ ys) st = echo_process ys (echo_process xs st)"
  by (induction xs arbitrary: st) auto

lemma echo_process_ended: "eh_end st \<noteq> None \<Longrightarrow> echo_process evs st = st"
  by (induction evs) (auto simp: echo_round_def)

lemma echo_frames:
  "eh_end st = None \<Longrightarrow>
   echo_process (map (\<lambda>f. EchoFrame f False) fs) st = st\<lparr>eh_sent := eh_sent st @ fs\<rparr>"
  by (induction fs arbitrary: st) (simp_all add: echo_round_def)

text \<open>The frames a run takes in before the event that ends it, if one does.\<close>

fun echo_accepted :: "echo_event list \<Rightarrow> audio_frame list" where
  "echo_accepted (EchoFrame f False # evs) = f # echo_accepted evs"
| "echo_accepted _ = []"

lemma echo_sent: "eh_end st = None \<Longrightarrow> eh_sent (echo_process evs st) = eh_sent st @ echo_accepted evs"
  by (induction evs arbitrary: st rule: echo_accepted.induct)
    (auto simp: echo_round_def echo_process_ended)

section \<open>An echo call\<close>

text \<open>
  The codecs this code implements itself; none of them has a state.  What a payload is after it has
  been decoded and encoded again: the same, but for the negative zero of \<open>\<mu>\<close>-law and an odd last byte
  of L16.
\<close>

definition native :: "'e codec \<Rightarrow> bool" where
  "native c \<longleftrightarrow> c = PcmuCodec \<or> c = PcmaCodec \<or> c = L16Codec"

fun echoed :: "'e codec \<Rightarrow> u8 list \<Rightarrow> u8 list" where
  "echoed PcmuCodec p = map (\<lambda>b. if b = 0x7F then 0xFF else b) p"
| "echoed L16Codec p = take (2 * (length p div 2)) p"
| "echoed _ p = p"

lemma pcmu_again: "pcmu_encode (pcmu_decode p) = echoed PcmuCodec p"
  by (simp add: pcmu.encode_decode ulaw_enc_dec)

lemma native_stream:
  assumes "native c"
  shows "\<exists>pcms. decode_all (codec_decode libs) c ps = Some (pcms, c) \<and>
    fst (encode_all (codec_encode libs) c pcms) = map (echoed c) ps \<and> length pcms = length ps"
proof (induction ps)
  case (Cons p ps)
  then obtain pcms where IH: "decode_all (codec_decode libs) c ps = Some (pcms, c)"
    "fst (encode_all (codec_encode libs) c pcms) = map (echoed c) ps" "length pcms = length ps"
    by blast
  obtain s where s: "l16_decode p = Some s" using l16_decode_total by blast
  have "\<exists>pcm. codec_decode libs c p = Some (pcm, c) \<and> codec_encode libs c pcm = (echoed c p, c)"
    using assms pcmu_again [of p] pcma.encode_decode_id [of p] s l16_encode_decode [OF s]
    by (auto simp: native_def simp del: echoed.simps(1))
  then obtain pcm where "codec_decode libs c p = Some (pcm, c)" "codec_encode libs c pcm = (echoed c p, c)"
    by blast
  then show ?case using IH by (intro exI [of _ "pcm # pcms"]) (simp add: case_prod_beta)
qed simp

text \<open>C12.
  An echo call gives the caller back what it sent.  With one of the codecs implemented here, when
  the caller's packets are readable, fit the buffer and come in time, and the socket takes what is
  sent, every packet that comes in makes one packet that goes out, in order, with consecutive
  sequence numbers, timestamps one clock step apart and the payload type of the session, and the
  payload the caller sent: byte for byte for A-law, with negative zero turned to zero for \<open>\<mu>\<close>-law,
  without an odd last byte for L16.  Only an empty payload is not answered.\<close>

theorem echo_call_returns_audio:
  fixes libs :: "'e codec_libs" and ops :: "'z sleep_ops"
  assumes "rtp_lib_ok lib" and "pt < 128" and "native c"
    and "sleep_laws ops due g" and "token_laws q" and "t0 + timeout < INSTANT_LIMIT"
    and time: "on_time t0 timeout (map fst tps)" and read: "readable lib tps raws"
    and "length sends = length raws"
  shows "\<exists>rst sst. rtp_receive_task (receiver libs lib ops q tok) (map delivery tps)
      (recv_task_new ops t0 c timeout []) = Some rst \<and>
    rtp_send_task (sender libs lib)
      (map2 (\<lambda>f t. FrameReady f t None)
        (eh_sent (echo_process (map (\<lambda>f. EchoFrame f False) (rt_frames rst)) echo_handler_new)) sends)
      (send_task_new ssrc seq ts pt incr c) = Some sst \<and> sd_end sst = None \<and>
    (let payloads = sendable (map (echoed c) (map raw_payload raws))
     in map (parse_rtp_packet lib) (sd_packets sst) =
          map (\<lambda>k. Some \<lparr>raw_payload = payloads ! k, raw_timestamp = ts + of_nat k * ticks incr,
                raw_sequence = seq + of_nat k, raw_ssrc = ssrc, raw_payload_type = pt\<rparr>) [0..<length payloads])"
proof -
  let ?rtp = "rtp_send_state_new ssrc seq ts pt incr" and ?env = "sender libs lib"
  obtain rst where rst: "rtp_receive_task (receiver libs lib ops q tok) (map delivery tps)
      (recv_task_new ops t0 c timeout []) = Some rst"
    "decoded_frames (codec_decode libs) c (map raw_payload raws) = Some (rt_frames rst)"
    using deliveries_run [OF assms(4-6) time read, of libs tok c] by blast
  obtain pcms where pcms: "decode_all (codec_decode libs) c (map raw_payload raws) = Some (pcms, c)"
    "fst (encode_all (codec_encode libs) c pcms) = map (echoed c) (map raw_payload raws)"
    "length pcms = length raws"
    using native_stream [OF assms(3), of libs "map raw_payload raws"] by auto
  have frames: "rt_frames rst = map (\<lambda>pcm. \<lparr>samples = pcm\<rparr>) pcms"
    using rst(2) pcms(1) by (simp add: decoded_frames_def)
  let ?fts = "zip (rt_frames rst) sends"
  have fts: "map fst ?fts = rt_frames rst" "map samples (map fst ?fts) = pcms"
    using frames pcms(3) assms(9) by (simp_all add: o_def)
  have echo: "eh_sent (echo_process (map (\<lambda>f. EchoFrame f False) (rt_frames rst)) echo_handler_new) = rt_frames rst"
    by (simp add: echo_frames echo_handler_new_def)
  have ok: "rtp_lib_ok (se_rtp ?env)" "st_payload_type ?rtp < 128"
    using assms(1,2) by (simp_all add: sender_def rtp_send_state_new_def)
  obtain sst where sst: "rtp_send_task ?env (map (\<lambda>(f, t). FrameReady f t None) ?fts)
      (send_task_new ssrc seq ts pt incr c) = Some sst" "send_core ?env c ?rtp (map fst ?fts) sst"
    using send_frames [OF ok send_task_new_core] by blast
  have core: "sd_end sst = None \<and> map (parse_rtp_packet lib) (sd_packets sst)
      = map Some (stream_packets ?rtp (sendable (map (echoed c) (map raw_payload raws))))"
    using sst(2) unfolding send_core_def fts(2) by (simp add: sender_def case_prod_beta Let_def pcms(2))
  show ?thesis
    using rst(1) sst(1) core unfolding Let_def
    by (intro exI [of _ rst] exI [of _ sst]) (simp only: echo stream_packets_new simp_thms)
qed

theorem echo_call_returns_audio_witness:
  "\<exists>rst sst. rtp_receive_task
      (receiver (undefined :: unit codec_libs) plain_rtp_lib exact_sleep tree_query (RootToken 0))
      (map delivery [(10, [0x80, 8, 0, 2, 0, 0, 0, 3, 0, 0, 0, 1, 7, 9])])
      (recv_task_new exact_sleep 0 PcmaCodec 30 []) = Some rst \<and>
    rtp_send_task (sender (undefined :: unit codec_libs) plain_rtp_lib)
      (map2 (\<lambda>f t. FrameReady f t None)
        (eh_sent (echo_process (map (\<lambda>f. EchoFrame f False) (rt_frames rst)) echo_handler_new)) [20])
      (send_task_new 5 6 7 8 (TimestampIncrement 160) PcmaCodec) = Some sst \<and>
    map (parse_rtp_packet plain_rtp_lib) (sd_packets sst) =
      [Some \<lparr>raw_payload = [7, 9], raw_timestamp = 7, raw_sequence = 6, raw_ssrc = 5, raw_payload_type = 8\<rparr>]"
proof -
  let ?tps = "[(10 :: nat, [0x80, 8, 0, 2, 0, 0, 0, 3, 0, 0, 0, 1, 7, 9] :: u8 list)]"
  let ?raw = "\<lparr>raw_payload = [7, 9], raw_timestamp = 3, raw_sequence = 2, raw_ssrc = 1, raw_payload_type = 8\<rparr>"
  have 1: "readable plain_rtp_lib ?tps [?raw]"
    by (simp add: readable_def RECV_BUFFER_def parse_rtp_packet_def plain_rtp_lib_def)
  have 2: "on_time 0 30 (map fst ?tps)" "0 + 30 < INSTANT_LIMIT" by (simp_all add: INSTANT_LIMIT_def)
  have 3: "length [20 :: nat] = length [?raw]" "native (PcmaCodec :: unit codec)" "(8 :: u8) < 128"
    by (simp_all add: native_def)
  from echo_call_returns_audio [OF plain_rtp_lib_ok 3(3,2) exact_sleep_laws [of 0] tree_query_laws 2(2,1) 1 3(1),
      of "undefined :: unit codec_libs" "RootToken 0" 5 6 7 "TimestampIncrement 160"]
  show ?thesis
    by (elim exE conjE) (intro exI conjI, assumption+, simp add: Let_def sendable_def)
qed

section \<open>Signals\<close>

lemma server_run_from:
  "i \<le> j \<Longrightarrow> server_run env (take j evs) s = server_run env (drop i (take j evs)) (server_run env (take i evs) s)"
  by (subst server_run_append [symmetric]) (metis append_take_drop_id min.absorb1 take_take)

lemma run_calls_mono: "\<exists>more_calls. run_calls (server_run env evs s) = run_calls s @ more_calls"
proof (induction evs arbitrary: s)
  case (Cons ev evs)
  obtain xs where "run_calls (server_step env ev s) = run_calls s @ xs" using step_calls by blast
  then show ?case using Cons.IH [of "server_step env ev s"] by auto
qed simp

lemma run_keeps_token:
  assumes "token_laws q" and "i \<le> j" and "q (run_calls (server_run env (take i evs) s)) t"
  shows "q (run_calls (server_run env (take j evs) s)) t"
  using run_calls_mono [of env "drop i (take j evs)" "server_run env (take i evs) s"] assms
  unfolding server_run_from [OF assms(2)] by (auto simp: token_append)

lemma run_keeps_monitor:
  "i \<le> j \<Longrightarrow> run_monitor (server_run env (take i evs) s) \<Longrightarrow> run_monitor (server_run env (take j evs) s)"
  unfolding server_run_from [of i j env evs s] by (rule run_monitor_mono)

lemma run_env_of_fields [simp]:
  "rn_layer (run_env_of dl q srv) = dl" "rn_query (run_env_of dl q srv) = q"
  "rn_cancel (run_env_of dl q srv) = srv_cancel_token srv" "rn_drain (run_env_of dl q srv) = srv_drain_token srv"
  by (simp_all add: run_env_of_def)

lemma signal_cancels:
  assumes "token_laws q" and "i < length evs" and "evs ! i = signal_event srv sig"
  shows "sig = CtrlC \<Longrightarrow> q (run_calls (server_run env (take (Suc i) evs) s)) (srv_cancel_token srv)"
    and "sig = SigTerm \<Longrightarrow> is_draining q (run_calls (server_run env (take (Suc i) evs) s)) (srv_drain_token srv)"
  using assms
  by (auto simp: server_run_take_Suc step_calls signal_event_def signal_calls_def token_called)
    (cases "srv_drain_token srv"; simp add: token_append token_called)

text \<open>C28.
  The program as it runs.  When \<open>main\<close> gets as far as running its server, the server is the one of
  the arguments, on their port and addresses, with the media timeout of the default configuration;
  Ctrl-C cancels the server's token.  After SIGTERM, once the drain monitor has run, \<open>OPTIONS\<close> is
  off, and from the first later tick that finds no dialog on the token reads as cancelled, whatever
  else happens before, between and after.\<close>

theorem echo_signals:
  assumes "token_laws q"
    and "echo_main env args layer q sigterm_error None (events :: sip_server \<Rightarrow> 'sc server_event list) w = Some (Inr s)"
  shows "\<exists>srv ops. sip_server_new env (echo_server_config args) = Some (Inr srv, ops) \<and>
    snd (srv_local_addr srv) = arg_port args \<and>
    media_ip (srv_state srv) = (case arg_external_ip args of Some ip \<Rightarrow> ip | None \<Rightarrow> fst (srv_local_addr srv)) \<and>
    state_media_timeout (srv_state srv) = cfg_media_receive_timeout server_config_default \<and>
    (let st = (\<lambda>k. server_run (run_env_of layer q srv) (take k (events srv)) (run_start srv [] w))
     in s = st (length (events srv)) \<and>
        (\<forall>i < length (events srv). events srv ! i = signal_event srv CtrlC \<longrightarrow>
           q (run_calls s) (srv_cancel_token srv)) \<and>
        (\<forall>i j. i < j \<and> j < length (events srv) \<and> events srv ! i = signal_event srv SigTerm \<and>
             events srv ! j = DrainSeen \<longrightarrow>
           \<not> options_enabled (run_options s) \<and>
           (\<forall>k. j < k \<and> k < length (events srv) \<and> events srv ! k = DrainTick \<and>
                dl_len layer (run_world (st k)) = 0 \<longrightarrow> q (run_calls s) (srv_cancel_token srv))))"
proof -
  obtain srv ops where srv: "sip_server_new env (echo_server_config args) = Some (Inr srv, ops)"
    and run: "s = server_run (run_env_of layer q srv) (events srv) (run_start srv [] w)"
    using assms(2) by (auto simp: echo_main_def sip_server_run_def split: option.splits sum.splits)
  let ?env = "run_env_of layer q srv" and ?s0 = "run_start srv [] w" and ?evs = "events srv"
  let ?at = "\<lambda>k. server_run ?env (take k ?evs) ?s0"
  have s: "s = ?at (length ?evs)" using run by simp
  have srv_fields: "snd (srv_local_addr srv) = arg_port args"
    "media_ip (srv_state srv) = (case arg_external_ip args of Some ip \<Rightarrow> ip | None \<Rightarrow> fst (srv_local_addr srv))"
    "state_media_timeout (srv_state srv) = cfg_media_receive_timeout server_config_default"
    using srv by (auto simp: sip_server_new_def echo_server_config_def media_ip_def Let_def case_prod_beta
        split: option.splits sum.splits)
  have laws: "token_laws (rn_query ?env)" using assms(1) by simp
  have keeps: "q (run_calls s) t" if "k \<le> length ?evs" "q (run_calls (?at k)) t" for k t
    unfolding s using run_keeps_token [OF assms(1) that] .
  have ctrlc: "q (run_calls s) (srv_cancel_token srv)"
    if "i < length ?evs" "?evs ! i = signal_event srv CtrlC" for i
    using keeps [of "Suc i"] signal_cancels(1) [OF assms(1) that, of ?env ?s0] that(1) by simp
  have monitor: "run_monitor (?at k)"
    if "i < j" "j < length ?evs" "?evs ! i = signal_event srv SigTerm" "?evs ! j = DrainSeen" "j < k" for i j k
  proof -
    have i: "i < length ?evs" "Suc i \<le> j" using that by simp_all
    have "is_draining q (run_calls (?at (Suc i))) (srv_drain_token srv)"
      using signal_cancels(2) [OF assms(1) i(1) that(3), of ?env ?s0] by simp
    then have "is_draining q (run_calls (?at j)) (srv_drain_token srv)"
      using run_keeps_token [OF assms(1) i(2), of ?env ?evs ?s0] by (cases "srv_drain_token srv") simp
    then have "run_monitor (?at (Suc j))"
      using that by (simp add: server_run_take_Suc step_monitor triggered_is_draining)
    then show ?thesis using run_keeps_monitor [of "Suc j" k ?env ?evs ?s0] that(5) by simp
  qed
  have options: "\<not> options_enabled (run_options s)" if "run_monitor s"
    using drain_inv_run [OF laws drain_inv_start, of ?evs srv "[]" w] that run by (simp add: drain_inv_def)
  have tick: "q (run_calls s) (srv_cancel_token srv)"
    if "run_monitor (?at k)" "k < length ?evs" "?evs ! k = DrainTick" "dl_len layer (run_world (?at k)) = 0" for k
    using keeps [of "Suc k" "srv_cancel_token srv"] that assms(1)
    by (simp add: server_run_take_Suc step_calls token_called)
  show ?thesis
    unfolding Let_def using srv srv_fields s ctrlc options monitor tick
    by (intro exI [of _ srv] exI [of _ ops]) blast
qed

lemma echo_defaults: "echo_server_config echo_args_default = server_config_default"
  by (simp add: echo_server_config_def echo_args_default_def server_config_default_def)

theorem echo_signals_witness:
  "\<exists>srv ops s. sip_server_new sample_new_env (echo_server_config echo_args_default) = Some (Inr srv, ops) \<and>
     echo_main sample_new_env echo_args_default list_layer tree_query None None
       (\<lambda>srv. [signal_event srv SigTerm, DrainSeen, DrainTick] :: unit server_event list) [] = Some (Inr s) \<and>
     tree_query (run_calls s) (srv_cancel_token srv) \<and> \<not> options_enabled (run_options s)"
proof -
  let ?evs = "\<lambda>srv. [signal_event srv SigTerm, DrainSeen, DrainTick] :: unit server_event list"
  obtain srv ops where srv: "sip_server_new sample_new_env (echo_server_config echo_args_default) = Some (Inr srv, ops)"
    using sample_server_up unfolding echo_defaults by blast
  then obtain s where s: "echo_main sample_new_env echo_args_default list_layer tree_query None None ?evs []
      = Some (Inr s)"
    by (simp add: echo_main_def sip_server_run_def)
  have world: "dl_len list_layer (run_world (server_run (run_env_of list_layer tree_query srv)
      (take 2 (?evs srv)) (run_start srv [] []))) = 0"
    by (simp add: numeral_2_eq_2 server_step_def signal_event_def run_start_def Let_def) (simp add: list_layer_def)
  let ?st = "\<lambda>k. server_run (run_env_of list_layer tree_query srv) (take k (?evs srv)) (run_start srv [] [])"
  have "\<forall>i j. i < j \<and> j < length (?evs srv) \<and> ?evs srv ! i = signal_event srv SigTerm \<and> ?evs srv ! j = DrainSeen
      \<longrightarrow> \<not> options_enabled (run_options s) \<and>
        (\<forall>k. j < k \<and> k < length (?evs srv) \<and> ?evs srv ! k = DrainTick \<and>
           dl_len list_layer (run_world (?st k)) = 0 \<longrightarrow> tree_query (run_calls s) (srv_cancel_token srv))"
    using echo_signals [OF tree_query_laws s] srv unfolding Let_def by auto
  from this [rule_format, of 0 1] have "\<not> options_enabled (run_options s)"
    "\<forall>k. 1 < k \<and> k < length (?evs srv) \<and> ?evs srv ! k = DrainTick \<and> dl_len list_layer (run_world (?st k)) = 0
      \<longrightarrow> tree_query (run_calls s) (srv_cancel_token srv)"
    by simp_all
  then show ?thesis using srv s world by (auto dest: spec [of _ 2])
qed

end
