(* ===== verification/CallSteps.thy ===== *)
theory CallSteps
  imports CallHandler
begin

text \<open>
  \<open>handle_call\<close> up to its wait (\<open>call_handler.rs\<close>), one system call at a time.  Calls run at the same
  time on one port range: what a call shares with the others, the cursor of the range and the
  sockets of the operating system, it touches in the steps below, with the other calls' steps in
  between.  \<open>call_pc\<close> is the place a call has reached in \<open>handle_call\<close>, \<open>try_allocate_socket_pair\<close>,
  \<open>RtpSocketPair::new\<close> or \<open>connect\<close> (\<open>media/rtp.rs\<close>) with its locals, and \<open>setup_step\<close> goes on from
  there to the next one.  A step that gives up sockets drops them at once; \<open>next_port_pair\<close> is atomic,
  its contention is in \<open>Ports\<close>.
\<close>

datatype ('e, 'z, 's) call_pc =
    Received
  | Picking sdp_offer nat nat
  | BindingRtp sdp_offer nat nat rtp_port_pair
  | BindingRtcp sdp_offer nat nat rtp_port_pair 's
  | ConnectingRtp sdp_offer "'s rtp_socket_pair"
  | ConnectingRtcp sdp_offer "'s rtp_socket_pair"
  | CreatingSession sdp_offer "'s rtp_socket_pair"
  | Answering sdp_offer "('e, 's) media_session"
  | SetUp "('e, 'z, 's) call_state"

definition reject_step ::
    "('e, 'z, 'w, 's) call_env \<Rightarrow> call_effect list \<Rightarrow> sip_status \<Rightarrow> string option \<Rightarrow> call_effect list \<Rightarrow>
     server_state \<Rightarrow> 'w \<Rightarrow> (call_effect list \<times> ('e, 'z, 's) call_pc \<times> server_state \<times> 'w) outcome" where
  "reject_step env before status reason after state w =
     (let (effs, res) = reject_with env status reason after in Some (before @ effs, SetUp res, state, w))"

text \<open>
  In \<open>Picking offer i n\<close>, \<open>i\<close> attempts of the loop over \<open>0..capacity\<close> have failed and \<open>n\<close> are left; in
  the two places after it the attempt is under way.
\<close>

fun setup_step ::
    "('e, 'z, 'w, 's) call_env \<Rightarrow> ('e, 'z, 's) call_pc \<Rightarrow> server_state \<Rightarrow> 'w \<Rightarrow>
     (call_effect list \<times> ('e, 'z, 's) call_pc \<times> server_state \<times> 'w) outcome" where
  "setup_step env Received state w =
     (case parse_sdp_offer (ce_features env) (ce_parse env) (from_utf8_lossy (ce_body env)) of
        Inl e \<Rightarrow> reject_step env [] NotAcceptableHere None [count_rejected (sdp_reject_reason e)] state w
      | Inr offer \<Rightarrow>
          (case range_capacity (ce_chk env) (port_range state) of
             None \<Rightarrow> None
           | Some cap \<Rightarrow> Some ([], Picking offer 0 (unat cap), state, w)))"
| "setup_step env (Picking offer i 0) state w =
     reject_step env [Metric (CounterIncrement ports_allocation_failures 1), count_rejected RtpPortPoolExhausted]
       ServiceUnavailable (Some ''No free RTP/RTCP port pair available'') [] state w"
| "setup_step env (Picking offer i (Suc n)) state w =
     (case next_port_pair (ce_chk env) (port_range state) of
        None \<Rightarrow> None
      | Some (pair, r) \<Rightarrow> Some ([], BindingRtp offer i n pair, state\<lparr>port_range := r\<rparr>, w))"
| "setup_step env (BindingRtp offer i n pair) state w =
     (case udp_bind (ce_udp env) (local_ip_addr state, Ports.rtp_port pair) w of
        (None, w) \<Rightarrow> Some ([], Picking offer (i + 1) n, state, w)
      | (Some rtp, w) \<Rightarrow> Some ([], BindingRtcp offer i n pair rtp, state, w))"
| "setup_step env (BindingRtcp offer i n pair rtp) state w =
     (case udp_bind (ce_udp env) (local_ip_addr state, Ports.rtcp_port pair) w of
        (None, w) \<Rightarrow> Some ([], Picking offer (i + 1) n, state, udp_drop (ce_udp env) rtp w)
      | (Some rtcp, w) \<Rightarrow>
          Some ([Metric (HistogramRecord ports_allocation_attempts (real (i + 1)))],
            ConnectingRtp offer \<lparr>port_pair = pair, rtp_socket = rtp, rtcp_socket = rtcp\<rparr>, state, w))"
| "setup_step env (ConnectingRtp offer sp) state w =
     (case udp_connect (ce_udp env) (rtp_socket sp) (peer_socket_addr_new (peer_addr offer) (peer_port offer)) w of
        (Some e, w) \<Rightarrow>
          reject_step env [count_rejected UdpConnectFailed] ServerInternalError
            (Some ''Unable to connect to RTP peer'') [] state (socket_pair_drop (ce_udp env) sp w)
      | (None, w) \<Rightarrow> Some ([], ConnectingRtcp offer sp, state, w))"
| "setup_step env (ConnectingRtcp offer sp) state w =
     (case udp_connect (ce_udp env) (rtcp_socket sp) (peer_socket_addr_new (peer_addr offer) (peer_port offer)) w of
        (Some e, w) \<Rightarrow>
          reject_step env [count_rejected UdpConnectFailed] ServerInternalError
            (Some ''Unable to connect to RTP peer'') [] state (socket_pair_drop (ce_udp env) sp w)
      | (None, w) \<Rightarrow> Some ([], CreatingSession offer sp, state, w))"
| "setup_step env (CreatingSession offer sp) state w =
     (case media_session_new (ce_libs env) (ce_codec_call env) (ce_udp env) (ce_session_id env) sp (media_ip state)
             offer (ChildToken (ce_dialog_token env) (ce_child env)) (state_media_timeout state) w of
        (Inl e, w) \<Rightarrow>
          reject_step env [count_rejected CodecInitFailed] ServerInternalError
            (Some ''Unable to create codec'') [] state w
      | (Inr session, w) \<Rightarrow> Some ([], Answering offer session, state, w))"
| "setup_step env (Answering offer session) state w =
     (let (effs, res, w) = accept_call env offer session w in Some (effs, SetUp res, state, w))"
| "setup_step env (SetUp res) state w = Some ([], SetUp res, state, w)"

text \<open>At most \<open>n\<close> steps of one call without any other in between.\<close>

fun setup_run ::
    "('e, 'z, 'w, 's) call_env \<Rightarrow> nat \<Rightarrow> ('e, 'z, 's) call_pc \<Rightarrow> server_state \<Rightarrow> 'w \<Rightarrow>
     (call_effect list \<times> ('e, 'z, 's) call_pc \<times> server_state \<times> 'w) outcome" where
  "setup_run env 0 pc state w = Some ([], pc, state, w)"
| "setup_run env (Suc n) pc state w =
     (case setup_step env pc state w of
        None \<Rightarrow> None
      | Some (effs, pc, state, w) \<Rightarrow>
          (case setup_run env n pc state w of
             None \<Rightarrow> None
           | Some (effs', pc, state, w) \<Rightarrow> Some (effs @ effs', pc, state, w)))"

section \<open>How long a call takes\<close>

text \<open>
  A bound on the steps a call has left: three for every attempt, and five after the last one.
  \<open>cap\<close> is the capacity of the range.
\<close>

fun pc_steps :: "nat \<Rightarrow> ('e, 'z, 's) call_pc \<Rightarrow> nat" where
  "pc_steps cap Received = 3 * cap + 6"
| "pc_steps cap (Picking _ _ n) = 3 * n + 5"
| "pc_steps cap (BindingRtp _ _ n _) = 3 * n + 7"
| "pc_steps cap (BindingRtcp _ _ n _ _) = 3 * n + 6"
| "pc_steps cap (ConnectingRtp _ _) = 4"
| "pc_steps cap (ConnectingRtcp _ _) = 3"
| "pc_steps cap (CreatingSession _ _) = 2"
| "pc_steps cap (Answering _ _) = 1"
| "pc_steps cap (SetUp _) = 0"

lemma reject_step_eq:
  "reject_step env before status reason after state w =
     Some (before @ fst (reject_with env status reason after), SetUp (Finished (ce_reject env)), state, w)"
  by (simp add: reject_step_def reject_with_eq)

lemma pc_steps_0 [simp]: "pc_steps cap pc = 0 \<longleftrightarrow> (\<exists>res. pc = SetUp res)"
  by (cases pc) auto

lemma setup_step_decreases:
  assumes "setup_step env pc state w = Some (effs, pc', state', w')"
    and "range_capacity (ce_chk env) (port_range state) = Some cap"
  shows "pc_steps (unat cap) pc' < pc_steps (unat cap) pc \<or> (\<exists>res. pc = SetUp res \<and> pc' = pc)"
  using assms
  by (cases "(env, pc, state, w)" rule: setup_step.cases)
    (auto simp: reject_step_eq split: sum.splits option.splits prod.splits)

lemma setup_step_same_ports:
  assumes "setup_step env pc state w = Some (effs, pc', state', w')"
  shows "same_ports (port_range state) (port_range state')"
proof -
  have "next_port_pair chk r = Some (p, r') \<Longrightarrow> same_ports r r'" for chk r p r'
    by (auto simp: next_port_pair_def same_ports_def Let_def split: option.splits)
  then show ?thesis
    using assms
    by (cases "(env, pc, state, w)" rule: setup_step.cases)
      (auto simp: reject_step_eq split: sum.splits option.splits prod.splits, auto simp: same_ports_def)
qed

section \<open>A call that is not interrupted\<close>

text \<open>What is left of \<open>call_setup\<close> at each place.\<close>

definition then_effects ::
    "call_effect list \<Rightarrow> (call_effect list \<times> 'r) outcome \<Rightarrow> (call_effect list \<times> 'r) outcome" where
  "then_effects effs x = map_option (\<lambda>(effs', r). (effs @ effs', r)) x"

lemma then_effects_simps [simp]:
  "then_effects effs None = None" "then_effects effs (Some (effs', r)) = Some (effs @ effs', r)"
  "then_effects [] x = x" "then_effects effs (then_effects effs' x) = then_effects (effs @ effs') x"
  by (auto simp: then_effects_def option.map_comp comp_def case_prod_beta' option.map_ident)

definition rest_reject where
  "rest_reject env rr reason state w =
     Some (count_rejected rr # fst (reject_with env ServerInternalError (Some reason) []),
       Finished (ce_reject env), state, w)"

function setup_rest ::
    "('e, 'z, 'w, 's) call_env \<Rightarrow> ('e, 'z, 's) call_pc \<Rightarrow> server_state \<Rightarrow> 'w \<Rightarrow>
     (call_effect list \<times> ('e, 'z, 's) call_state \<times> server_state \<times> 'w) outcome" where
  "setup_rest env (SetUp res) state w = Some ([], res, state, w)"
| "setup_rest env (Answering offer session) state w =
     (let (effs, res, w) = accept_call env offer session w in Some (effs, res, state, w))"
| "setup_rest env (CreatingSession offer sp) state w =
     (case session_of env state offer sp w of
        (Inl e, w) \<Rightarrow> rest_reject env CodecInitFailed ''Unable to create codec'' state w
      | (Inr session, w) \<Rightarrow> setup_rest env (Answering offer session) state w)"
| "setup_rest env (ConnectingRtcp offer sp) state w =
     (case udp_connect (ce_udp env) (rtcp_socket sp) (peer_addr offer, peer_port offer) w of
        (Some e, w) \<Rightarrow> rest_reject env UdpConnectFailed ''Unable to connect to RTP peer'' state
                        (socket_pair_drop (ce_udp env) sp w)
      | (None, w) \<Rightarrow> setup_rest env (CreatingSession offer sp) state w)"
| "setup_rest env (ConnectingRtp offer sp) state w =
     (case socket_pair_connect (ce_udp env) sp (peer_addr offer, peer_port offer) w of
        (Inl e, w) \<Rightarrow> rest_reject env UdpConnectFailed ''Unable to connect to RTP peer'' state w
      | (Inr sp, w) \<Rightarrow> setup_rest env (CreatingSession offer sp) state w)"
| "setup_rest env (Picking offer i n) state w =
     (case allocate_loop (ce_chk env) (ce_udp env) (local_ip_addr state) n i (port_range state) w of
        None \<Rightarrow> None
      | Some (None, ops, r, w) \<Rightarrow>
          Some (map Metric ops @ count_rejected RtpPortPoolExhausted
              # fst (reject_with env ServiceUnavailable (Some ''No free RTP/RTCP port pair available'') []),
            Finished (ce_reject env), state\<lparr>port_range := r\<rparr>, w)
      | Some (Some sp, ops, r, w) \<Rightarrow>
          then_effects (map Metric ops) (setup_rest env (ConnectingRtp offer sp) (state\<lparr>port_range := r\<rparr>) w))"
| "setup_rest env (BindingRtcp offer i n pair rtp) state w =
     (case udp_bind (ce_udp env) (local_ip_addr state, Ports.rtcp_port pair) w of
        (None, w) \<Rightarrow> setup_rest env (Picking offer (i + 1) n) state (udp_drop (ce_udp env) rtp w)
      | (Some rtcp, w) \<Rightarrow>
          then_effects [Metric (HistogramRecord ports_allocation_attempts (real (i + 1)))]
            (setup_rest env (ConnectingRtp offer \<lparr>port_pair = pair, rtp_socket = rtp, rtcp_socket = rtcp\<rparr>) state w))"
| "setup_rest env (BindingRtp offer i n pair) state w =
     (case udp_bind (ce_udp env) (local_ip_addr state, Ports.rtp_port pair) w of
        (None, w) \<Rightarrow> setup_rest env (Picking offer (i + 1) n) state w
      | (Some rtp, w) \<Rightarrow> setup_rest env (BindingRtcp offer i n pair rtp) state w)"
| "setup_rest env Received state w = call_setup env state w"
  by pat_completeness auto
termination
  by (relation "measure (\<lambda>(env, pc, state, w). pc_steps 0 pc)") auto

lemma same_port_range [simp]: "state\<lparr>port_range := port_range state\<rparr> = (state :: server_state)"
  by (cases state) simp

lemma setup_rest_call: "setup_rest env Received state w =
    (case setup_step env Received state w of None \<Rightarrow> None
     | Some (effs, pc, state, w) \<Rightarrow> then_effects effs (setup_rest env pc state w))"
  by (simp add: call_setup_alt offer_of_def allocate_of_def session_of_def try_allocate_socket_pair_def reject_with_eq
      reject_step_eq rest_reject_def Let_def split: sum.split option.split prod.split)

lemma setup_rest_step: "setup_rest env pc state w =
    (case setup_step env pc state w of None \<Rightarrow> None
     | Some (effs, pc, state, w) \<Rightarrow> then_effects effs (setup_rest env pc state w))"
proof (cases "(env, pc, state, w)" rule: setup_step.cases)
  case (1 env state w)
  then show ?thesis by (simp only: prod.inject) (rule setup_rest_call)
qed (auto simp: reject_step_eq reject_with_eq rest_reject_def session_of_def peer_socket_addr_new_def
    socket_pair_connect_def socket_pair_drop_def rtp_socket_pair_new_def Let_def
    split: sum.splits option.splits prod.splits)

lemma setup_run_rest:
  assumes "range_capacity (ce_chk env) (port_range state) = Some cap" and "pc_steps (unat cap) pc \<le> n"
  shows "setup_run env n pc state w = map_option (\<lambda>(effs, res, s). (effs, SetUp res, s)) (setup_rest env pc state w)"
  using assms
proof (induction n arbitrary: pc state w)
  case 0
  then obtain res where "pc = SetUp res" by (metis le_zero_eq pc_steps_0)
  then show ?case by simp
next
  case (Suc n)
  show ?case
  proof (cases "setup_step env pc state w")
    case None
    then show ?thesis by (subst setup_rest_step) simp
  next
    case (Some x)
    then obtain effs pc' state' w' where st: "setup_step env pc state w = Some (effs, pc', state', w')"
      by (cases x) auto
    have "pc_steps (unat cap) pc' \<le> n"
      using setup_step_decreases [OF st Suc.prems(1)] Suc.prems(2) by auto
    moreover have "range_capacity (ce_chk env) (port_range state') = Some cap"
      using Suc.prems(1) setup_step_same_ports [OF st] by (simp add: same_ports_def range_capacity_def)
    ultimately show ?thesis
      using st Suc.IH [of state' pc' w'] by (subst setup_rest_step) (auto simp: then_effects_def split: option.splits)
  qed
qed

definition steps_of_call :: "('e, 'z, 'w, 's) call_env \<Rightarrow> server_state \<Rightarrow> nat" where
  "steps_of_call env state =
     (case range_capacity (ce_chk env) (port_range state) of None \<Rightarrow> 1 | Some cap \<Rightarrow> 3 * unat cap + 6)"

text \<open>C9.
  The steps of a call refine its set-up.  A call that no other interrupts runs through the places of
  \<open>call_pc\<close> to the end within three steps for every pair of the range and six more, and then its
  effects in their order, its result, the range with its cursor and the sockets are those of
  \<open>handle_call\<close> up to the wait; it panics in one exactly when it panics in the other.\<close>

theorem call_steps_refine_set_up:
  "setup_run env (steps_of_call env state + n) Received state w =
     map_option (\<lambda>(effs, res, state', w'). (effs, SetUp res, state', w')) (call_setup env state w)"
proof (cases "range_capacity (ce_chk env) (port_range state)")
  case None
  have run: "setup_run env n (SetUp res) s v = Some ([], SetUp res, s, v)" for n res s v
    by (induction n) simp_all
  show ?thesis
    using None by (simp add: steps_of_call_def call_setup_def try_allocate_socket_pair_def reject_step_eq run
        reject_with_eq Let_def split: sum.split)
next
  case (Some cap)
  then have "pc_steps (unat cap) Received \<le> steps_of_call env state + n" by (simp add: steps_of_call_def)
  from setup_run_rest [OF Some this] show ?thesis by (simp add: case_prod_beta')
qed

section \<open>The sockets a call holds\<close>

fun pc_sockets :: "('e, 'z, 's) call_pc \<Rightarrow> 's list" where
  "pc_sockets (BindingRtcp _ _ _ _ rtp) = [rtp]"
| "pc_sockets (ConnectingRtp _ sp) = [rtp_socket sp, rtcp_socket sp]"
| "pc_sockets (ConnectingRtcp _ sp) = [rtp_socket sp, rtcp_socket sp]"
| "pc_sockets (CreatingSession _ sp) = [rtp_socket sp, rtcp_socket sp]"
| "pc_sockets (Answering _ session) =
     [rtp_socket (Session.rtp_socket_pair session), rtcp_socket (Session.rtp_socket_pair session)]"
| "pc_sockets (SetUp (Active started _)) = [ss_socket started]"
| "pc_sockets _ = []"

definition range_pairs :: "rtp_port_range \<Rightarrow> rtp_port_pair set" where
  "range_pairs r = range_pair r ` {..<range_size r}"

definition bound_pair :: "('s \<Rightarrow> sock_addr) \<Rightarrow> ip_addr \<Rightarrow> rtp_port_range \<Rightarrow> 's rtp_socket_pair \<Rightarrow> bool" where
  "bound_pair addr ip r sp \<longleftrightarrow> port_pair sp \<in> range_pairs r \<and>
     addr (rtp_socket sp) = (ip, Ports.rtp_port (port_pair sp)) \<and>
     addr (rtcp_socket sp) = (ip, Ports.rtcp_port (port_pair sp))"

text \<open>The sockets of a call are on the local address and the ports of a pair of the range, and its guard
  is that of the active calls.\<close>

fun pc_ok :: "('s \<Rightarrow> sock_addr) \<Rightarrow> ip_addr \<Rightarrow> rtp_port_range \<Rightarrow> ('e, 'z, 's) call_pc \<Rightarrow> bool" where
  "pc_ok addr ip r (BindingRtp _ _ _ p) = (p \<in> range_pairs r)"
| "pc_ok addr ip r (BindingRtcp _ _ _ p rtp) = (p \<in> range_pairs r \<and> addr rtp = (ip, Ports.rtp_port p))"
| "pc_ok addr ip r (ConnectingRtp _ sp) = bound_pair addr ip r sp"
| "pc_ok addr ip r (ConnectingRtcp _ sp) = bound_pair addr ip r sp"
| "pc_ok addr ip r (CreatingSession _ sp) = bound_pair addr ip r sp"
| "pc_ok addr ip r (Answering _ session) = bound_pair addr ip r (Session.rtp_socket_pair session)"
| "pc_ok addr ip r (SetUp (Active started guard)) =
     ((\<exists>p \<in> range_pairs r. addr (ss_socket started) = (ip, Ports.rtp_port p)) \<and> guard = ScopedGauge calls_active)"
| "pc_ok _ _ _ _ = True"

lemma range_pairs_ports:
  assumes "range_ok r" and "first_rtp_port r \<noteq> 0" and "p \<in> range_pairs r"
  shows "Ports.rtp_port p \<noteq> 0" "Ports.rtcp_port p \<noteq> 0" "Ports.rtp_port p \<noteq> Ports.rtcp_port p"
  using assms range_pair_ports [OF assms(1,2)] by (auto simp: range_pairs_def)

lemma same_range_pairs: "same_ports r r' \<Longrightarrow> range_pairs r' = range_pairs r"
  by (simp add: range_pairs_def same_portsD)

lemma udp_lawsD:
  assumes "udp_laws os free addr"
  shows "snd a \<noteq> 0 \<Longrightarrow> a \<in> free w \<Longrightarrow> \<exists>s w'. udp_bind os a w = (Some s, w') \<and> addr s = a \<and> free w' = free w - {a}"
    and "snd a \<noteq> 0 \<Longrightarrow> a \<notin> free w \<Longrightarrow> \<exists>w'. udp_bind os a w = (None, w') \<and> free w' = free w"
    and "free (udp_drop os s w) = insert (addr s) (free w)"
    and "udp_connect os s q w = (e, w') \<Longrightarrow> free w' = free w"
    and "free (socket_pair_drop os sp w) = free w \<union> {addr (rtp_socket sp), addr (rtcp_socket sp)}"
proof -
  show "snd a \<noteq> 0 \<Longrightarrow> a \<in> free w \<Longrightarrow> \<exists>s w'. udp_bind os a w = (Some s, w') \<and> addr s = a \<and> free w' = free w - {a}"
    "snd a \<noteq> 0 \<Longrightarrow> a \<notin> free w \<Longrightarrow> \<exists>w'. udp_bind os a w = (None, w') \<and> free w' = free w"
    using assms unfolding udp_laws_def by blast+
  have d: "free (udp_drop os s w) = insert (addr s) (free w)" for s w
    using assms unfolding udp_laws_def by blast
  then show "free (udp_drop os s w) = insert (addr s) (free w)" .
  have "free (snd (udp_connect os s q w)) = free w" using assms unfolding udp_laws_def by blast
  then show "udp_connect os s q w = (e, w') \<Longrightarrow> free w' = free w" by simp
  show "free (socket_pair_drop os sp w) = free w \<union> {addr (rtp_socket sp), addr (rtcp_socket sp)}"
    by (auto simp: socket_pair_drop_def d)
qed

lemma next_port_pair_in_range:
  assumes "range_ok r"
  shows "\<exists>p r'. next_port_pair chk r = Some (p, r') \<and> p \<in> range_pairs r \<and> range_ok r' \<and> same_ports r r'"
proof -
  obtain r' where r': "next_port_pair chk r = Some (range_pair r (range_index r), r')" "range_ok r'"
    using next_port_pair_ok [OF assms] by blast
  moreover have "same_ports r r'"
    using r'(1) by (auto simp: next_port_pair_def same_ports_def Let_def split: option.splits)
  moreover have "range_pair r (range_index r) \<in> range_pairs r"
    using ports.idx_less [OF assms] by (simp add: range_pairs_def)
  ultimately show ?thesis by blast
qed

text \<open>
  What a step keeps, for a call that shares the range \<open>r\<close>, wherever its cursor is.
\<close>

definition step_keeps ::
    "('w \<Rightarrow> sock_addr set) \<Rightarrow> ('s \<Rightarrow> sock_addr) \<Rightarrow> ip_addr \<Rightarrow> rtp_port_range \<Rightarrow> ('e, 'z, 's) call_pc \<Rightarrow> 'w \<Rightarrow>
     (call_effect list \<times> ('e, 'z, 's) call_pc \<times> server_state \<times> 'w) outcome \<Rightarrow> bool" where
  "step_keeps free addr ip r pc w res \<longleftrightarrow>
     (case res of
        None \<Rightarrow> False
      | Some (effs, pc', state', w') \<Rightarrow>
          range_ok (port_range state') \<and> same_ports r (port_range state') \<and> local_ip_addr state' = ip \<and>
          pc_ok addr ip r pc' \<and>
          moves (map addr (pc_sockets pc)) (free w) (map addr (pc_sockets pc')) (free w'))"

lemma same_ports_trans: "same_ports r s \<Longrightarrow> same_ports s t \<Longrightarrow> same_ports r t"
  by (simp add: same_ports_def)

lemma step_keeps_bind:
  assumes laws: "udp_laws (ce_udp env) free addr"
    and range: "range_ok (port_range state)" "same_ports r (port_range state)" "first_rtp_port r \<noteq> 0"
    and pc: "pc = BindingRtp offer i n p \<or> pc = BindingRtcp offer i n p rtp"
    and ok: "pc_ok addr (local_ip_addr state) r pc" "set (map addr (pc_sockets pc)) \<inter> free w = {}"
  shows "step_keeps free addr (local_ip_addr state) r pc w (setup_step env pc state w)"
proof -
  have pairs: "range_pairs (port_range state) = range_pairs r" "first_rtp_port (port_range state) \<noteq> 0"
    using range(2,3) same_range_pairs [OF range(2)] by (simp_all add: same_ports_def)
  have "p \<in> range_pairs r" using pc ok(1) by auto
  note ports = range_pairs_ports [OF range(1) pairs(2), unfolded pairs(1), OF this]
  note bind = udp_lawsD(1,2) [OF laws] and drop = udp_lawsD(3) [OF laws]
  show ?thesis
    using pc
  proof
    assume b: "pc = BindingRtp offer i n p"
    show ?thesis
    proof (cases "(local_ip_addr state, Ports.rtp_port p) \<in> free w")
      case True
      then obtain s w' where "udp_bind (ce_udp env) (local_ip_addr state, Ports.rtp_port p) w = (Some s, w')"
        "addr s = (local_ip_addr state, Ports.rtp_port p)" "free w' = free w - {(local_ip_addr state, Ports.rtp_port p)}"
        using bind(1) [of "(local_ip_addr state, Ports.rtp_port p)" w] ports by auto
      then show ?thesis using b range ok True by (auto simp: step_keeps_def moves_def)
    next
      case False
      then obtain w' where "udp_bind (ce_udp env) (local_ip_addr state, Ports.rtp_port p) w = (None, w')" "free w' = free w"
        using bind(2) [of "(local_ip_addr state, Ports.rtp_port p)" w] ports by auto
      then show ?thesis using b range ok by (auto simp: step_keeps_def moves_def)
    qed
  next
    assume b: "pc = BindingRtcp offer i n p rtp"
    show ?thesis
    proof (cases "(local_ip_addr state, Ports.rtcp_port p) \<in> free w")
      case True
      then obtain s w' where "udp_bind (ce_udp env) (local_ip_addr state, Ports.rtcp_port p) w = (Some s, w')"
        "addr s = (local_ip_addr state, Ports.rtcp_port p)" "free w' = free w - {(local_ip_addr state, Ports.rtcp_port p)}"
        using bind(1) [of "(local_ip_addr state, Ports.rtcp_port p)" w] ports by auto
      then show ?thesis
        using b range ok True ports by (auto simp: step_keeps_def moves_def bound_pair_def)
    next
      case False
      then obtain w' where "udp_bind (ce_udp env) (local_ip_addr state, Ports.rtcp_port p) w = (None, w')" "free w' = free w"
        using bind(2) [of "(local_ip_addr state, Ports.rtcp_port p)" w] ports by auto
      then show ?thesis using b range ok by (auto simp: step_keeps_def moves_def drop)
    qed
  qed
qed

lemma step_keeps_session:
  assumes laws: "udp_laws (ce_udp env) free addr" and range: "range_ok (port_range state)" "same_ports r (port_range state)"
    and pc: "pc = ConnectingRtp offer sp \<or> pc = ConnectingRtcp offer sp \<or> pc = CreatingSession offer sp \<or>
      pc = Answering offer session"
    and ok: "pc_ok addr (local_ip_addr state) r pc" "distinct (map addr (pc_sockets pc))"
      "set (map addr (pc_sockets pc)) \<inter> free w = {}"
  shows "step_keeps free addr (local_ip_addr state) r pc w (setup_step env pc state w)"
  using pc
proof (elim disjE)
  assume a: "pc = Answering offer session"
  let ?sp = "Session.rtp_socket_pair session"
  show ?thesis
  proof (cases "ce_accept env = None")
    case True
    obtain started w' where st: "media_session_start (ce_udp env) (ce_sleep env) (ce_now env) (ce_ssrc env)
        (ce_sequence env) (ce_timestamp env) (ce_calls env) session w = (started, w')" by force
    have "addr (rtp_socket ?sp) \<notin> free w" "addr (rtcp_socket ?sp) \<noteq> addr (rtp_socket ?sp)"
      using a ok(2,3) by auto
    then have "free w' = (free w \<union> {addr (rtp_socket ?sp), addr (rtcp_socket ?sp)}) - {addr (ss_socket started)}"
      unfolding start_spec(1,2) [OF laws st] by auto
    then show ?thesis
      using a True st range ok(1) start_spec(2) [OF laws st]
      by (auto simp: step_keeps_def moves_def accept_call_eq bound_pair_def)
  next
    case False
    then show ?thesis
      using a range by (auto simp: step_keeps_def moves_def accept_call_eq udp_lawsD(5) [OF laws])
  qed
qed (use range ok in \<open>auto simp: step_keeps_def moves_def reject_step_eq media_session_new_def bound_pair_def
    udp_lawsD(5) [OF laws] dest!: udp_lawsD(4) [OF laws] split: prod.splits option.splits sum.splits\<close>)

lemma setup_step_keeps:
  assumes laws: "udp_laws (ce_udp env) free addr"
    and range: "range_ok (port_range state)" "same_ports r (port_range state)" "first_rtp_port r \<noteq> 0"
    and ok: "pc_ok addr (local_ip_addr state) r pc" "distinct (map addr (pc_sockets pc))"
      "set (map addr (pc_sockets pc)) \<inter> free w = {}"
  shows "step_keeps free addr (local_ip_addr state) r pc w (setup_step env pc state w)"
proof (cases "(env, pc, state, w)" rule: setup_step.cases)
  case (3 env' offer i n state' w')
  obtain p r' where "next_port_pair (ce_chk env) (port_range state) = Some (p, r')"
    "p \<in> range_pairs r" "range_ok r'" "same_ports r r'"
    using next_port_pair_in_range [OF range(1), of "ce_chk env"] same_range_pairs [OF range(2)]
      same_ports_trans [OF range(2)] by auto
  then show ?thesis using 3 by (simp add: step_keeps_def moves_def)
next
  case (4 env' offer i n p state' w')
  then show ?thesis using step_keeps_bind [OF laws range _ ok(1,3)] by blast
next
  case (5 env' offer i n p rtp state' w')
  then show ?thesis using step_keeps_bind [OF laws range _ ok(1,3)] by blast
next
  case (10 env' res state' w')
  then show ?thesis using range ok by (auto simp: step_keeps_def moves_same)
next
  case (1 env' state' w')
  then show ?thesis
    using range ok by (auto simp: step_keeps_def moves_def reject_step_eq range_capacity_ok split: sum.splits)
next
  case (2 env' offer i state' w')
  then show ?thesis using range ok by (auto simp: step_keeps_def moves_def reject_step_eq)
qed (rule step_keeps_session [OF laws range(1,2) _ ok], simp)+

section \<open>What a call sends\<close>

fun pc_done :: "('e, 'z, 's) call_pc \<Rightarrow> bool" where
  "pc_done (SetUp _) = True"
| "pc_done _ = False"

fun pc_active :: "('e, 'z, 's) call_pc \<Rightarrow> bool" where
  "pc_active (SetUp (Active _ _)) = True"
| "pc_active _ = False"

lemma pc_active_done: "pc_active pc \<Longrightarrow> pc_done pc"
  by (cases pc) auto

definition finals :: "call_effect list \<Rightarrow> nat" where
  "finals effs = length (filter is_final effs)"

definition byes :: "call_effect list \<Rightarrow> nat" where
  "byes effs = length (filter (\<lambda>e. e = Bye) effs)"

lemma finals_simps [simp]:
  "finals [] = 0" "finals (e # effs) = (if is_final e then 1 else 0) + finals effs"
  "finals (xs @ ys) = finals xs + finals ys"
  by (simp_all add: finals_def)

lemma byes_simps [simp]:
  "byes [] = 0" "byes (e # effs) = (if e = Bye then 1 else 0) + byes effs" "byes (xs @ ys) = byes xs + byes ys"
  by (simp_all add: byes_def)

text \<open>
  The final response goes out with the last step and no other; no step sends a BYE; and the gauge of
  active calls goes up when the call becomes active.
\<close>

lemma setup_step_effects:
  assumes "setup_step env pc state w = Some (effs, pc', state', w')"
  shows "finals effs = (if pc_done pc' \<and> \<not> pc_done pc then 1 else 0)" "byes effs = 0"
    "gauge_delta calls_active (effect_metrics effs) = (if pc_active pc' \<and> \<not> pc_done pc then 1 else 0)"
    "pc_done pc \<Longrightarrow> pc' = pc \<and> effs = []"
  using assms
  by (atomize(full), cases "(env, pc, state, w)" rule: setup_step.cases)
    (auto simp: reject_step_eq reject_with_eq count_rejected_def accept_call_eq accept_effect_def Let_def
      split: sum.splits option.splits prod.splits if_splits)

end
