(* ===== verification/PortPool.thy ===== *)
theory PortPool
  imports CallSteps
begin

text \<open>
  The calls of one server, which share its port range and the operating system's sockets: the
  spawned \<open>handle_call\<close>s of \<open>process_dialog_states\<close> (\<open>server.rs\<close>) in any interleaving of their steps,
  and the ends of their sessions, when both tasks have dropped the RTP socket they share
  (\<open>MediaSession::start\<close>, \<open>media/session.rs\<close>).  An event of the run is the arrival of a call, a step of
  one call, the end of one session or of one dialog.
\<close>

datatype ('e, 'z, 'w, 's) pool_event =
    CallArrives "('e, 'z, 'w, 's) call_env"
  | CallAdvances nat
  | SessionEnds nat
  | DialogEnds nat

text \<open>
  A spawned call: where it is, what it has done, whether its sockets are still its own, and whether
  it has returned after its wait.
\<close>

record ('e, 'z, 'w, 's) spawned_call =
  sc_env :: "('e, 'z, 'w, 's) call_env"
  sc_pc :: "('e, 'z, 's) call_pc"
  sc_log :: "call_effect list"
  sc_open :: bool
  sc_over :: bool

record ('e, 'z, 'w, 's) pool =
  pool_state :: server_state
  pool_world :: 'w
  pool_calls :: "('e, 'z, 'w, 's) spawned_call list"

definition spawn_call :: "('e, 'z, 'w, 's) call_env \<Rightarrow> ('e, 'z, 'w, 's) spawned_call" where
  "spawn_call env = \<lparr>sc_env = env, sc_pc = Received, sc_log = [], sc_open = True, sc_over = False\<rparr>"

text \<open>The last owner of the shared RTP socket drops it.\<close>

definition session_socket_drop :: "('w, 's) udp_ops \<Rightarrow> ('e, 'z, 's) started_session \<Rightarrow> 'w \<Rightarrow> 'w" where
  "session_socket_drop os started w = udp_drop os (ss_socket started) w"

definition advance_call ::
    "nat \<Rightarrow> ('e, 'z, 'w, 's) pool \<Rightarrow> ('e, 'z, 'w, 's) pool outcome" where
  "advance_call i p =
     (let c = pool_calls p ! i
      in case setup_step (sc_env c) (sc_pc c) (pool_state p) (pool_world p) of
           None \<Rightarrow> None
         | Some (effs, pc, state, w) \<Rightarrow>
             Some \<lparr>pool_state = state, pool_world = w,
                   pool_calls = (pool_calls p)[i := c\<lparr>sc_pc := pc, sc_log := sc_log c @ effs\<rparr>]\<rparr>)"

definition end_session :: "nat \<Rightarrow> ('e, 'z, 'w, 's) pool \<Rightarrow> ('e, 'z, 'w, 's) pool" where
  "end_session i p =
     (let c = pool_calls p ! i
      in case sc_pc c of
           SetUp (Active started _) \<Rightarrow>
             (if sc_open c
              then p\<lparr>pool_world := session_socket_drop (ce_udp (sc_env c)) started (pool_world p),
                     pool_calls := (pool_calls p)[i := c\<lparr>sc_open := False\<rparr>]\<rparr>
              else p)
         | _ \<Rightarrow> p)"

definition end_dialog :: "nat \<Rightarrow> ('e, 'z, 'w, 's) pool \<Rightarrow> ('e, 'z, 'w, 's) pool" where
  "end_dialog i p =
     (let c = pool_calls p ! i
      in case sc_pc c of
           SetUp (Active _ guard) \<Rightarrow>
             (if sc_over c then p
              else p\<lparr>pool_calls := (pool_calls p)
                      [i := c\<lparr>sc_log := sc_log c @ call_teardown guard, sc_over := True\<rparr>]\<rparr>)
         | _ \<Rightarrow> p)"

fun pool_step ::
    "('e, 'z, 'w, 's) pool_event \<Rightarrow> ('e, 'z, 'w, 's) pool \<Rightarrow> ('e, 'z, 'w, 's) pool outcome" where
  "pool_step (CallArrives env) p = Some (p\<lparr>pool_calls := pool_calls p @ [spawn_call env]\<rparr>)"
| "pool_step (CallAdvances i) p = (if i < length (pool_calls p) then advance_call i p else Some p)"
| "pool_step (SessionEnds i) p = Some (if i < length (pool_calls p) then end_session i p else p)"
| "pool_step (DialogEnds i) p = Some (if i < length (pool_calls p) then end_dialog i p else p)"

fun pool_run ::
    "('e, 'z, 'w, 's) pool_event list \<Rightarrow> ('e, 'z, 'w, 's) pool \<Rightarrow> ('e, 'z, 'w, 's) pool outcome" where
  "pool_run [] p = Some p"
| "pool_run (ev # evs) p =
     (case pool_step ev p of None \<Rightarrow> None | Some p \<Rightarrow> pool_run evs p)"

definition pool_start :: "server_state \<Rightarrow> 'w \<Rightarrow> ('e, 'z, 'w, 's) pool" where
  "pool_start state w = \<lparr>pool_state = state, pool_world = w, pool_calls = []\<rparr>"

section \<open>The invariant\<close>

definition held_addrs :: "('s \<Rightarrow> sock_addr) \<Rightarrow> ('e, 'z, 'w, 's) spawned_call \<Rightarrow> sock_addr list" where
  "held_addrs addr c = (if sc_open c then map addr (pc_sockets (sc_pc c)) else [])"

text \<open>What is true of one call, from what it has sent to where its sockets are.\<close>

definition call_waits :: "('e, 'z, 'w, 's) spawned_call \<Rightarrow> bool" where
  "call_waits c \<longleftrightarrow> pc_active (sc_pc c) \<and> \<not> sc_over c"

definition log_ok :: "('e, 'z, 'w, 's) spawned_call \<Rightarrow> bool" where
  "log_ok c \<longleftrightarrow>
     finals (sc_log c) = (if pc_done (sc_pc c) then 1 else 0) \<and>
     byes (sc_log c) = (if sc_over c then 1 else 0) \<and>
     gauge_delta calls_active (effect_metrics (sc_log c)) = (if call_waits c then 1 else 0)"

definition call_ok ::
    "('w, 's) udp_ops \<Rightarrow> ('s \<Rightarrow> sock_addr) \<Rightarrow> server_state \<Rightarrow> ('e, 'z, 'w, 's) spawned_call \<Rightarrow> bool" where
  "call_ok os addr state c \<longleftrightarrow>
     ce_udp (sc_env c) = os \<and> pc_ok addr (local_ip_addr state) (port_range state) (sc_pc c) \<and>
     (sc_over c \<longrightarrow> pc_active (sc_pc c)) \<and> (\<not> sc_open c \<longrightarrow> pc_active (sc_pc c)) \<and> log_ok c"

definition pool_inv ::
    "('w, 's) udp_ops \<Rightarrow> ('w \<Rightarrow> sock_addr set) \<Rightarrow> ('s \<Rightarrow> sock_addr) \<Rightarrow> server_state \<Rightarrow> 'w \<Rightarrow>
     ('e, 'z, 'w, 's) pool \<Rightarrow> bool" where
  "pool_inv os free addr state w p \<longleftrightarrow>
     range_ok (port_range (pool_state p)) \<and> same_ports (port_range state) (port_range (pool_state p)) \<and>
     local_ip_addr (pool_state p) = local_ip_addr state \<and>
     owns (free w) (map (held_addrs addr) (pool_calls p)) (free (pool_world p)) \<and>
     list_all (call_ok os addr state) (pool_calls p)"

lemma pool_inv_start: "range_ok (port_range state) \<Longrightarrow> pool_inv os free addr state w (pool_start state w)"
  by (simp add: pool_inv_def pool_start_def same_ports_def)

text \<open>One call is replaced, by one that is as good.\<close>

lemma pool_inv_update:
  assumes "pool_inv os free addr state w p" and "i < length (pool_calls p)"
    and "range_ok (port_range st)" "same_ports (port_range state) (port_range st)" "local_ip_addr st = local_ip_addr state"
    and "moves (held_addrs addr (pool_calls p ! i)) (free (pool_world p)) (held_addrs addr c) (free w')"
    and "call_ok os addr state c"
  shows "pool_inv os free addr state w \<lparr>pool_state = st, pool_world = w', pool_calls = (pool_calls p)[i := c]\<rparr>"
  using assms owns_moves [of "free w" "map (held_addrs addr) (pool_calls p)" "free (pool_world p)" i]
  by (auto simp: pool_inv_def map_update list_all_length nth_list_update)

lemma pool_inv_nth:
  assumes "pool_inv os free addr state w p" and "i < length (pool_calls p)"
  shows "call_ok os addr state (pool_calls p ! i)" "distinct (held_addrs addr (pool_calls p ! i))"
    "set (held_addrs addr (pool_calls p ! i)) \<inter> free (pool_world p) = {}"
  using assms owns_nth [of "free w" "map (held_addrs addr) (pool_calls p)" "free (pool_world p)" i]
  by (auto simp: pool_inv_def list_all_length)

lemma pool_eta: "\<lparr>pool_state = pool_state p, pool_world = pool_world p, pool_calls = pool_calls p\<rparr> = p"
  by simp

lemma setup_step_done: "pc_done pc \<Longrightarrow> setup_step env pc state w = Some ([], pc, state, w)"
  by (cases pc) auto

lemma log_ok_advance:
  assumes "setup_step (sc_env c) (sc_pc c) st v = Some (effs, pc', st', v')" and "log_ok c"
    and "sc_over c \<longrightarrow> pc_active (sc_pc c)"
  shows "log_ok (c\<lparr>sc_pc := pc', sc_log := sc_log c @ effs\<rparr>)"
proof (cases "pc_done (sc_pc c)")
  case True
  then show ?thesis using assms setup_step_effects(4) [OF assms(1)] by (simp add: log_ok_def call_waits_def)
next
  case False
  then have "\<not> pc_active (sc_pc c)" "\<not> sc_over c" using assms(3) pc_active_done by blast+
  then show ?thesis
    using False assms(2) setup_step_effects(1-3) [OF assms(1)] by (simp add: log_ok_def call_waits_def)
qed

lemma advance_call_inv:
  assumes laws: "udp_laws os free addr" and ports: "first_rtp_port (port_range state) \<noteq> 0"
    and inv: "pool_inv os free addr state w p" and i: "i < length (pool_calls p)"
  shows "\<exists>p'. advance_call i p = Some p' \<and> pool_inv os free addr state w p'"
proof -
  let ?c = "pool_calls p ! i"
  note c = pool_inv_nth [OF inv i]
  have st: "range_ok (port_range (pool_state p))" "same_ports (port_range state) (port_range (pool_state p))"
    "local_ip_addr (pool_state p) = local_ip_addr state"
    using inv by (auto simp: pool_inv_def)
  have env: "ce_udp (sc_env ?c) = os" using c(1) by (simp add: call_ok_def)
  show ?thesis
  proof (cases "pc_done (sc_pc ?c)")
    case True
    then have "advance_call i p = Some p" by (simp add: advance_call_def setup_step_done)
    then show ?thesis using inv by blast
  next
    case False
    then have "\<not> pc_active (sc_pc ?c)" using pc_active_done by blast
    then have run: "sc_open ?c" "\<not> sc_over ?c" using c(1) by (auto simp: call_ok_def)
    have "step_keeps free addr (local_ip_addr (pool_state p)) (port_range state) (sc_pc ?c) (pool_world p)
        (setup_step (sc_env ?c) (sc_pc ?c) (pool_state p) (pool_world p))"
      using c run st(3) by (intro setup_step_keeps [OF laws [folded env] st(1,2) ports])
        (simp_all add: call_ok_def held_addrs_def)
    then obtain effs pc' st' v' where s: "setup_step (sc_env ?c) (sc_pc ?c) (pool_state p) (pool_world p) = Some (effs, pc', st', v')"
      "range_ok (port_range st')" "same_ports (port_range state) (port_range st')" "local_ip_addr st' = local_ip_addr state"
      "pc_ok addr (local_ip_addr state) (port_range state) pc'"
      "moves (map addr (pc_sockets (sc_pc ?c))) (free (pool_world p)) (map addr (pc_sockets pc')) (free v')"
      by (auto simp: step_keeps_def st(3) split: option.splits)
    let ?c' = "?c\<lparr>sc_pc := pc', sc_log := sc_log ?c @ effs\<rparr>"
    have "call_ok os addr state ?c'"
      using c(1) s(5) run log_ok_advance [OF s(1)] by (simp add: call_ok_def)
    moreover have "moves (held_addrs addr ?c) (free (pool_world p)) (held_addrs addr ?c') (free v')"
      using s(6) run by (simp add: held_addrs_def)
    ultimately show ?thesis
      using pool_inv_update [OF inv i s(2-4), of ?c' v'] s(1) by (simp add: advance_call_def Let_def)
  qed
qed

lemma end_session_inv:
  assumes laws: "udp_laws os free addr"
    and inv: "pool_inv os free addr state w p" and i: "i < length (pool_calls p)"
  shows "pool_inv os free addr state w (end_session i p)"
proof (cases "pc_active (sc_pc (pool_calls p ! i)) \<and> sc_open (pool_calls p ! i)")
  case False
  then have "end_session i p = p"
    by (auto simp: end_session_def Let_def split: call_pc.split call_state.split)
  then show ?thesis using inv by simp
next
  case True
  let ?c = "pool_calls p ! i"
  note c = pool_inv_nth [OF inv i]
  obtain started guard where a: "sc_pc ?c = SetUp (Active started guard)"
    using True by (cases "sc_pc ?c" rule: pc_active.cases) auto
  let ?w' = "session_socket_drop os started (pool_world p)" and ?c' = "?c\<lparr>sc_open := False\<rparr>"
  have "free ?w' = insert (addr (ss_socket started)) (free (pool_world p))"
    by (simp add: session_socket_drop_def udp_lawsD(3) [OF laws])
  then have "moves (held_addrs addr ?c) (free (pool_world p)) (held_addrs addr ?c') (free ?w')"
    using True a by (simp add: moves_def held_addrs_def)
  moreover have "call_ok os addr state ?c'"
    using c(1) a by (simp add: call_ok_def log_ok_def call_waits_def)
  moreover have "ce_udp (sc_env ?c) = os" using c(1) by (simp add: call_ok_def)
  ultimately show ?thesis
    using pool_inv_update [OF inv i, of "pool_state p" ?c' ?w'] inv True a
    by (simp add: end_session_def pool_inv_def Let_def)
qed

lemma end_dialog_inv:
  assumes inv: "pool_inv os free addr state w p" and i: "i < length (pool_calls p)"
  shows "pool_inv os free addr state w (end_dialog i p)"
proof (cases "call_waits (pool_calls p ! i)")
  case False
  then have "end_dialog i p = p"
    by (auto simp: end_dialog_def call_waits_def Let_def split: call_pc.split call_state.split)
  then show ?thesis using inv by simp
next
  case True
  let ?c = "pool_calls p ! i"
  note c = pool_inv_nth [OF inv i]
  obtain started guard where a: "sc_pc ?c = SetUp (Active started guard)" "\<not> sc_over ?c"
    using True by (cases "sc_pc ?c" rule: pc_active.cases) (auto simp: call_waits_def)
  let ?c' = "?c\<lparr>sc_log := sc_log ?c @ call_teardown guard, sc_over := True\<rparr>"
  have "log_ok ?c'"
    using c(1) a
    by (auto simp: log_ok_def call_waits_def call_ok_def call_teardown_def)
  then have "call_ok os addr state ?c'" using c(1) a by (simp add: call_ok_def)
  moreover have "moves (held_addrs addr ?c) (free (pool_world p)) (held_addrs addr ?c') (free (pool_world p))"
    using moves_same [OF c(2,3)] by (auto simp: held_addrs_def split: if_splits)
  ultimately show ?thesis
    using pool_inv_update [OF inv i, of "pool_state p" ?c' "pool_world p"] inv a
    by (simp add: end_dialog_def pool_inv_def Let_def)
qed

text \<open>Calls of the operating system \<open>os\<close>.\<close>

fun event_of :: "('w, 's) udp_ops \<Rightarrow> ('e, 'z, 'w, 's) pool_event \<Rightarrow> bool" where
  "event_of os (CallArrives env) \<longleftrightarrow> ce_udp env = os"
| "event_of os _ \<longleftrightarrow> True"

lemma pool_step_inv:
  assumes "udp_laws os free addr" and "first_rtp_port (port_range state) \<noteq> 0"
    and inv: "pool_inv os free addr state w p" and "event_of os ev"
  shows "\<exists>p'. pool_step ev p = Some p' \<and> pool_inv os free addr state w p'"
proof (cases ev)
  case (CallArrives env)
  then have "call_ok os addr state (spawn_call env)" "held_addrs addr (spawn_call env) = []"
    using assms(4) by (auto simp: call_ok_def spawn_call_def log_ok_def call_waits_def held_addrs_def)
  then show ?thesis using CallArrives inv by (simp add: pool_inv_def)
next
  case (CallAdvances i)
  then show ?thesis using advance_call_inv [OF assms(1-3), of i] inv by simp
next
  case (SessionEnds i)
  then show ?thesis using end_session_inv [OF assms(1,3), of i] inv by simp
next
  case (DialogEnds i)
  then show ?thesis using end_dialog_inv [OF assms(3), of i] inv by simp
qed

lemma pool_run_inv:
  assumes "udp_laws os free addr" and "first_rtp_port (port_range state) \<noteq> 0"
    and "list_all (event_of os) evs" and "pool_inv os free addr state w p"
  shows "\<exists>p'. pool_run evs p = Some p' \<and> pool_inv os free addr state w p'"
  using assms(3,4)
proof (induction evs arbitrary: p)
  case (Cons ev evs)
  obtain p1 where "pool_step ev p = Some p1" "pool_inv os free addr state w p1"
    using pool_step_inv [OF assms(1,2) Cons.prems(2), of ev] Cons.prems(1)
    by auto
  then show ?case using Cons by simp
qed simp

section \<open>What the calls hold\<close>

definition pool_held :: "('s \<Rightarrow> sock_addr) \<Rightarrow> ('e, 'z, 'w, 's) pool \<Rightarrow> sock_addr list" where
  "pool_held addr p = concat (map (held_addrs addr) (pool_calls p))"

text \<open>Sessions that are still using their socket.\<close>

definition session_live :: "('e, 'z, 'w, 's) spawned_call \<Rightarrow> bool" where
  "session_live c \<longleftrightarrow> pc_active (sc_pc c) \<and> sc_open c"

definition range_addrs :: "ip_addr \<Rightarrow> rtp_port_range \<Rightarrow> sock_addr set" where
  "range_addrs ip r = (\<Union>p \<in> range_pairs r. pair_addrs ip p)"

lemma held_in_range:
  "call_ok os addr state c \<Longrightarrow>
   set (held_addrs addr c) \<subseteq> range_addrs (local_ip_addr state) (port_range state)"
  by (cases "sc_pc c" rule: pc_sockets.cases)
    (auto simp: call_ok_def held_addrs_def range_addrs_def pair_addrs_def bound_pair_def)

lemma live_held:
  assumes "call_ok os addr state c" and "session_live c"
  shows "\<exists>p \<in> range_pairs (port_range state). held_addrs addr c = [(local_ip_addr state, Ports.rtp_port p)]"
  using assms by (cases "sc_pc c" rule: pc_active.cases) (auto simp: session_live_def call_ok_def held_addrs_def)

lemma distinct_concat_filter:
  "distinct (concat (map f xs)) \<Longrightarrow> distinct (concat (map f (filter P xs)))"
  by (induction xs) auto

lemma live_sessions_fit:
  assumes "pool_inv os free addr state w p"
  shows "length (filter session_live (pool_calls p)) \<le> range_size (port_range state)"
proof -
  let ?live = "filter session_live (pool_calls p)"
  let ?as = "concat (map (held_addrs addr) ?live)"
  let ?all = "(\<lambda>p. (local_ip_addr state, Ports.rtp_port p)) ` range_pairs (port_range state)"
  have one: "\<exists>a \<in> ?all. held_addrs addr c = [a]" if "c \<in> set ?live" for c
    using live_held [of os addr state c] that assms by (auto simp: pool_inv_def list_all_iff)
  have "length (concat (map (held_addrs addr) cs)) = length cs \<and> set (concat (map (held_addrs addr) cs)) \<subseteq> ?all"
    if "\<And>c. c \<in> set cs \<Longrightarrow> \<exists>a \<in> ?all. held_addrs addr c = [a]" for cs
    using that by (induction cs) force+
  note as = this [OF one]
  have fin: "finite (range_pairs (port_range state))" by (simp add: range_pairs_def)
  have "distinct ?as"
    using assms by (auto simp: pool_inv_def owns_def intro: distinct_concat_filter)
  then have "length ?live = card (set ?as)" using distinct_card [of ?as] as [of ?live] by metis
  also have "\<dots> \<le> card ?all" using as [of ?live] fin by (intro card_mono) simp_all
  also have "\<dots> \<le> card (range_pairs (port_range state))" using fin by (rule card_image_le)
  also have "\<dots> \<le> range_size (port_range state)"
    unfolding range_pairs_def using card_image_le [of "{..<range_size (port_range state)}"] by force
  finally show ?thesis .
qed

lemma no_ports_left:
  assumes "udp_laws (ce_udp env) free addr" and "range_ok (port_range state)"
    and "first_rtp_port (port_range state) \<noteq> 0" and "call_goes env state w = Some NoPorts"
  shows "\<forall>k < range_size (port_range state).
    \<not> pair_addrs (local_ip_addr state) (range_pair (port_range state) k) \<subseteq> free w"
proof -
  obtain ops r w' where "allocate_of env state w = Some (None, ops, r, w')"
    using assms(4) by (auto simp: call_goes_def split: sum.splits option.splits prod.splits if_splits)
  then show ?thesis
    using try_allocate_spec [OF assms(1-3), of "ce_chk env" "local_ip_addr state" w] by (auto simp: allocate_of_def)
qed

lemma pool_held_owned:
  assumes "pool_inv os free addr state w p"
  shows "distinct (pool_held addr p)"
    "set (pool_held addr p) \<subseteq> free w \<inter> range_addrs (local_ip_addr state) (port_range state)"
    "free (pool_world p) = free w - set (pool_held addr p)"
proof -
  have "owns (free w) (map (held_addrs addr) (pool_calls p)) (free (pool_world p))"
    "list_all (call_ok os addr state) (pool_calls p)"
    using assms by (simp_all add: pool_inv_def)
  then show "distinct (pool_held addr p)" "free (pool_world p) = free w - set (pool_held addr p)"
    "set (pool_held addr p) \<subseteq> free w \<inter> range_addrs (local_ip_addr state) (port_range state)"
    using held_in_range [of os addr state] by (auto simp: owns_def pool_held_def list_all_iff)
qed

text \<open>C3.
  Calls never share a port, and none is lost.  Whatever calls arrive at a server with a usable range,
  however the system calls of their set-ups interleave and whenever their sessions and dialogs end, no
  step panics; the sockets that the calls hold, those of a search under way included, are on different
  addresses, each the local address with a port of the range that was free at the start; exactly these
  addresses are taken, so that a server without calls has given every port back; there are never more
  live sessions than the range has pairs; and a call that is not interrupted is turned away for want
  of ports only when every pair of the range has a port that was taken at the start or is held by a
  call.\<close>

theorem calls_never_share_a_port:
  assumes "udp_laws os free addr" and "range_ok (port_range state)" and "first_rtp_port (port_range state) \<noteq> 0"
    and "list_all (event_of os) evs"
  shows "\<exists>p. pool_run evs (pool_start state w) = Some p \<and>
    distinct (pool_held addr p) \<and>
    set (pool_held addr p) \<subseteq> free w \<inter> range_addrs (local_ip_addr state) (port_range state) \<and>
    free (pool_world p) = free w - set (pool_held addr p) \<and>
    length (filter session_live (pool_calls p)) \<le> range_size (port_range state) \<and>
    (\<forall>env. ce_udp env = os \<and> call_goes env (pool_state p) (pool_world p) = Some NoPorts \<longrightarrow>
       (\<forall>k < range_size (port_range state).
          \<not> pair_addrs (local_ip_addr state) (range_pair (port_range state) k) \<subseteq> free w - set (pool_held addr p)))"
proof -
  obtain p where p: "pool_run evs (pool_start state w) = Some p" "pool_inv os free addr state w p"
    using pool_run_inv [OF assms(1,3,4) pool_inv_start [OF assms(2)], of w] by blast
  have ports: "range_size (port_range (pool_state p)) = range_size (port_range state)"
    "range_pair (port_range (pool_state p)) = range_pair (port_range state)"
    "first_rtp_port (port_range (pool_state p)) \<noteq> 0" "range_ok (port_range (pool_state p))"
    "local_ip_addr (pool_state p) = local_ip_addr state"
    using p(2) assms(3) by (auto simp: pool_inv_def same_portsD)
  note held = pool_held_owned [OF p(2)]
  have "\<forall>k < range_size (port_range state).
      \<not> pair_addrs (local_ip_addr state) (range_pair (port_range state) k) \<subseteq> free w - set (pool_held addr p)"
    if "ce_udp env = os" "call_goes env (pool_state p) (pool_world p) = Some NoPorts" for env
    using no_ports_left [OF _ ports(4,3) that(2), of free addr] that(1) assms(1) ports(1,2,5) held(3) by simp
  then show ?thesis
    using p(1) held live_sessions_fit [OF p(2)] by blast
qed

text \<open>Two calls whose set-ups take turns.\<close>

definition sample_events :: "(unit, nat, sock_addr list, sock_addr) pool_event list" where
  "sample_events = [CallArrives sample_env, CallArrives sample_env] @
     concat (replicate 12 [CallAdvances 0, CallAdvances 1]) @ [SessionEnds 0, DialogEnds 0]"

lemma sample_events_ok: "list_all (event_of list_udp) sample_events"
  by (simp add: sample_events_def sample_env_def numeral_eq_Suc)

theorem calls_never_share_a_port_witness:
  "\<exists>p. pool_run sample_events (pool_start sample_state []) = Some p \<and>
     distinct (pool_held id p) \<and> length (filter session_live (pool_calls p)) \<le> 2"
proof -
  have udp: "udp_laws list_udp (\<lambda>w. - set w) id" by (rule list_udp_laws)
  have "range_size (port_range sample_state) = 2"
    by (simp add: sample_state_def range_size_def two_pairs_def)
  then show ?thesis
    using calls_never_share_a_port [OF udp sample_state_ok(2,3) sample_events_ok] by fastforce
qed

section \<open>Every call gets its answer\<close>

text \<open>How often the \<open>i\<close>th call gets a turn; \<open>n\<close> calls have arrived before.\<close>

fun turns_of :: "nat \<Rightarrow> nat \<Rightarrow> ('e, 'z, 'w, 's) pool_event list \<Rightarrow> nat" where
  "turns_of i n [] = 0"
| "turns_of i n (CallArrives _ # evs) = turns_of i (Suc n) evs"
| "turns_of i n (CallAdvances j # evs) = (if j = i \<and> i < n then 1 else 0) + turns_of i n evs"
| "turns_of i n (_ # evs) = turns_of i n evs"

text \<open>The steps that the \<open>i\<close>th call has left, or will have when it arrives.\<close>

definition steps_left :: "nat \<Rightarrow> nat \<Rightarrow> ('e, 'z, 'w, 's) pool \<Rightarrow> nat" where
  "steps_left cap i p =
     (if i < length (pool_calls p) then pc_steps cap (sc_pc (pool_calls p ! i)) else 3 * cap + 6)"

lemma steps_left_other:
  "steps_left cap i (end_session j p) = steps_left cap i p"
  "steps_left cap i (end_dialog j p) = steps_left cap i p"
  by (cases "j = i"; auto simp: steps_left_def end_session_def end_dialog_def Let_def
      split: call_pc.split call_state.split)+

lemma length_pool_calls:
  "length (pool_calls (end_session j p)) = length (pool_calls p)"
  "length (pool_calls (end_dialog j p)) = length (pool_calls p)"
  "advance_call j p = Some p' \<Longrightarrow> length (pool_calls p') = length (pool_calls p)"
  by (auto simp: end_session_def end_dialog_def advance_call_def Let_def
      split: call_pc.splits call_state.splits option.splits)

lemma steps_left_advance:
  assumes "advance_call j p = Some p'" and "j < length (pool_calls p)"
    and "range_ok (port_range (pool_state p))" and "cap = range_size (port_range (pool_state p))"
  shows "steps_left cap i p' \<le> steps_left cap i p - (if j = i then 1 else 0)"
proof (cases "j = i")
  case False
  then show ?thesis
    using assms by (auto simp: steps_left_def advance_call_def Let_def split: option.splits)
next
  case True
  let ?c = "pool_calls p ! i"
  obtain effs pc st w where s: "setup_step (sc_env ?c) (sc_pc ?c) (pool_state p) (pool_world p) = Some (effs, pc, st, w)"
    "p' = \<lparr>pool_state = st, pool_world = w, pool_calls = (pool_calls p)[i := ?c\<lparr>sc_pc := pc, sc_log := sc_log ?c @ effs\<rparr>]\<rparr>"
    using assms(1) True by (auto simp: advance_call_def Let_def split: option.splits)
  have "unat (of_nat cap :: u16) = cap" using assms(3,4) by (simp add: range_ok_def unat_of_nat)
  then have "pc_steps cap pc < pc_steps cap (sc_pc ?c) \<or> pc_steps cap pc = 0"
    using setup_step_decreases [OF s(1) range_capacity_ok [OF assms(3)]] assms(4) by auto
  then show ?thesis using s(2) True assms(2) by (auto simp: steps_left_def)
qed

lemma pool_run_steps_left:
  assumes "udp_laws os free addr" and "first_rtp_port (port_range state) \<noteq> 0"
    and "list_all (event_of os) evs" and "pool_inv os free addr state w p" and "pool_run evs p = Some p'"
    and cap: "cap = range_size (port_range state)"
  shows "steps_left cap i p' \<le> steps_left cap i p - turns_of i (length (pool_calls p)) evs"
  using assms(3-5)
proof (induction evs arbitrary: p)
  case (Cons ev evs)
  obtain p1 where p1: "pool_step ev p = Some p1" "pool_inv os free addr state w p1"
    using pool_step_inv [OF assms(1,2) Cons.prems(2), of ev] Cons.prems(1) by auto
  have IH: "steps_left cap i p' \<le> steps_left cap i p1 - turns_of i (length (pool_calls p1)) evs"
    using Cons.IH [OF _ p1(2)] Cons.prems(1,3) p1(1) by simp
  have range: "range_ok (port_range (pool_state p))" "cap = range_size (port_range (pool_state p))"
    using Cons.prems(2) cap by (auto simp: pool_inv_def same_portsD)
  show ?case
  proof (cases ev)
    case (CallArrives env)
    then have "p1 = p\<lparr>pool_calls := pool_calls p @ [spawn_call env]\<rparr>" using p1(1) by simp
    then have "steps_left cap i p1 = steps_left cap i p" "length (pool_calls p1) = Suc (length (pool_calls p))"
      by (auto simp: steps_left_def nth_append spawn_call_def)
    then show ?thesis using IH CallArrives by simp
  next
    case (CallAdvances j)
    then show ?thesis
      using IH p1(1) steps_left_advance [of j p p1 cap i, OF _ _ range] length_pool_calls(3) [of j p p1]
      by (auto split: if_splits)
  next
    case (SessionEnds j)
    then show ?thesis using IH p1(1) by (auto simp: steps_left_other length_pool_calls split: if_splits)
  next
    case (DialogEnds j)
    then show ?thesis using IH p1(1) by (auto simp: steps_left_other length_pool_calls split: if_splits)
  qed
qed simp

text \<open>The value of the gauge of active calls: what all calls have added to it.\<close>

definition active_gauge :: "('e, 'z, 'w, 's) pool \<Rightarrow> int" where
  "active_gauge p = (\<Sum>c\<leftarrow>pool_calls p. gauge_delta calls_active (effect_metrics (sc_log c)))"

lemma active_gauge_counts:
  assumes "list_all log_ok (pool_calls p)"
  shows "active_gauge p = int (length (filter call_waits (pool_calls p)))"
proof -
  have "list_all log_ok cs \<Longrightarrow> (\<Sum>c\<leftarrow>cs. gauge_delta calls_active (effect_metrics (sc_log c))) =
      int (length (filter call_waits cs))" for cs :: "('e, 'z, 'w, 's) spawned_call list"
    by (induction cs) (auto simp: log_ok_def)
  then show ?thesis using assms by (simp add: active_gauge_def)
qed

lemma pool_run_length:
  "pool_run evs p = Some p' \<Longrightarrow>
   length (pool_calls p') = length (pool_calls p) + length (filter (\<lambda>ev. \<exists>env. ev = CallArrives env) evs)"
proof (induction evs arbitrary: p)
  case (Cons ev evs)
  then show ?case
    by (cases ev) (fastforce simp: length_pool_calls split: option.splits if_splits)+
qed simp

text \<open>What the invariant says of a run that has begun without calls.\<close>

lemma pool_run_answers:
  assumes "udp_laws os free addr" and "range_ok (port_range state)" and "first_rtp_port (port_range state) \<noteq> 0"
    and "list_all (event_of os) evs" and run: "pool_run evs (pool_start state w) = Some p"
  shows "pool_inv os free addr state w p" "list_all log_ok (pool_calls p)"
    "i < length (pool_calls p) \<Longrightarrow> 3 * range_size (port_range state) + 6 \<le> turns_of i 0 evs \<Longrightarrow>
       pc_done (sc_pc (pool_calls p ! i))"
proof -
  have start: "pool_inv os free addr state w (pool_start state w)" by (rule pool_inv_start [OF assms(2)])
  then show inv: "pool_inv os free addr state w p"
    using pool_run_inv [OF assms(1,3,4) start] run by simp
  show "list_all log_ok (pool_calls p)"
    using inv by (auto simp: pool_inv_def call_ok_def list_all_iff)
  assume i: "i < length (pool_calls p)" "3 * range_size (port_range state) + 6 \<le> turns_of i 0 evs"
  have "steps_left (range_size (port_range state)) i p = 0"
    using pool_run_steps_left [OF assms(1,3,4) start run HOL.refl, of i] i(2)
    by (simp add: steps_left_def pool_start_def)
  then show "pc_done (sc_pc (pool_calls p ! i))" using i(1) by (auto simp: steps_left_def)
qed

text \<open>C4.
  Every call gets its one answer, however many run at once.  On a server with a usable range a call
  that has had three turns for each pair of the range and six more has finished its set-up, whatever
  the other calls did between its turns; until then it has sent no final response, and from then on
  exactly one, a rejection or an answer; it sends one BYE, when its dialog has ended while it
  waited, and none otherwise; and the gauge of active calls is the number of the calls that wait.\<close>

theorem every_call_answered_once:
  assumes "udp_laws os free addr" and "range_ok (port_range state)" and "first_rtp_port (port_range state) \<noteq> 0"
    and "list_all (event_of os) evs"
  shows "\<exists>p. pool_run evs (pool_start state w) = Some p \<and>
    (\<forall>i < length (pool_calls p).
       (3 * range_size (port_range state) + 6 \<le> turns_of i 0 evs \<longrightarrow> pc_done (sc_pc (pool_calls p ! i))) \<and>
       finals (sc_log (pool_calls p ! i)) = (if pc_done (sc_pc (pool_calls p ! i)) then 1 else 0) \<and>
       byes (sc_log (pool_calls p ! i)) = (if sc_over (pool_calls p ! i) then 1 else 0)) \<and>
    active_gauge p = int (length (filter call_waits (pool_calls p)))"
proof -
  obtain p where p: "pool_run evs (pool_start state w) = Some p"
    using pool_run_inv [OF assms(1,3,4) pool_inv_start [OF assms(2)], of w] by blast
  note answers = pool_run_answers [OF assms p]
  show ?thesis
    using p answers(2,3) active_gauge_counts [OF answers(2)] by (auto simp: log_ok_def list_all_length)
qed

theorem every_call_answered_once_witness:
  "\<exists>p. pool_run sample_events (pool_start sample_state []) = Some p \<and>
     list_all (\<lambda>c. pc_done (sc_pc c) \<and> finals (sc_log c) = 1) (pool_calls p)"
proof -
  have udp: "udp_laws list_udp (\<lambda>w. - set w) id" by (rule list_udp_laws)
  have size: "3 * range_size (port_range sample_state) + 6 = 12"
    by (simp add: sample_state_def range_size_def two_pairs_def)
  obtain p where p: "pool_run sample_events (pool_start sample_state []) = Some p"
    "\<forall>i < length (pool_calls p). (12 \<le> turns_of i 0 sample_events \<longrightarrow> pc_done (sc_pc (pool_calls p ! i))) \<and>
       finals (sc_log (pool_calls p ! i)) = (if pc_done (sc_pc (pool_calls p ! i)) then 1 else 0)"
    using every_call_answered_once [OF udp sample_state_ok(2,3) sample_events_ok, of "[]"]
    unfolding size by blast
  have "length (pool_calls p) = 2"
    using pool_run_length [OF p(1)] by (simp add: pool_start_def sample_events_def filter_concat)
  moreover have "12 \<le> turns_of i 0 sample_events" if "i < 2" for i
    using that by (auto simp: sample_events_def numeral_eq_Suc less_Suc_eq)
  ultimately show ?thesis using p by (auto simp: list_all_length)
qed

section \<open>A search that misses a free pair\<close>

text \<open>The fields of the sample call that its steps read.\<close>

lemma sample_fields [simp]:
  "ce_udp sample_env = list_udp" "ce_chk sample_env" "ce_reject sample_env = None"
  "ce_codec_call sample_env = 0" "ce_libs sample_env = failing_opus"
  "local_ip_addr sample_state = IpV4 10 0 0 9" "port_range sample_state = two_pairs"
  by (simp_all add: sample_env_def sample_state_def)

lemma sample_parse:
  "parse_sdp_offer (ce_features sample_env) (ce_parse sample_env) (from_utf8_lossy (ce_body sample_env)) =
     Inr \<lparr>peer_addr = IpV4 10 0 0 1, peer_port = 4000, payload_type = 0, offer_codec_kind = Pcmu\<rparr>"
  using sample_call_offer by (simp add: offer_of_def)

lemma two_pairs_cursor:
  "range_capacity True two_pairs = Some 2" "range_capacity True (two_pairs\<lparr>current_rtp_port := n\<rparr>) = Some 2"
  "next_port_pair True two_pairs =
     Some (\<lparr>rtp_port = 10000, rtcp_port = 10001\<rparr>, two_pairs\<lparr>current_rtp_port := 10002\<rparr>)"
  "next_port_pair True (two_pairs\<lparr>current_rtp_port := 10002\<rparr>) =
     Some (\<lparr>rtp_port = 10002, rtcp_port = 10003\<rparr>, two_pairs)"
  by (simp_all add: two_pairs_def range_capacity_def sub_checked_def add_checked_def next_port_pair_def
      port_after_def pair_at_def)

lemma pool_run_snoc: "pool_run evs p = Some p' \<Longrightarrow> pool_run (evs @ [ev]) p = pool_step ev p'"
  by (induction evs arbitrary: p) (auto split: option.splits)

text \<open>Runs all of whose states have a property.\<close>

definition pool_path ::
    "(('e, 'z, 'w, 's) pool \<Rightarrow> bool) \<Rightarrow> ('w, 's) udp_ops \<Rightarrow> ('e, 'z, 'w, 's) pool \<Rightarrow> ('e, 'z, 'w, 's) pool \<Rightarrow> bool" where
  "pool_path P os p q \<longleftrightarrow>
     (\<exists>evs. list_all (event_of os) evs \<and> pool_run evs p = Some q \<and>
        (\<forall>m \<le> length evs. \<exists>u. pool_run (take m evs) p = Some u \<and> P u))"

lemma pool_path_refl: "P p \<Longrightarrow> pool_path P os p p"
  unfolding pool_path_def by (rule exI [of _ "[]"]) simp

lemma pool_path_step:
  assumes "pool_path P os p u" and "event_of os ev" and "pool_step ev u = Some v" and "P v"
  shows "pool_path P os p v"
proof -
  obtain evs where evs: "list_all (event_of os) evs" "pool_run evs p = Some u"
    "\<forall>m \<le> length evs. \<exists>u. pool_run (take m evs) p = Some u \<and> P u"
    using assms(1) by (auto simp: pool_path_def)
  have run: "pool_run (evs @ [ev]) p = Some v" using pool_run_snoc [OF evs(2)] assms(3) by simp
  have "\<exists>u. pool_run (take m (evs @ [ev])) p = Some u \<and> P u" if "m \<le> length (evs @ [ev])" for m
    using that evs(3) run assms(4) by (cases "m \<le> length evs") (auto simp: not_le dest: order_antisym)
  then show ?thesis
    unfolding pool_path_def using evs(1) assms(2) run by (intro exI [of _ "evs @ [ev]"]) simp
qed

text \<open>The pair that a call is binding.\<close>

fun pc_attempt :: "('e, 'z, 's) call_pc \<Rightarrow> rtp_port_pair option" where
  "pc_attempt (BindingRtp _ _ _ pair) = Some pair"
| "pc_attempt (BindingRtcp _ _ _ pair _) = Some pair"
| "pc_attempt _ = None"

text \<open>The first call has tried no pair but \<open>pair\<close>, and nothing has been bound.\<close>

definition only_tries ::
    "('w \<Rightarrow> sock_addr set) \<Rightarrow> sock_addr set \<Rightarrow> rtp_port_pair \<Rightarrow> ('e, 'z, 'w, 's) pool \<Rightarrow> bool" where
  "only_tries free F pair u \<longleftrightarrow> free (pool_world u) = F \<and>
     (pool_calls u \<noteq> [] \<longrightarrow> pc_attempt (sc_pc (pool_calls u ! 0)) \<in> {None, Some pair})"

text \<open>The first call is in its search, with \<open>i\<close> attempts made and \<open>n\<close> left, and the cursor is at \<open>k\<close>.\<close>

definition search_at ::
    "('e, 'z, 'w, 's) call_env \<Rightarrow> sdp_offer \<Rightarrow> server_state \<Rightarrow> nat \<Rightarrow> nat \<Rightarrow> nat \<Rightarrow> ('e, 'z, 'w, 's) pool \<Rightarrow> bool" where
  "search_at env offer state i n k u \<longleftrightarrow>
     (\<exists>c cs. pool_calls u = c # cs \<and> sc_env c = env \<and> sc_pc c = Picking offer i n) \<and>
     range_ok (port_range (pool_state u)) \<and> same_ports (port_range state) (port_range (pool_state u)) \<and>
     local_ip_addr (pool_state u) = local_ip_addr state \<and> range_index (port_range (pool_state u)) = k"

lemma next_pair_at:
  assumes "range_ok (port_range st)" and "same_ports (port_range state) (port_range st)"
  shows "\<exists>r. next_port_pair chk (port_range st) = Some (range_pair (port_range state) (range_index (port_range st)), r) \<and>
    range_ok r \<and> same_ports (port_range state) r \<and>
    range_index r = (range_index (port_range st) + 1) mod range_size (port_range state)"
proof -
  obtain r where r: "next_port_pair chk (port_range st) = Some (range_pair (port_range st) (range_index (port_range st)), r)"
    "range_ok r" "range_index r = (range_index (port_range st) + 1) mod range_size (port_range st)"
    using next_port_pair_ok [OF assms(1)] by blast
  moreover have "same_ports (port_range st) r"
    using r(1) by (auto simp: next_port_pair_def same_ports_def Let_def split: option.splits)
  ultimately show ?thesis using assms(2) same_ports_trans [OF assms(2)] by (auto simp: same_portsD)
qed

text \<open>A call that arrives and takes one pair from the cursor, without having bound it yet.\<close>

lemma overtake:
  assumes path: "pool_path (only_tries free F pair) os p u" and at: "search_at env offer state i n k u"
    and env: "ce_udp env = os" "offer_of env = Inr offer" and F: "free (pool_world u) = F"
  shows "\<exists>v. pool_path (only_tries free F pair) os p v \<and> search_at env offer state i n ((k + 1) mod range_size (port_range state)) v \<and>
    free (pool_world v) = F"
proof -
  let ?st = "pool_state u" and ?new = "spawn_call env"
  obtain c cs where c: "pool_calls u = c # cs" "sc_env c = env" "sc_pc c = Picking offer i n"
    and st: "range_ok (port_range ?st)" "same_ports (port_range state) (port_range ?st)"
      "local_ip_addr ?st = local_ip_addr state" "range_index (port_range ?st) = k"
    using at by (auto simp: search_at_def)
  let ?m = "Suc (length cs)"
  obtain N where N: "range_size (port_range ?st) = Suc N" "range_size (port_range ?st) < 65536"
    using ports.idx_less [OF st(1)] st(1) by (cases "range_size (port_range ?st)") (auto simp: range_ok_def)
  then have cap: "range_capacity (ce_chk env) (port_range ?st) = Some (of_nat (Suc N))"
    "unat (of_nat (Suc N) :: u16) = Suc N"
    using range_capacity_ok [OF st(1)] by (simp_all add: unat_of_nat del: of_nat_Suc)
  obtain r where r: "next_port_pair (ce_chk env) (port_range ?st) = Some (range_pair (port_range state) k, r)"
    "range_ok r" "same_ports (port_range state) r" "range_index r = (k + 1) mod range_size (port_range state)"
    using next_pair_at [OF st(1,2)] st(4) by blast
  let ?u1 = "u\<lparr>pool_calls := pool_calls u @ [?new]\<rparr>"
  let ?u2 = "u\<lparr>pool_calls := pool_calls u @ [?new\<lparr>sc_pc := Picking offer 0 (Suc N)\<rparr>]\<rparr>"
  let ?u3 = "u\<lparr>pool_state := ?st\<lparr>port_range := r\<rparr>,
    pool_calls := pool_calls u @ [?new\<lparr>sc_pc := BindingRtp offer 0 N (range_pair (port_range state) k)\<rparr>]\<rparr>"
  have keep: "only_tries free F pair (u\<lparr>pool_state := s, pool_calls := pool_calls u @ xs\<rparr>)"
    "only_tries free F pair (u\<lparr>pool_calls := pool_calls u @ xs\<rparr>)" for s xs
    using F c by (simp_all add: only_tries_def)
  have u1: "pool_path (only_tries free F pair) os p ?u1"
    using pool_path_step [OF path, of "CallArrives env" ?u1] keep(2) env(1) by simp
  have "pool_step (CallAdvances ?m) ?u1 = Some ?u2"
    using env(2) cap c by (simp add: advance_call_def spawn_call_def offer_of_def nth_append Let_def del: of_nat_Suc)
  then have u2: "pool_path (only_tries free F pair) os p ?u2"
    using pool_path_step [OF u1, of "CallAdvances ?m" ?u2] keep(2) by simp
  have "pool_step (CallAdvances ?m) ?u2 = Some ?u3"
    using r(1) c by (simp add: advance_call_def spawn_call_def nth_append Let_def)
  then have "pool_path (only_tries free F pair) os p ?u3"
    using pool_path_step [OF u2, of "CallAdvances ?m" ?u3] keep(1) by simp
  moreover have "search_at env offer state i n ((k + 1) mod range_size (port_range state)) ?u3"
    using c st r by (simp add: search_at_def)
  ultimately show ?thesis using F by (intro exI [of _ ?u3]) simp
qed

lemma search_at_less:
  assumes "search_at env offer state i n k u"
  shows "k < range_size (port_range state)"
proof -
  have r: "range_ok (port_range (pool_state u))" "same_ports (port_range state) (port_range (pool_state u))"
    "range_index (port_range (pool_state u)) = k"
    using assms by (auto simp: search_at_def)
  then show ?thesis using ports.idx_less [OF r(1)] same_portsD(2) [OF r(2)] by simp
qed

lemma overtakes:
  assumes "ce_udp env = os" and "offer_of env = Inr offer"
    and "pool_path (only_tries free F pair) os p u" and "search_at env offer state i n k u" and "free (pool_world u) = F"
  shows "\<exists>v. pool_path (only_tries free F pair) os p v \<and>
    search_at env offer state i n ((k + j) mod range_size (port_range state)) v \<and> free (pool_world v) = F"
proof (induction j)
  case 0
  then show ?case using search_at_less [OF assms(4)] assms(3-5) by (intro exI [of _ u]) simp
next
  case (Suc j)
  then obtain v where "pool_path (only_tries free F pair) os p v"
    "search_at env offer state i n ((k + j) mod range_size (port_range state)) v" "free (pool_world v) = F"
    by blast
  from overtake [OF this(1,2) assms(1,2) this(3)] show ?case by (simp add: mod_Suc_eq)
qed

text \<open>One attempt of the first call, on a pair whose RTP port is taken.\<close>

lemma attempt_fails:
  assumes path: "pool_path (only_tries free F (range_pair (port_range state) k)) os p u"
    and at: "search_at env offer state i (Suc n) k u" and F: "free (pool_world u) = F"
    and laws: "udp_laws os free addr" and env: "ce_udp env = os" and first: "first_rtp_port (port_range state) \<noteq> 0"
    and taken: "(local_ip_addr state, Ports.rtp_port (range_pair (port_range state) k)) \<notin> F"
  shows "\<exists>v. pool_path (only_tries free F (range_pair (port_range state) k)) os p v \<and>
    search_at env offer state (i + 1) n ((k + 1) mod range_size (port_range state)) v \<and> free (pool_world v) = F"
proof -
  let ?st = "pool_state u" and ?pair = "range_pair (port_range state) k"
  obtain c cs where c: "pool_calls u = c # cs" "sc_env c = env" "sc_pc c = Picking offer i (Suc n)"
    and st: "range_ok (port_range ?st)" "same_ports (port_range state) (port_range ?st)"
      "local_ip_addr ?st = local_ip_addr state" "range_index (port_range ?st) = k"
    using at by (auto simp: search_at_def)
  obtain r where r: "next_port_pair (ce_chk env) (port_range ?st) = Some (?pair, r)"
    "range_ok r" "same_ports (port_range state) r" "range_index r = (k + 1) mod range_size (port_range state)"
    using next_pair_at [OF st(1,2)] st(4) by blast
  have "?pair \<in> range_pairs (port_range ?st)"
    using ports.idx_less [OF st(1)] st(2,4) by (auto simp: range_pairs_def same_portsD)
  then have "Ports.rtp_port ?pair \<noteq> 0"
    using range_pairs_ports [OF st(1)] first st(2) by (auto simp: same_portsD)
  then obtain w' where bind: "udp_bind os (local_ip_addr state, Ports.rtp_port ?pair) (pool_world u) = (None, w')" "free w' = F"
    using udp_lawsD(2) [OF laws, of "(local_ip_addr state, Ports.rtp_port ?pair)" "pool_world u"] taken F by auto
  let ?u1 = "u\<lparr>pool_state := ?st\<lparr>port_range := r\<rparr>, pool_calls := c\<lparr>sc_pc := BindingRtp offer i n ?pair\<rparr> # cs\<rparr>"
  let ?u2 = "u\<lparr>pool_state := ?st\<lparr>port_range := r\<rparr>, pool_world := w', pool_calls := c\<lparr>sc_pc := Picking offer (i + 1) n\<rparr> # cs\<rparr>"
  have "pool_step (CallAdvances 0) u = Some ?u1"
    using r(1) c by (simp add: advance_call_def Let_def)
  then have u1: "pool_path (only_tries free F ?pair) os p ?u1"
    using pool_path_step [OF path, of "CallAdvances 0" ?u1] F by (simp add: only_tries_def)
  have "pool_step (CallAdvances 0) ?u1 = Some ?u2"
    using c env st(3) bind(1) by (simp add: advance_call_def Let_def)
  then have "pool_path (only_tries free F ?pair) os p ?u2"
    using pool_path_step [OF u1, of "CallAdvances 0" ?u2] bind(2) by (simp add: only_tries_def)
  moreover have "search_at env offer state (i + 1) n ((k + 1) mod range_size (port_range state)) ?u2"
    using c st r by (simp add: search_at_def)
  ultimately show ?thesis using bind(2) by (intro exI [of _ ?u2]) simp
qed

text \<open>All attempts of the first call, each overtaken by as many calls as bring the cursor round.\<close>

lemma attempts_fail:
  assumes laws: "udp_laws os free addr" and env: "ce_udp env = os" "offer_of env = Inr offer"
    and first: "first_rtp_port (port_range state) \<noteq> 0"
    and taken: "(local_ip_addr state, Ports.rtp_port (range_pair (port_range state) k)) \<notin> F"
    and "pool_path (only_tries free F (range_pair (port_range state) k)) os p u"
    and "search_at env offer state i n k u" and "free (pool_world u) = F"
  shows "\<exists>v. pool_path (only_tries free F (range_pair (port_range state) k)) os p v \<and>
    search_at env offer state (i + n) 0 k v \<and> free (pool_world v) = F"
  using assms(6-8)
proof (induction n arbitrary: i u)
  case 0
  then show ?case by auto
next
  case (Suc n)
  let ?N = "range_size (port_range state)" and ?P = "only_tries free F (range_pair (port_range state) k)"
  have "k < ?N" by (rule search_at_less [OF Suc.prems(2)])
  then have "(k + 1 + (?N - 1)) mod ?N = k" by (simp add: mod_if)
  then have k: "((k + 1) mod ?N + (?N - 1)) mod ?N = k" by (simp only: mod_add_left_eq)
  obtain v where v: "pool_path ?P os p v" "search_at env offer state (i + 1) n ((k + 1) mod ?N) v" "free (pool_world v) = F"
    using attempt_fails [OF Suc.prems laws env(1) first taken] by blast
  obtain x where "pool_path ?P os p x" "search_at env offer state (i + 1) n k x" "free (pool_world x) = F"
    using overtakes [OF env v, of "?N - 1"] unfolding k by blast
  from Suc.IH [OF this] show ?case by simp
qed

lemma search_begins:
  assumes "ce_udp env = os" and "offer_of env = Inr offer" and ok: "range_ok (port_range state)"
  shows "\<exists>u. pool_path (only_tries free (free w) pair) os (pool_start state w) u \<and>
    search_at env offer state 0 (range_size (port_range state)) (range_index (port_range state)) u \<and>
    free (pool_world u) = free w"
proof -
  let ?N = "range_size (port_range state)" and ?p = "pool_start state w"
  have "?N < 65536" using ok by (auto simp: range_ok_def)
  then have cap: "range_capacity (ce_chk env) (port_range state) = Some (of_nat ?N)" "unat (of_nat ?N :: u16) = ?N"
    using range_capacity_ok [OF ok] by (simp_all add: unat_of_nat)
  let ?u1 = "?p\<lparr>pool_calls := [spawn_call env]\<rparr>"
  let ?u2 = "?p\<lparr>pool_calls := [(spawn_call env)\<lparr>sc_pc := Picking offer 0 ?N\<rparr>]\<rparr>"
  have p0: "pool_path (only_tries free (free w) pair) os ?p ?p"
    by (rule pool_path_refl) (simp add: only_tries_def pool_start_def)
  have u1: "pool_path (only_tries free (free w) pair) os ?p ?u1"
    using pool_path_step [OF p0, of "CallArrives env" ?u1] assms(1)
    by (simp add: only_tries_def pool_start_def spawn_call_def)
  have "pool_step (CallAdvances 0) ?u1 = Some ?u2"
    using assms(2) cap by (simp add: advance_call_def spawn_call_def pool_start_def offer_of_def Let_def)
  then have "pool_path (only_tries free (free w) pair) os ?p ?u2"
    using pool_path_step [OF u1, of "CallAdvances 0" ?u2] by (simp add: only_tries_def pool_start_def)
  moreover have "search_at env offer state 0 ?N (range_index (port_range state)) ?u2"
    using ok by (simp add: search_at_def pool_start_def spawn_call_def same_ports_def)
  ultimately show ?thesis by (intro exI [of _ ?u2]) (simp add: pool_start_def)
qed

text \<open>C22.
  A search can miss a free pair.  The attempts of one search are as many as the range has pairs, but
  the cursor they take them from is shared.  On every server with a usable range whose cursor is at a pair
  with a taken RTP port there is a run in which a call is turned away with 503 although in no state of
  the run it has tried any pair but that one, and although the free addresses are those of the start in
  every state, the one in which it is turned away included: whichever other pairs of the range were
  free, they still are, and the call has not tried them.  It takes only calls that arrive and draw a
  pair between its attempts.\<close>

theorem interleaved_search_misses_free_pair:
  fixes env :: "('e, 'z, 'w, 's) call_env"
  assumes "udp_laws os free addr" and "range_ok (port_range state)" and "first_rtp_port (port_range state) \<noteq> 0"
    and "ce_udp env = os" and "offer_of env = Inr offer"
    and "(local_ip_addr state, Ports.rtp_port (range_pair (port_range state) (range_index (port_range state)))) \<notin> free w"
  shows "\<exists>evs p. list_all (event_of os) evs \<and> pool_run evs (pool_start state w :: ('e, 'z, 'w, 's) pool) = Some p \<and>
    Reject ServiceUnavailable (Some ''No free RTP/RTCP port pair available'') \<in> set (sc_log (pool_calls p ! 0)) \<and>
    (\<forall>m \<le> length evs. \<exists>u. pool_run (take m evs) (pool_start state w) = Some u \<and>
       free (pool_world u) = free w \<and>
       (pool_calls u \<noteq> [] \<longrightarrow> pc_attempt (sc_pc (pool_calls u ! 0)) \<in>
          {None, Some (range_pair (port_range state) (range_index (port_range state)))}))"
proof -
  let ?P = "only_tries free (free w) (range_pair (port_range state) (range_index (port_range state)))"
  obtain t where t: "pool_path ?P os (pool_start state w) t"
    "search_at env offer state 0 (range_size (port_range state)) (range_index (port_range state)) t" "free (pool_world t) = free w"
    using search_begins [OF assms(4,5,2)] by blast
  obtain u where u: "pool_path ?P os (pool_start state w) u"
    "search_at env offer state (0 + range_size (port_range state)) 0 (range_index (port_range state)) u"
    "free (pool_world u) = free w"
    using attempts_fail [OF assms(1,4,5,3,6) t] by blast
  obtain c cs where c: "pool_calls u = c # cs" "sc_env c = env" "sc_pc c = Picking offer (0 + range_size (port_range state)) 0"
    using u(2) by (auto simp: search_at_def)
  let ?effs = "[Metric (CounterIncrement ports_allocation_failures 1), count_rejected RtpPortPoolExhausted]
    @ fst (reject_with env ServiceUnavailable (Some ''No free RTP/RTCP port pair available'') [])"
  let ?v = "u\<lparr>pool_calls := c\<lparr>sc_pc := SetUp (Finished (ce_reject env)), sc_log := sc_log c @ ?effs\<rparr> # cs\<rparr>"
  have step: "pool_step (CallAdvances 0) u = Some ?v" using c by (simp add: advance_call_def Let_def reject_step_eq)
  have v: "?P ?v" "Reject ServiceUnavailable (Some ''No free RTP/RTCP port pair available'') \<in> set (sc_log (pool_calls ?v ! 0))"
    using u(3) by (simp_all add: only_tries_def reject_with_eq)
  have "pool_path ?P os (pool_start state w) ?v"
    by (rule pool_path_step [OF u(1) _ step v(1)]) simp
  then obtain evs where evs: "list_all (event_of os) evs" "pool_run evs (pool_start state w) = Some ?v"
    "\<forall>m \<le> length evs. \<exists>u. pool_run (take m evs) (pool_start state w) = Some u \<and> ?P u"
    unfolding pool_path_def by blast
  show ?thesis
    by (rule exI [of _ evs], rule exI [of _ ?v], intro conjI)
      (rule evs(1), rule evs(2), rule v(2), rule evs(3) [unfolded only_tries_def])
qed

text \<open>Two pairs, the first taken by another program and the second free.\<close>

theorem interleaved_search_misses_free_pair_witness:
  "\<exists>evs p. pool_run evs (pool_start sample_state [(IpV4 10 0 0 9, 10000)] :: (unit, nat, sock_addr list, sock_addr) pool) = Some p \<and>
     Reject ServiceUnavailable (Some ''No free RTP/RTCP port pair available'') \<in> set (sc_log (pool_calls p ! 0)) \<and>
     pair_addrs (IpV4 10 0 0 9) \<lparr>rtp_port = 10002, rtcp_port = 10003\<rparr> \<subseteq> - set (pool_world p)"
proof -
  have udp: "udp_laws list_udp (\<lambda>w. - set w) id" by (rule list_udp_laws)
  have pair: "range_pair (port_range sample_state) (range_index (port_range sample_state)) = \<lparr>rtp_port = 10000, rtcp_port = 10001\<rparr>"
    by (simp add: range_pair_def range_index_def two_pairs_def)
  have taken: "(local_ip_addr sample_state, Ports.rtp_port (range_pair (port_range sample_state) (range_index (port_range sample_state))))
      \<notin> - set [(IpV4 10 0 0 9, 10000)]"
    unfolding pair by simp
  obtain evs and p :: "(unit, nat, sock_addr list, sock_addr) pool"
    where run: "pool_run evs (pool_start sample_state [(IpV4 10 0 0 9, 10000)]) = Some p"
    "Reject ServiceUnavailable (Some ''No free RTP/RTCP port pair available'') \<in> set (sc_log (pool_calls p ! 0))"
    "\<forall>m \<le> length evs. \<exists>u. pool_run (take m evs) (pool_start sample_state [(IpV4 10 0 0 9, 10000)]) = Some u \<and>
       - set (pool_world u) = - set [(IpV4 10 0 0 9, 10000)]"
    using interleaved_search_misses_free_pair [OF udp sample_state_ok(2,3) sample_fields(1) sample_call_offer taken] by blast
  have "- set (pool_world p) = - set [(IpV4 10 0 0 9, 10000)]" using run(1,3) by force
  then show ?thesis using run(1,2) by (intro exI [of _ evs] exI [of _ p]) (simp add: pair_addrs_def)
qed

end
