(* ===== verification/ServerCalls.thy ===== *)
theory ServerCalls
  imports Server PortPool
begin

text \<open>
  The server with the calls it spawns: \<open>SipServer::run\<close> (\<open>server.rs\<close>) and every \<open>handle_call\<close> that
  \<open>process_dialog_states\<close> spawns, over one port range.  An event is one of the server's, a turn of
  one call, or the end of a session or a dialog.  What a call finds in its environment (its offer,
  what its dialog answers, its random numbers) is a function of its number and its dialog.
\<close>

datatype 'sc system_event =
    ServerEvent "'sc server_event"
  | CallTurn nat
  | SessionOver nat
  | DialogOver nat

type_synonym ('d, 'e, 'z, 'w, 's) call_envs = "nat \<Rightarrow> 'd \<Rightarrow> ('e, 'z, 'w, 's) call_env"

text \<open>The dialogs that a step of the server has spawned a call for, and the calls that arrive for them.\<close>

definition spawned :: "'d server_effect list \<Rightarrow> 'd list" where
  "spawned effs = List.map_filter (\<lambda>e. case e of SpawnCall d \<Rightarrow> Some d | _ \<Rightarrow> None) effs"

definition new_spawns ::
    "('v, 'd) run_state \<Rightarrow> ('v, 'd) run_state \<Rightarrow> 'd list" where
  "new_spawns r r' = spawned (drop (length (run_effects r)) (run_effects r'))"

definition arrivals ::
    "('d, 'e, 'z, 'w, 's) call_envs \<Rightarrow> nat \<Rightarrow> 'd list \<Rightarrow> ('e, 'z, 'w, 's) pool_event list" where
  "arrivals envs n ds = map (\<lambda>(k, d). CallArrives (envs k d)) (enumerate n ds)"

fun system_step ::
    "('v, 'd) run_env \<Rightarrow> ('d, 'e, 'z, 'w, 's) call_envs \<Rightarrow> 'sc system_event \<Rightarrow>
     ('v, 'd) run_state \<times> ('e, 'z, 'w, 's) pool \<Rightarrow> (('v, 'd) run_state \<times> ('e, 'z, 'w, 's) pool) outcome" where
  "system_step env envs (ServerEvent ev) (r, p) =
     (let r' = server_step env ev r
      in map_option (Pair r') (pool_run (arrivals envs (length (pool_calls p)) (new_spawns r r')) p))"
| "system_step env envs (CallTurn i) (r, p) = map_option (Pair r) (pool_step (CallAdvances i) p)"
| "system_step env envs (SessionOver i) (r, p) = map_option (Pair r) (pool_step (SessionEnds i) p)"
| "system_step env envs (DialogOver i) (r, p) = map_option (Pair r) (pool_step (DialogEnds i) p)"

fun system_run ::
    "('v, 'd) run_env \<Rightarrow> ('d, 'e, 'z, 'w, 's) call_envs \<Rightarrow> 'sc system_event list \<Rightarrow>
     ('v, 'd) run_state \<times> ('e, 'z, 'w, 's) pool \<Rightarrow> (('v, 'd) run_state \<times> ('e, 'z, 'w, 's) pool) outcome" where
  "system_run env envs [] s = Some s"
| "system_run env envs (ev # evs) s =
     (case system_step env envs ev s of None \<Rightarrow> None | Some s \<Rightarrow> system_run env envs evs s)"

definition system_start :: "sip_server \<Rightarrow> token list \<Rightarrow> 'v \<Rightarrow> 'w \<Rightarrow> ('v, 'd) run_state \<times> ('e, 'z, 'w, 's) pool" where
  "system_start srv calls v w = (run_start srv calls v, pool_start (srv_state srv) w)"

section \<open>The server and its calls, each on its own\<close>

text \<open>The events of the server, and the history of its calls as \<open>PortPool\<close> sees it.\<close>

definition server_events :: "'sc system_event list \<Rightarrow> 'sc server_event list" where
  "server_events evs = List.map_filter (\<lambda>ev. case ev of ServerEvent e \<Rightarrow> Some e | _ \<Rightarrow> None) evs"

lemma server_events_simps [simp]:
  "server_events [] = []" "server_events (ServerEvent e # evs) = e # server_events evs"
  "server_events (CallTurn i # evs) = server_events evs" "server_events (SessionOver i # evs) = server_events evs"
  "server_events (DialogOver i # evs) = server_events evs"
  by (simp_all add: server_events_def List.map_filter_simps)

fun call_history ::
    "('v, 'd) run_env \<Rightarrow> ('d, 'e, 'z, 'w, 's) call_envs \<Rightarrow> 'sc system_event list \<Rightarrow> ('v, 'd) run_state \<Rightarrow> nat \<Rightarrow>
     ('e, 'z, 'w, 's) pool_event list" where
  "call_history env envs [] r n = []"
| "call_history env envs (ServerEvent ev # evs) r n =
     (let r' = server_step env ev r; ds = new_spawns r r'
      in arrivals envs n ds @ call_history env envs evs r' (n + length ds))"
| "call_history env envs (CallTurn i # evs) r n = CallAdvances i # call_history env envs evs r n"
| "call_history env envs (SessionOver i # evs) r n = SessionEnds i # call_history env envs evs r n"
| "call_history env envs (DialogOver i # evs) r n = DialogEnds i # call_history env envs evs r n"

lemma pool_run_append:
  "pool_run (xs @ ys) p = (case pool_run xs p of None \<Rightarrow> None | Some p \<Rightarrow> pool_run ys p)"
  by (induction xs arbitrary: p) (auto split: option.splits)

lemma pool_run_arrivals:
  "\<exists>p'. pool_run (arrivals envs n ds) p = Some p' \<and> length (pool_calls p') = length (pool_calls p) + length ds"
proof (induction ds arbitrary: n p)
  case Nil
  then show ?case by (simp add: arrivals_def)
next
  case (Cons d ds)
  then show ?case
    using Cons [of "Suc n" "p\<lparr>pool_calls := pool_calls p @ [spawn_call (envs n d)]\<rparr>"]
    by (simp add: arrivals_def)
qed

lemma pool_step_length:
  "pool_step ev p = Some p' \<Longrightarrow> (\<And>env. ev \<noteq> CallArrives env) \<Longrightarrow> length (pool_calls p') = length (pool_calls p)"
  by (cases ev) (auto simp: length_pool_calls split: if_splits)

lemma system_run_eq:
  "system_run env envs evs (r, p) =
     map_option (Pair (server_run env (server_events evs) r))
       (pool_run (call_history env envs evs r (length (pool_calls p))) p)"
proof (induction evs arbitrary: r p)
  case Nil
  then show ?case by simp
next
  case (Cons ev evs)
  show ?case
  proof (cases ev)
    case (ServerEvent e)
    obtain p' where "pool_run (arrivals envs (length (pool_calls p)) (new_spawns r (server_step env e r))) p = Some p'"
      "length (pool_calls p') = length (pool_calls p) + length (new_spawns r (server_step env e r))"
      using pool_run_arrivals by blast
    then show ?thesis using ServerEvent Cons by (simp add: pool_run_append Let_def)
  qed (use Cons in \<open>auto simp del: pool_step.simps simp: pool_step_length split: option.splits\<close>)
qed

lemma spawned_append [simp]: "spawned (xs @ ys) = spawned xs @ spawned ys"
  by (induction xs) (auto simp: spawned_def List.map_filter_simps split: server_effect.split)

lemma step_effects: "\<exists>effs. run_effects (server_step env ev r) = run_effects r @ effs"
  by (cases ev) (auto simp: server_step_def Let_def split: option.splits prod.splits)

lemma spawned_step: "spawned (run_effects (server_step env ev r)) = spawned (run_effects r) @ new_spawns r (server_step env ev r)"
proof -
  obtain effs where "run_effects (server_step env ev r) = run_effects r @ effs" using step_effects by blast
  then show ?thesis by (simp add: new_spawns_def)
qed

section \<open>The calls are the spawned ones\<close>

definition spawned_envs :: "('d, 'e, 'z, 'w, 's) call_envs \<Rightarrow> nat \<Rightarrow> 'd list \<Rightarrow> ('e, 'z, 'w, 's) call_env list" where
  "spawned_envs envs n ds = map (\<lambda>(k, d). envs k d) (enumerate n ds)"

lemma pool_step_envs:
  "pool_step ev p = Some p' \<Longrightarrow>
   map sc_env (pool_calls p') = map sc_env (pool_calls p) @ (case ev of CallArrives env \<Rightarrow> [env] | _ \<Rightarrow> [])"
proof -
  have same: "map sc_env (cs[i := c]) = map sc_env cs" if "i < length cs" "sc_env c = sc_env (cs ! i)"
    for cs :: "('e, 'z, 'w, 's) spawned_call list" and i c
    using that by (simp add: map_update) (metis list_update_id map_update)
  show "pool_step ev p = Some p' \<Longrightarrow> ?thesis"
    by (cases ev) (auto simp: spawn_call_def advance_call_def end_session_def end_dialog_def Let_def same
        split: if_splits option.splits call_pc.splits call_state.splits)
qed

lemma pool_run_arrivals_envs:
  "pool_run (arrivals envs n ds) p = Some p' \<Longrightarrow>
   map sc_env (pool_calls p') = map sc_env (pool_calls p) @ spawned_envs envs n ds"
proof (induction ds arbitrary: n p)
  case (Cons d ds)
  then show ?case by (simp add: arrivals_def spawned_envs_def) (simp add: spawn_call_def)
qed (simp add: arrivals_def spawned_envs_def)

definition calls_are_spawned ::
    "('d, 'e, 'z, 'w, 's) call_envs \<Rightarrow> ('v, 'd) run_state \<times> ('e, 'z, 'w, 's) pool \<Rightarrow> bool" where
  "calls_are_spawned envs s \<longleftrightarrow>
     map sc_env (pool_calls (snd s)) = spawned_envs envs 0 (spawned (run_effects (fst s)))"

lemma calls_are_spawned_step:
  assumes "system_step env envs ev s = Some s'" and "calls_are_spawned envs s"
  shows "calls_are_spawned envs s'"
proof (cases "(env, envs, ev, s)" rule: system_step.cases)
  case (1 env' envs' e r p)
  let ?r' = "server_step env e r"
  obtain p' where p': "pool_run (arrivals envs (length (pool_calls p)) (new_spawns r ?r')) p = Some p'" "s' = (?r', p')"
    using assms(1) 1 by (auto simp: Let_def)
  have "length (pool_calls p) = length (spawned (run_effects r))"
    using arg_cong [OF assms(2) [unfolded calls_are_spawned_def], of length] 1 by (simp add: spawned_envs_def)
  then show ?thesis
    using pool_run_arrivals_envs [OF p'(1)] p'(2) assms(2) 1
    by (simp add: calls_are_spawned_def spawned_step spawned_envs_def enumerate_append_eq)
qed (use assms pool_step_envs in \<open>fastforce simp: calls_are_spawned_def simp del: pool_step.simps\<close>)+

lemma calls_are_spawned_run:
  "system_run env envs evs s = Some s' \<Longrightarrow> calls_are_spawned envs s \<Longrightarrow> calls_are_spawned envs s'"
  by (induction evs arbitrary: s) (auto split: option.splits dest: calls_are_spawned_step)

lemma calls_are_spawned_start [simp]: "calls_are_spawned envs (system_start srv calls v w)"
  by (simp add: calls_are_spawned_def system_start_def pool_start_def run_start_def spawned_envs_def spawned_def
      List.map_filter_simps)

lemma call_history_events:
  "\<forall>k d. ce_udp (envs k d) = os \<Longrightarrow> list_all (event_of os) (call_history env envs evs r n)"
  by (induction env envs evs r n rule: call_history.induct) (auto simp: arrivals_def list_all_iff Let_def)

section \<open>From the configuration to the answered calls\<close>

lemma new_server_range:
  assumes "sip_server_new nenv config = Some (Inr srv, ops)"
    and "range_usable (cfg_min_port config) (cfg_max_port config)"
  shows "range_ok (port_range (srv_state srv))" "first_rtp_port (port_range (srv_state srv)) = cfg_min_port config"
    "unat (cfg_min_port config) + 2 * range_size (port_range (srv_state srv)) \<le> unat (cfg_max_port config) + 1"
  using assms(1) range_new_usable [OF assms(2), of "ne_chk nenv"]
  by (auto simp: sip_server_new_def Let_def split: option.splits sum.splits prod.splits)

definition config_addrs :: "server_config \<Rightarrow> ip_addr \<Rightarrow> sock_addr set" where
  "config_addrs config ip = {ip} \<times> {cfg_min_port config..cfg_max_port config}"

lemma range_within_config:
  assumes "first_rtp_port r = cfg_min_port config"
    and "unat (cfg_min_port config) + 2 * range_size r \<le> unat (cfg_max_port config) + 1"
  shows "range_addrs ip r \<subseteq> config_addrs config ip"
proof -
  have "cfg_min_port config \<le> Ports.rtp_port (range_pair r k) \<and> Ports.rtp_port (range_pair r k) \<le> cfg_max_port config \<and>
      cfg_min_port config \<le> Ports.rtcp_port (range_pair r k) \<and> Ports.rtcp_port (range_pair r k) \<le> cfg_max_port config"
    if "k < range_size r" for k
  proof -
    note within = range_pair_within [OF assms that]
    have "unat (cfg_max_port config) < 65536" using unsigned_less [of "cfg_max_port config"] by simp
    then have bound: "unat (cfg_min_port config) + 2 * k + 1 < 65536" using assms(2) that by linarith
    then have "unat (of_nat (unat (cfg_min_port config) + 2 * k) :: u16) < 65535"
      by (simp only: unat_of_nat) simp
    then have "unat (Ports.rtp_port (range_pair r k)) < 65535"
      by (simp only: range_pair_def assms(1) rtp_port_pair.simps)
    then have "unat (Ports.rtp_port (range_pair r k) + 1) = unat (Ports.rtp_port (range_pair r k)) + 1"
      by (simp add: unat_word_ariths)
    then have "Ports.rtp_port (range_pair r k) \<le> Ports.rtcp_port (range_pair r k)"
      using within by (simp add: word_le_nat_alt)
    then show ?thesis using within order_trans by blast
  qed
  then show ?thesis by (auto simp: range_addrs_def range_pairs_def pair_addrs_def config_addrs_def)
qed

text \<open>C2.
  A configured server serves all its calls.  Take a server that came up with a usable range of ports,
  and any sequence of what can happen to it and its calls.  Nothing panics; the server does what it
  would do without its calls; its calls are exactly the dialogs it has spawned a call for, in order;
  the sockets they hold are on different ports between the configured ones on the server's address,
  and all other addresses are as free as at the start; and every call that got three turns for each
  pair of the range and six more since it was spawned has sent exactly one final response, and none
  has sent two.\<close>

theorem server_answers_its_calls:
  assumes "udp_laws os free addr" and "sip_server_new nenv config = Some (Inr srv, ops)"
    and "range_usable (cfg_min_port config) (cfg_max_port config)" and "cfg_min_port config \<noteq> 0"
    and "\<forall>k d. ce_udp (envs k d) = os"
  shows "\<exists>r p. system_run env envs evs (system_start srv calls v w) = Some (r, p) \<and>
    r = server_run env (server_events evs) (run_start srv calls v) \<and>
    map sc_env (pool_calls p) = spawned_envs envs 0 (spawned (run_effects r)) \<and>
    distinct (pool_held addr p) \<and>
    set (pool_held addr p) \<subseteq> config_addrs config (local_ip_addr (srv_state srv)) \<and>
    free (pool_world p) = free w - set (pool_held addr p) \<and>
    (\<forall>i < length (pool_calls p).
       finals (sc_log (pool_calls p ! i)) \<le> 1 \<and>
       (3 * range_size (port_range (srv_state srv)) + 6
          \<le> turns_of i 0 (call_history env envs evs (run_start srv calls v) 0) \<longrightarrow>
        finals (sc_log (pool_calls p ! i)) = 1))"
proof -
  let ?st = "srv_state srv" and ?h = "call_history env envs evs (run_start srv calls v) 0"
  note range = new_server_range [OF assms(2,3)]
  have first: "first_rtp_port (port_range ?st) \<noteq> 0" using range(2) assms(4) by simp
  note hist = call_history_events [OF assms(5), of env evs "run_start srv calls v" 0]
  obtain p where p: "pool_run ?h (pool_start ?st w) = Some p"
    using pool_run_inv [OF assms(1) first hist pool_inv_start [OF range(1)], of w] by blast
  note answers = pool_run_answers [OF assms(1) range(1) first hist p]
  have run: "system_run env envs evs (system_start srv calls v w) =
      Some (server_run env (server_events evs) (run_start srv calls v), p)"
    using p by (simp add: system_start_def system_run_eq) (simp add: pool_start_def)
  have "finals (sc_log (pool_calls p ! i)) = (if pc_done (sc_pc (pool_calls p ! i)) then 1 else 0)"
    if "i < length (pool_calls p)" for i
    using answers(2) that by (simp add: list_all_length log_ok_def)
  moreover have "map sc_env (pool_calls p) =
      spawned_envs envs 0 (spawned (run_effects (server_run env (server_events evs) (run_start srv calls v))))"
    using calls_are_spawned_run [OF run calls_are_spawned_start] by (simp add: calls_are_spawned_def)
  ultimately show ?thesis
    using run pool_held_owned [OF answers(1)] answers(3) range_within_config [OF range(2,3), of "local_ip_addr ?st"]
    by auto
qed

theorem server_answers_its_calls_witness:
  "\<exists>srv ops r (p :: (unit, nat, sock_addr list, sock_addr) pool). sip_server_new sample_new_env server_config_default = Some (Inr srv, ops) \<and>
     system_run (run_env_of list_layer tree_query srv) (\<lambda>_ _. sample_env)
       [ServerEvent (StateArrives (Calling 3) :: unit server_event), CallTurn 0] (system_start srv [] [3] []) = Some (r, p) \<and>
     distinct (pool_held id p) \<and> length (pool_calls p) = 1"
proof -
  obtain srv ops where srv: "sip_server_new sample_new_env server_config_default = Some (Inr srv, ops)"
    using sample_server_up by blast
  have env: "\<forall>k d. ce_udp ((\<lambda>(_ :: nat) (_ :: nat). sample_env) k d) = list_udp" by simp
  have config: "range_usable (cfg_min_port server_config_default) (cfg_max_port server_config_default)"
    "cfg_min_port server_config_default \<noteq> 0"
    by (simp_all add: range_usable_def server_config_default_def)
  obtain r and p :: "(unit, nat, sock_addr list, sock_addr) pool" where
    rp: "system_run (run_env_of list_layer tree_query srv) (\<lambda>_ _. sample_env)
       [ServerEvent (StateArrives (Calling 3) :: unit server_event), CallTurn 0] (system_start srv [] [3] []) = Some (r, p)"
    "r = server_run (run_env_of list_layer tree_query srv) [StateArrives (Calling 3) :: unit server_event] (run_start srv [] [3])"
    "map sc_env (pool_calls p) = spawned_envs (\<lambda>_ _. sample_env) 0 (spawned (run_effects r))" "distinct (pool_held id p)"
    using server_answers_its_calls [OF list_udp_laws srv config env,
        of "run_env_of list_layer tree_query srv" "[ServerEvent (StateArrives (Calling 3) :: unit server_event), CallTurn 0]" "[]" "[3]" "[]"]
    by auto
  have "spawned (run_effects r) = [3]"
    unfolding rp(2)
    by (simp add: server_step_def process_dialog_state_def run_env_of_def list_layer_def run_start_def spawned_def
        List.map_filter_simps)
  then have "length (pool_calls p) = 1"
    using arg_cong [OF rp(3), of length] by (simp add: spawned_envs_def)
  then show ?thesis using srv rp(1,4) by blast
qed

end
