(* ===== verification/ActiveCall.thy ===== *)
theory ActiveCall
  imports CallHandler
begin

text \<open>
  A call while it is active: the receive task and the send task of its session, the waiting
  \<open>handle_call\<close>, and everybody else, who may cancel tokens, in any interleaving.  The tasks and the
  handler are those of \<open>Session\<close> and \<open>CallHandler\<close>; they meet only in the cancellation tokens.

  \<open>cs_calls\<close> lists the \<open>cancel()\<close> calls of the process so far.  A poll of the receive task sees the
  calls made since its poll before, and the calls it has made itself become visible to all.
\<close>

record ('c, 'z) call_sys =
  cs_calls :: "token list"
  cs_recv :: "('c, 'z) recv_task"
  cs_send :: "'c send_task"
  cs_waiting :: bool
  cs_effects :: "call_effect list"

record ('c, 'z) call_params =
  cp_recv :: "('c, 'z) recv_env"
  cp_send :: "'c send_env"
  cp_dialog :: token
  cp_guard :: scoped_gauge

text \<open>
  \<open>ext\<close> is the set of tokens that others cancel.  A round of the send task takes the branch of the
  token only when that reads as cancelled.
\<close>

inductive call_step ::
    "('c, 'z) call_params \<Rightarrow> (token \<Rightarrow> bool) \<Rightarrow> ('c, 'z) call_sys \<Rightarrow> ('c, 'z) call_sys \<Rightarrow> bool"
  for cp ext where
  recv: "cs_calls s = rt_calls (cs_recv s) @ rp_calls p \<Longrightarrow> rt_end (cs_recv s) = None \<Longrightarrow>
    receive_poll (cp_recv cp) p (cs_recv s) = Some st \<Longrightarrow>
    call_step cp ext s (s\<lparr>cs_recv := st, cs_calls := rt_calls st\<rparr>)"
| send: "ev = TokenCancelled \<longrightarrow> re_query (cp_recv cp) (cs_calls s) (re_token (cp_recv cp)) \<Longrightarrow>
    send_round (cp_send cp) ev (cs_send s) = Some st \<Longrightarrow>
    call_step cp ext s (s\<lparr>cs_send := st\<rparr>)"
| wake: "cs_waiting s \<Longrightarrow> re_query (cp_recv cp) (cs_calls s) (cp_dialog cp) \<Longrightarrow>
    call_step cp ext s (s\<lparr>cs_waiting := False, cs_effects := cs_effects s @ call_teardown (cp_guard cp)\<rparr>)"
| others: "ext t \<Longrightarrow> call_step cp ext s (s\<lparr>cs_calls := cs_calls s @ [t]\<rparr>)"

inductive call_reach ::
    "('c, 'z) call_params \<Rightarrow> (token \<Rightarrow> bool) \<Rightarrow> ('c, 'z) call_sys \<Rightarrow> ('c, 'z) call_sys \<Rightarrow> bool"
  for cp ext s where
  refl: "call_reach cp ext s s"
| step: "call_reach cp ext s u \<Longrightarrow> call_step cp ext u v \<Longrightarrow> call_reach cp ext s v"

inductive_cases call_stepE: "call_step cp ext s v"

section \<open>The state a call starts in\<close>

text \<open>What \<open>handle_call\<close> has when it begins to wait: its effects so far and the started session.\<close>

definition call_begins :: "call_effect list \<Rightarrow> ('e, 'z, 's) started_session \<Rightarrow> ('e codec, 'z) call_sys" where
  "call_begins effs started =
     \<lparr>cs_calls = rt_calls (ss_recv started), cs_recv = ss_recv started, cs_send = ss_send started,
      cs_waiting = True, cs_effects = effs\<rparr>"

definition call_params_of ::
    "('e, 'z, 'w, 's) call_env \<Rightarrow> rtp_lib \<Rightarrow> token_query \<Rightarrow> ('e, 'z, 's) started_session \<Rightarrow>
     ('e codec, 'z) call_params" where
  "call_params_of env lib q started =
     \<lparr>cp_recv = receiver (ce_libs env) lib (ce_sleep env) q (ss_token started),
      cp_send = sender (ce_libs env) lib, cp_dialog = ce_dialog_token env,
      cp_guard = ScopedGauge calls_active\<rparr>"

section \<open>Invariants\<close>

lemma poll_calls:
  assumes "receive_poll env p st = Some st'" and "rt_end st = None"
  shows "rt_calls st' = rt_calls st @ rp_calls p \<or> rt_calls st' = rt_calls st @ rp_calls p @ [re_token env]"
  using assms
  by (auto simp: receive_poll_def recv_socket_def recv_datagram_def Let_def case_prod_beta
      split: if_splits option.splits sum.splits prod.splits)

text \<open>The token list of a call only grows, by tokens of others and by the session's own.\<close>

lemma call_step_calls:
  assumes "call_step cp ext s v"
  shows "\<exists>ts. cs_calls v = cs_calls s @ ts \<and> (\<forall>t \<in> set ts. ext t \<or> t = re_token (cp_recv cp))"
  using assms
proof (cases rule: call_step.cases)
  case (recv p st)
  then show ?thesis using poll_calls [OF recv(4,3)] by auto
qed auto

text \<open>
  The calls on record, the handler, and the log agree: as long as the handler waits it has logged
  nothing more, and it has torn the call down once otherwise, which takes a cancelled dialog.
\<close>

definition call_inv :: "('c, 'z) call_params \<Rightarrow> call_effect list \<Rightarrow> ('c, 'z) call_sys \<Rightarrow> bool" where
  "call_inv cp effs s \<longleftrightarrow>
     (if cs_waiting s then cs_effects s = effs
      else cs_effects s = effs @ call_teardown (cp_guard cp) \<and>
           re_query (cp_recv cp) (cs_calls s) (cp_dialog cp))"

lemma calls_grow:
  assumes "call_step cp ext s v" and "token_laws (re_query (cp_recv cp))"
    and "re_query (cp_recv cp) (cs_calls s) t"
  shows "re_query (cp_recv cp) (cs_calls v) t"
  using call_step_calls [OF assms(1)] assms(3) token_append [OF assms(2)] by auto

lemma call_inv_step:
  assumes "token_laws (re_query (cp_recv cp))" and "call_inv cp effs s" and step: "call_step cp ext s v"
  shows "call_inv cp effs v"
proof -
  have keep: "re_query (cp_recv cp) (cs_calls s) t \<Longrightarrow> re_query (cp_recv cp) (cs_calls v) t" for t
    by (rule calls_grow [OF step assms(1)])
  from step show ?thesis
    by (cases rule: call_step.cases) (use assms(2) keep in \<open>auto simp: call_inv_def split: if_splits\<close>)
qed

lemma call_inv_reach:
  assumes "call_reach cp ext s v" and "token_laws (re_query (cp_recv cp))" and "call_inv cp effs s"
  shows "call_inv cp effs v"
  using assms(1) by induction (use assms(2,3) in \<open>auto intro: call_inv_step\<close>)

text \<open>The tokens a call cancels: those of others, and the one of its own session.\<close>

lemma reach_calls:
  assumes "call_reach cp ext s v"
  shows "set (cs_calls v) \<subseteq> set (cs_calls s) \<union> {t. ext t} \<union> {re_token (cp_recv cp)}"
  using assms
proof induction
  case (step u v)
  then show ?case using call_step_calls [OF step.hyps(2)] by fastforce
qed auto

text \<open>The receive task has seen a prefix of the calls.\<close>

lemma seen_prefix:
  assumes "call_reach cp ext s v" and "\<exists>xs. cs_calls s = rt_calls (cs_recv s) @ xs"
  shows "\<exists>xs. cs_calls v = rt_calls (cs_recv v) @ xs"
  using assms(1)
proof induction
  case refl
  then show ?case by (rule assms(2))
next
  case (step u v)
  from step.hyps(2) show ?case
    by (cases rule: call_step.cases) (use step.IH in auto)
qed

lemma call_begins_fields [simp]:
  "cs_calls (call_begins effs started) = rt_calls (ss_recv started)"
  "cs_recv (call_begins effs started) = ss_recv started"
  "cs_send (call_begins effs started) = ss_send started"
  "cs_waiting (call_begins effs started)" "cs_effects (call_begins effs started) = effs"
  by (simp_all add: call_begins_def)

lemma call_params_fields [simp]:
  "re_query (cp_recv (call_params_of env lib q started)) = q"
  "re_token (cp_recv (call_params_of env lib q started)) = ss_token started"
  "cp_dialog (call_params_of env lib q started) = ce_dialog_token env"
  "cp_guard (call_params_of env lib q started) = ScopedGauge calls_active"
  by (simp_all add: call_params_of_def receiver_def)

section \<open>Properties\<close>

text \<open>C23.
  The media timeout does not end the call.  The session's token is a child of the dialog's, and
  cancelling a child leaves its parent alone: as long as nobody else cancels the dialog, the handler
  of an active call waits for ever, in every reachable state, also in those where the receive task
  has found no packet for the timeout and both tasks have stopped; no BYE is sent and the call stays
  counted as active.\<close>

theorem media_timeout_leaves_call_waiting:
  assumes "token_laws q" and "ss_token started = ChildToken (ce_dialog_token env) n"
    and "rt_calls (ss_recv started) = []" and "\<forall>t. ext t \<longrightarrow> \<not> descends (ce_dialog_token env) t"
    and "call_reach (call_params_of env lib q started) ext (call_begins effs started) s"
  shows "cs_waiting s \<and> cs_effects s = effs \<and> \<not> q (cs_calls s) (ce_dialog_token env)"
proof -
  let ?cp = "call_params_of env lib q started"
  have "set (cs_calls s) \<subseteq> {t. ext t} \<union> {ChildToken (ce_dialog_token env) n}"
    using reach_calls [OF assms(5)] assms(2,3) by simp
  then have dialog: "\<not> q (cs_calls s) (ce_dialog_token env)"
    using assms(1,4) unfolding token_laws_def by fastforce
  have "call_inv ?cp effs (call_begins effs started)" by (simp add: call_inv_def)
  then have "call_inv ?cp effs s"
    using call_inv_reach [OF assms(5), of effs] assms(1) by simp
  then show ?thesis using dialog by (simp add: call_inv_def split: if_splits)
qed

lemma recv_cancelled:
  assumes "re_query env (rt_calls st @ rp_calls p) (re_token env)" and "rt_end st = None"
  shows "receive_poll env p st = Some (st\<lparr>rt_calls := rt_calls st @ rp_calls p, rt_end := Some RecvCancelled\<rparr>)"
  using assms by (simp add: receive_poll_def)

lemma frames_frozen:
  assumes "call_reach cp ext s v" and laws: "token_laws (re_query (cp_recv cp))"
    and "re_query (cp_recv cp) (cs_calls s) (re_token (cp_recv cp))"
  shows "rt_frames (cs_recv v) = rt_frames (cs_recv s) \<and> re_query (cp_recv cp) (cs_calls v) (re_token (cp_recv cp))"
  using assms(1)
proof induction
  case refl
  then show ?case using assms(3) by simp
next
  case (step u v)
  then have seen: "re_query (cp_recv cp) (cs_calls u) (re_token (cp_recv cp))" by simp
  from step.hyps(2) have "rt_frames (cs_recv v) = rt_frames (cs_recv u)"
  proof (cases rule: call_step.cases)
    case (recv p st)
    then show ?thesis using recv_cancelled [of "cp_recv cp" "cs_recv u" p] seen by auto
  qed auto
  then show ?case using step.IH calls_grow [OF step.hyps(2) laws seen] by simp
qed

text \<open>What each participant can do once the tokens are cancelled.\<close>

lemma can_wake:
  assumes "re_query (cp_recv cp) (cs_calls s) (cp_dialog cp)"
  shows "\<exists>v. call_reach cp ext s v \<and> \<not> cs_waiting v \<and> cs_calls v = cs_calls s \<and>
    cs_recv v = cs_recv s \<and> cs_send v = cs_send s"
proof (cases "cs_waiting s")
  case True
  show ?thesis
    by (intro exI conjI) (rule call_reach.step [OF call_reach.refl call_step.wake [OF True assms]], simp_all)
qed (auto intro: call_reach.refl)

lemma can_stop_receiving:
  assumes "re_query (cp_recv cp) (cs_calls s) (re_token (cp_recv cp))"
    and "\<exists>xs. cs_calls s = rt_calls (cs_recv s) @ xs"
  shows "\<exists>v. call_reach cp ext s v \<and> rt_end (cs_recv v) \<noteq> None \<and> cs_calls v = cs_calls s \<and>
    cs_waiting v = cs_waiting s \<and> cs_send v = cs_send s"
proof (cases "rt_end (cs_recv s) = None")
  case True
  obtain xs where xs: "cs_calls s = rt_calls (cs_recv s) @ xs" using assms(2) by blast
  let ?p = "\<lparr>rp_now = 0, rp_calls = xs, rp_socket = None, rp_gone = False\<rparr>"
  let ?st = "(cs_recv s)\<lparr>rt_calls := cs_calls s, rt_end := Some RecvCancelled\<rparr>"
  have poll: "receive_poll (cp_recv cp) ?p (cs_recv s) = Some ?st"
    using recv_cancelled [of "cp_recv cp" "cs_recv s" ?p] True assms(1) xs by simp
  have "call_step cp ext s (s\<lparr>cs_recv := ?st, cs_calls := rt_calls ?st\<rparr>)"
    by (rule call_step.recv [OF _ True poll]) (simp add: xs)
  then show ?thesis by (intro exI conjI) (rule call_reach.step [OF call_reach.refl], assumption, simp_all)
qed (auto intro: call_reach.refl)

lemma can_stop_sending:
  assumes "re_query (cp_recv cp) (cs_calls s) (re_token (cp_recv cp))"
  shows "\<exists>v. call_reach cp ext s v \<and> sd_end (cs_send v) \<noteq> None \<and>
    cs_waiting v = cs_waiting s \<and> cs_recv v = cs_recv s"
proof (cases "sd_end (cs_send s) = None")
  case True
  let ?st = "(cs_send s)\<lparr>sd_end := Some SendCancelled\<rparr>"
  have "call_step cp ext s (s\<lparr>cs_send := ?st\<rparr>)"
    by (rule call_step.send [of TokenCancelled]) (simp_all add: assms send_round_def True)
  then show ?thesis by (intro exI conjI) (rule call_reach.step [OF call_reach.refl], assumption, simp_all)
qed (auto intro: call_reach.refl)

lemma call_reach_trans: "call_reach cp ext u v \<Longrightarrow> call_reach cp ext s u \<Longrightarrow> call_reach cp ext s v"
  by (induction rule: call_reach.induct) (auto intro: call_reach.step)

text \<open>From every state in which the dialog's token reads as cancelled, the call can come to rest.\<close>

lemma call_comes_to_rest:
  assumes "token_laws q" and "ss_token started = ChildToken (ce_dialog_token env) n"
    and "call_reach (call_params_of env lib q started) ext (call_begins effs started) s"
    and "q (cs_calls s) (ce_dialog_token env)"
  shows "\<exists>v. call_reach (call_params_of env lib q started) ext s v \<and> \<not> cs_waiting v \<and>
      rt_end (cs_recv v) \<noteq> None \<and> sd_end (cs_send v) \<noteq> None"
proof -
  let ?cp = "call_params_of env lib q started"
  have child: "re_query (cp_recv ?cp) (cs_calls s) (re_token (cp_recv ?cp))"
    using token_parent [OF assms(1,4)] assms(2) by simp
  have prefix: "\<exists>xs. cs_calls s = rt_calls (cs_recv s) @ xs"
    by (rule seen_prefix [OF assms(3)]) simp
  obtain u where u: "call_reach ?cp ext s u" "\<not> cs_waiting u" "cs_calls u = cs_calls s"
    "cs_recv u = cs_recv s" "cs_send u = cs_send s"
    using can_wake [of ?cp s ext] assms(4) by auto
  obtain v where v: "call_reach ?cp ext u v" "rt_end (cs_recv v) \<noteq> None" "cs_calls v = cs_calls u"
    "cs_waiting v = cs_waiting u"
    using can_stop_receiving [of ?cp u ext] child prefix u by auto
  obtain w where w: "call_reach ?cp ext v w" "sd_end (cs_send w) \<noteq> None" "cs_waiting w = cs_waiting v"
    "cs_recv w = cs_recv v"
    using can_stop_sending [of ?cp v ext] child u(3) v(3) by auto
  have "call_reach ?cp ext s w" using u(1) v(1) w(1) by (blast intro: call_reach_trans)
  then show ?thesis using u v w by (auto intro!: exI [of _ w])
qed

section \<open>A concrete call\<close>

definition sample_started :: "(unit, nat, sock_addr) started_session" where
  "sample_started = \<lparr>ss_recv = recv_task_new exact_sleep 0 PcmuCodec 30 [],
     ss_send = send_task_new 1 2 3 0 (TimestampIncrement 160) PcmuCodec,
     ss_socket = (IpV4 10 0 0 9, 10000), ss_token = ChildToken (RootToken 0) 1\<rparr>"

definition idle_poll :: "nat \<Rightarrow> token list \<Rightarrow> recv_poll" where
  "idle_poll t calls = \<lparr>rp_now = t, rp_calls = calls, rp_socket = None, rp_gone = False\<rparr>"

lemma sample_timeout_reached:
  "\<exists>s. call_reach (call_params_of sample_env plain_rtp_lib tree_query sample_started) ext
         (call_begins effs sample_started) s \<and>
     rt_end (cs_recv s) \<noteq> None \<and> sd_end (cs_send s) \<noteq> None"
proof -
  let ?cp = "call_params_of sample_env plain_rtp_lib tree_query sample_started"
  let ?s0 = "call_begins effs sample_started"
  define st1 where "st1 = (ss_recv sample_started)\<lparr>rt_calls := [ChildToken (RootToken 0) 1]\<rparr>"
  have poll: "receive_poll (cp_recv ?cp) (idle_poll 50 []) (ss_recv sample_started) = Some st1"
    by (simp add: receive_poll_def st1_def call_params_of_def receiver_def sample_started_def sample_env_def
        recv_task_new_def idle_poll_def tree_query_def deadline_poll_def deadline_new_def exact_sleep_def)
  have "call_step ?cp ext ?s0 (?s0\<lparr>cs_recv := st1, cs_calls := rt_calls st1\<rparr>)"
    by (rule call_step.recv [OF _ _ poll [folded call_begins_fields(2) [of effs]]])
      (simp_all add: idle_poll_def sample_started_def recv_task_new_def)
  then have r1: "call_reach ?cp ext ?s0 (?s0\<lparr>cs_recv := st1, cs_calls := rt_calls st1\<rparr>)"
    by (rule call_reach.step [OF call_reach.refl])
  let ?s1 = "?s0\<lparr>cs_recv := st1, cs_calls := rt_calls st1\<rparr>"
  have tok: "re_query (cp_recv ?cp) (cs_calls ?s1) (re_token (cp_recv ?cp))"
    by (simp add: st1_def sample_started_def tree_query_def)
  have prefix: "\<exists>xs. cs_calls ?s1 = rt_calls (cs_recv ?s1) @ xs" by simp
  obtain v where v: "call_reach ?cp ext ?s1 v" "rt_end (cs_recv v) \<noteq> None" "cs_calls v = cs_calls ?s1"
    using can_stop_receiving [of ?cp ?s1 ext, OF tok prefix] by blast
  have "re_query (cp_recv ?cp) (cs_calls v) (re_token (cp_recv ?cp))"
    unfolding v(3) by (rule tok)
  then obtain w where w: "call_reach ?cp ext v w" "sd_end (cs_send w) \<noteq> None" "cs_recv w = cs_recv v"
    using can_stop_sending [of ?cp v ext] by blast
  have "call_reach ?cp ext ?s0 w"
    by (rule call_reach_trans [OF w(1) call_reach_trans [OF v(1) r1]])
  then show ?thesis using v(2) w(2,3) by (intro exI [of _ w] conjI) simp_all
qed

lemma sample_started_fields:
  "ss_token sample_started = ChildToken (ce_dialog_token sample_env) 1" "rt_calls (ss_recv sample_started) = []"
  by (simp_all add: sample_started_def sample_env_def recv_task_new_def)

theorem media_timeout_leaves_call_waiting_witness:
  "\<exists>s. call_reach (call_params_of sample_env plain_rtp_lib tree_query sample_started) (\<lambda>_. False)
         (call_begins [Ringing] sample_started) s \<and>
     rt_end (cs_recv s) \<noteq> None \<and> sd_end (cs_send s) \<noteq> None \<and> cs_waiting s \<and> cs_effects s = [Ringing]"
proof -
  obtain s where s: "call_reach (call_params_of sample_env plain_rtp_lib tree_query sample_started) (\<lambda>_. False)
      (call_begins [Ringing] sample_started) s" "rt_end (cs_recv s) \<noteq> None" "sd_end (cs_send s) \<noteq> None"
    using sample_timeout_reached by blast
  show ?thesis
    using media_timeout_leaves_call_waiting [OF tree_query_laws sample_started_fields _ s(1)] s by blast
qed

end
