(* ===== verification/LiveCalls.thy ===== *)
theory LiveCalls
  imports PortPool ActiveCall
begin

text \<open>
  The calls of one server with their media tasks: \<open>PortPool\<close> and \<open>ActiveCall\<close> in one system.  A call
  whose set-up is over runs its two tasks and its waiting handler (\<open>call_step\<close>), among the steps of
  all other calls; its dialog is over when the handler wakes, and the RTP socket that its tasks share
  is dropped when both have ended.  So the ends of sessions and dialogs, which \<open>PortPool\<close> takes as
  they come, have their causes here.
\<close>

record ('e, 'z, 'w, 's) live =
  lv_pool :: "('e, 'z, 'w, 's) pool"
  lv_media :: "nat \<rightharpoonup> ('e codec, 'z) call_sys"

text \<open>The tasks of a call, which \<open>MediaSession::start\<close> spawns, begin when its set-up ends.\<close>

definition begin_media :: "('e, 'z, 'w, 's) spawned_call \<Rightarrow> ('e codec, 'z) call_sys option" where
  "begin_media c =
     (case sc_pc c of SetUp (Active started _) \<Rightarrow> Some (call_begins (sc_log c) started) | _ \<Rightarrow> None)"

text \<open>
  \<open>os\<close> is the operating system of all calls, and \<open>ext\<close> the tokens that others than the tasks cancel.
\<close>

inductive live_step ::
    "rtp_lib \<Rightarrow> token_query \<Rightarrow> (token \<Rightarrow> bool) \<Rightarrow> ('w, 's) udp_ops \<Rightarrow>
     ('e, 'z, 'w, 's) live \<Rightarrow> ('e, 'z, 'w, 's) live \<Rightarrow> bool"
  for lib q ext os where
  arrive: "ce_udp env = os \<Longrightarrow>
    live_step lib q ext os s
      (s\<lparr>lv_pool := (lv_pool s)\<lparr>pool_calls := pool_calls (lv_pool s) @ [spawn_call env]\<rparr>\<rparr>)"
| advance: "i < length (pool_calls (lv_pool s)) \<Longrightarrow> advance_call i (lv_pool s) = Some p \<Longrightarrow>
    lv_media s i = None \<Longrightarrow>
    live_step lib q ext os s
      (s\<lparr>lv_pool := p, lv_media := (lv_media s)(i := begin_media (pool_calls p ! i))\<rparr>)"
| media: "i < length (pool_calls (lv_pool s)) \<Longrightarrow>
    sc_pc (pool_calls (lv_pool s) ! i) = SetUp (Active started guard) \<Longrightarrow> lv_media s i = Some m \<Longrightarrow>
    call_step (call_params_of (sc_env (pool_calls (lv_pool s) ! i)) lib q started) ext m m' \<Longrightarrow>
    live_step lib q ext os s
      (s\<lparr>lv_pool := (if cs_waiting m \<and> \<not> cs_waiting m' then end_dialog i (lv_pool s) else lv_pool s),
         lv_media := (lv_media s)(i \<mapsto> m')\<rparr>)"
| finish: "i < length (pool_calls (lv_pool s)) \<Longrightarrow> lv_media s i = Some m \<Longrightarrow>
    rt_end (cs_recv m) \<noteq> None \<Longrightarrow> sd_end (cs_send m) \<noteq> None \<Longrightarrow>
    live_step lib q ext os s (s\<lparr>lv_pool := end_session i (lv_pool s)\<rparr>)"

inductive live_reach ::
    "rtp_lib \<Rightarrow> token_query \<Rightarrow> (token \<Rightarrow> bool) \<Rightarrow> ('w, 's) udp_ops \<Rightarrow>
     ('e, 'z, 'w, 's) live \<Rightarrow> ('e, 'z, 'w, 's) live \<Rightarrow> bool"
  for lib q ext os s where
  refl: "live_reach lib q ext os s s"
| step: "live_reach lib q ext os s u \<Longrightarrow> live_step lib q ext os u v \<Longrightarrow> live_reach lib q ext os s v"

definition live_start :: "server_state \<Rightarrow> 'w \<Rightarrow> ('e, 'z, 'w, 's) live" where
  "live_start state w = \<lparr>lv_pool = pool_start state w, lv_media = Map.empty\<rparr>"

lemma live_reach_trans:
  "live_reach lib q ext os u v \<Longrightarrow> live_reach lib q ext os s u \<Longrightarrow> live_reach lib q ext os s v"
  by (induction rule: live_reach.induct) (auto intro: live_reach.step)

section \<open>Every run is a run of the pool\<close>

text \<open>A step of the live calls is a step of the pool, or none.\<close>

lemma live_step_pool:
  assumes "live_step lib q ext os s v"
  shows "lv_pool v = lv_pool s \<or> (\<exists>ev. event_of os ev \<and> pool_step ev (lv_pool s) = Some (lv_pool v))"
  using assms
proof (cases rule: live_step.cases)
  case (arrive env)
  then show ?thesis by (intro disjI2 exI [of _ "CallArrives env"]) simp
next
  case (advance i p)
  then show ?thesis by (intro disjI2 exI [of _ "CallAdvances i"]) simp
next
  case (media i started guard m m')
  then show ?thesis
    by (cases "cs_waiting m \<and> \<not> cs_waiting m'") (auto intro!: exI [of _ "DialogEnds i"])
next
  case (finish i m)
  then show ?thesis by (intro disjI2 exI [of _ "SessionEnds i"]) simp
qed

lemma live_reach_pool:
  assumes "live_reach lib q ext os s v"
  shows "\<exists>evs. list_all (event_of os) evs \<and> pool_run evs (lv_pool s) = Some (lv_pool v)"
  using assms
proof induction
  case refl
  show ?case by (intro exI [of _ "[]"]) simp
next
  case (step u v)
  then obtain evs where evs: "list_all (event_of os) evs" "pool_run evs (lv_pool s) = Some (lv_pool u)" by blast
  from live_step_pool [OF step.hyps(2)] show ?case
  proof
    assume "lv_pool v = lv_pool u"
    then show ?thesis using evs by auto
  next
    assume "\<exists>ev. event_of os ev \<and> pool_step ev (lv_pool u) = Some (lv_pool v)"
    then obtain ev where "event_of os ev" "pool_step ev (lv_pool u) = Some (lv_pool v)" by blast
    then show ?thesis using evs pool_run_snoc [OF evs(2)] by (intro exI [of _ "evs @ [ev]"]) simp
  qed
qed

section \<open>What is true of a call and its tasks\<close>

text \<open>The tokens and the guard that a call gets on its way, at the places that have them.\<close>

fun pc_made :: "('e, 'z, 'w, 's) call_env \<Rightarrow> ('e, 'z, 's) call_pc \<Rightarrow> bool" where
  "pc_made env (Answering _ session) \<longleftrightarrow> cancel_token session = ChildToken (ce_dialog_token env) (ce_child env)"
| "pc_made env (SetUp (Active started guard)) \<longleftrightarrow>
     ss_token started = ChildToken (ce_dialog_token env) (ce_child env) \<and>
     rt_calls (ss_recv started) = ce_calls env \<and> guard = ScopedGauge calls_active"
| "pc_made _ _ \<longleftrightarrow> True"

lemma setup_step_made:
  assumes "setup_step env pc state w = Some (effs, pc', state', w')" and "pc_made env pc"
  shows "pc_made env pc'"
  using assms
  by (cases "(env, pc, state, w)" rule: setup_step.cases)
    (auto simp: reject_step_eq accept_call_eq Let_def media_session_new_def media_session_start_def recv_task_new_def
      split: sum.splits option.splits prod.splits if_splits)

definition tasks_ended :: "('c, 'z) call_sys \<Rightarrow> bool" where
  "tasks_ended m \<longleftrightarrow> rt_end (cs_recv m) \<noteq> None \<and> sd_end (cs_send m) \<noteq> None"

definition live_ok ::
    "rtp_lib \<Rightarrow> token_query \<Rightarrow> (token \<Rightarrow> bool) \<Rightarrow> ('e, 'z, 'w, 's) spawned_call \<Rightarrow>
     ('e codec, 'z) call_sys option \<Rightarrow> bool" where
  "live_ok lib q ext c media \<longleftrightarrow> pc_made (sc_env c) (sc_pc c) \<and>
     (case media of
        None \<Rightarrow> \<not> pc_active (sc_pc c) \<and> sc_open c \<and> \<not> sc_over c
      | Some m \<Rightarrow>
          (\<exists>started effs. sc_pc c = SetUp (Active started (ScopedGauge calls_active)) \<and>
             call_reach (call_params_of (sc_env c) lib q started) ext (call_begins effs started) m) \<and>
          sc_log c = cs_effects m \<and> sc_over c = (\<not> cs_waiting m) \<and> (sc_open c \<or> tasks_ended m))"

definition live_inv ::
    "rtp_lib \<Rightarrow> token_query \<Rightarrow> (token \<Rightarrow> bool) \<Rightarrow> ('e, 'z, 'w, 's) live \<Rightarrow> bool" where
  "live_inv lib q ext s \<longleftrightarrow>
     (\<forall>i. if i < length (pool_calls (lv_pool s)) then live_ok lib q ext (pool_calls (lv_pool s) ! i) (lv_media s i)
          else lv_media s i = None)"

lemma call_step_handler:
  assumes "call_step cp ext m m'"
  shows "cs_waiting m' = cs_waiting m \<and> cs_effects m' = cs_effects m \<or>
    cs_waiting m \<and> \<not> cs_waiting m' \<and> cs_effects m' = cs_effects m @ call_teardown (cp_guard cp)"
  using assms by (cases rule: call_step.cases) auto

lemma tasks_stay_ended:
  assumes "call_step cp ext m m'" and "tasks_ended m"
  shows "tasks_ended m'"
  using assms(1)
proof (cases rule: call_step.cases)
  case (send ev st)
  then show ?thesis using assms(2) by (auto simp: tasks_ended_def send_round_def)
qed (use assms(2) in \<open>auto simp: tasks_ended_def\<close>)

text \<open>One call changes, and its tasks with it.\<close>

lemma live_inv_update:
  assumes "live_inv lib q ext s" and "i < length (pool_calls (lv_pool s))"
    and "pool_calls p = (pool_calls (lv_pool s))[i := c]" and "live_ok lib q ext c m"
  shows "live_inv lib q ext (s\<lparr>lv_pool := p, lv_media := (lv_media s)(i := m)\<rparr>)"
  using assms by (auto simp: live_inv_def nth_list_update)

lemma live_inv_nth:
  "live_inv lib q ext s \<Longrightarrow> i < length (pool_calls (lv_pool s)) \<Longrightarrow>
   live_ok lib q ext (pool_calls (lv_pool s) ! i) (lv_media s i)"
  by (auto simp: live_inv_def split: if_splits)

lemma live_inv_start: "live_inv lib q ext (live_start state w)"
  by (simp add: live_inv_def live_start_def pool_start_def)

lemma begin_media_None: "begin_media c = None \<longleftrightarrow> \<not> pc_active (sc_pc c)"
  by (cases "sc_pc c" rule: pc_active.cases) (simp_all add: begin_media_def)

lemma live_ok_begins:
  assumes "pc_made (sc_env c) (sc_pc c)" and "sc_open c" and "\<not> sc_over c"
  shows "live_ok lib q ext c (begin_media c)"
proof (cases "begin_media c")
  case None
  then show ?thesis using assms None [unfolded begin_media_None] by (simp add: live_ok_def)
next
  case (Some m)
  then obtain started where pc: "sc_pc c = SetUp (Active started (ScopedGauge calls_active))"
    "m = call_begins (sc_log c) started"
    using assms(1) by (cases "sc_pc c" rule: pc_active.cases) (auto simp: begin_media_def)
  then show ?thesis
    using assms Some by (auto simp: live_ok_def intro: call_reach.refl)
qed

lemma live_ok_media:
  assumes ok: "live_ok lib q ext c (Some m)" and pc: "sc_pc c = SetUp (Active started guard)"
    and step: "call_step (call_params_of (sc_env c) lib q started) ext m m'"
  shows "live_ok lib q ext
    (if cs_waiting m \<and> \<not> cs_waiting m' then c\<lparr>sc_log := sc_log c @ call_teardown guard, sc_over := True\<rparr> else c) (Some m')"
proof -
  obtain effs where r: "guard = ScopedGauge calls_active"
    "call_reach (call_params_of (sc_env c) lib q started) ext (call_begins effs started) m"
    "sc_log c = cs_effects m" "sc_over c = (\<not> cs_waiting m)" "sc_open c \<or> tasks_ended m" "pc_made (sc_env c) (sc_pc c)"
    using ok pc by (auto simp: live_ok_def)
  have "call_reach (call_params_of (sc_env c) lib q started) ext (call_begins effs started) m'"
    using r(2) step by (rule call_reach.step)
  then show ?thesis
    using r pc call_step_handler [OF step] tasks_stay_ended [OF step] by (auto simp: live_ok_def)
qed

lemma sc_open_idem [simp]: "\<not> sc_open c \<Longrightarrow> c\<lparr>sc_open := False\<rparr> = c"
  by (cases c) simp

lemma end_session_calls:
  assumes "sc_pc (pool_calls p ! i) = SetUp (Active started guard)"
  shows "pool_calls (end_session i p) = (pool_calls p)[i := (pool_calls p ! i)\<lparr>sc_open := False\<rparr>]"
  using assms by (cases "sc_open (pool_calls p ! i)") (simp_all add: end_session_def Let_def)

lemma live_inv_step:
  assumes inv: "live_inv lib q ext s" and step: "live_step lib q ext os s v"
  shows "live_inv lib q ext v"
  using step
proof (cases rule: live_step.cases)
  case (arrive env)
  then show ?thesis
    using inv by (auto simp: live_inv_def live_ok_def spawn_call_def nth_append less_Suc_eq split: if_splits)
next
  case (advance i p)
  let ?c = "pool_calls (lv_pool s) ! i"
  have ok: "pc_made (sc_env ?c) (sc_pc ?c)" "sc_open ?c" "\<not> sc_over ?c"
    using live_inv_nth [OF inv advance(2)] advance(4) by (simp_all add: live_ok_def)
  obtain effs pc st w where s: "setup_step (sc_env ?c) (sc_pc ?c) (pool_state (lv_pool s)) (pool_world (lv_pool s)) = Some (effs, pc, st, w)"
    "p = \<lparr>pool_state = st, pool_world = w, pool_calls = (pool_calls (lv_pool s))[i := ?c\<lparr>sc_pc := pc, sc_log := sc_log ?c @ effs\<rparr>]\<rparr>"
    using advance(3) by (auto simp: advance_call_def Let_def split: option.splits)
  let ?c' = "?c\<lparr>sc_pc := pc, sc_log := sc_log ?c @ effs\<rparr>"
  have "live_ok lib q ext ?c' (begin_media ?c')"
    using ok setup_step_made [OF s(1) ok(1)] by (intro live_ok_begins) simp_all
  then show ?thesis
    using live_inv_update [OF inv advance(2), of p ?c' "begin_media ?c'"] advance(1,2) s(2) by simp
next
  case (media i started guard m m')
  let ?c = "pool_calls (lv_pool s) ! i"
  let ?wakes = "cs_waiting m \<and> \<not> cs_waiting m'"
  let ?c' = "if ?wakes then ?c\<lparr>sc_log := sc_log ?c @ call_teardown guard, sc_over := True\<rparr> else ?c"
  let ?p = "if ?wakes then end_dialog i (lv_pool s) else lv_pool s"
  have ok: "live_ok lib q ext ?c (Some m)" using live_inv_nth [OF inv media(2)] media(4) by simp
  then have "sc_over ?c = (\<not> cs_waiting m)" by (simp add: live_ok_def)
  then have "pool_calls ?p = (pool_calls (lv_pool s))[i := ?c']"
    using media(3) by (simp add: end_dialog_def Let_def)
  then show ?thesis
    using live_inv_update [OF inv media(2) _ live_ok_media [OF ok media(3,5)], of ?p] media(1) by simp
next
  case (finish i m)
  let ?c = "pool_calls (lv_pool s) ! i"
  have ok: "live_ok lib q ext ?c (Some m)" using live_inv_nth [OF inv finish(2)] finish(3) by simp
  then obtain started where pc: "sc_pc ?c = SetUp (Active started (ScopedGauge calls_active))"
    by (auto simp: live_ok_def)
  have "live_ok lib q ext (?c\<lparr>sc_open := False\<rparr>) (Some m)"
    using ok finish(4,5) by (simp add: live_ok_def tasks_ended_def)
  moreover have "pool_calls (end_session i (lv_pool s)) =
      (pool_calls (lv_pool s))[i := ?c\<lparr>sc_open := False\<rparr>]"
    by (rule end_session_calls [OF pc])
  moreover have "v = s\<lparr>lv_pool := end_session i (lv_pool s), lv_media := (lv_media s)(i := Some m)\<rparr>"
    using finish(1,3) by (simp add: fun_upd_idem)
  ultimately show ?thesis
    using live_inv_update [OF inv finish(2), of "end_session i (lv_pool s)" "?c\<lparr>sc_open := False\<rparr>" "Some m"]
    by simp
qed

lemma live_inv_reach: "live_reach lib q ext os s v \<Longrightarrow> live_inv lib q ext s \<Longrightarrow> live_inv lib q ext v"
  by (induction rule: live_reach.induct) (auto intro: live_inv_step)

section \<open>A call runs while the others are where they are\<close>

text \<open>What is left alone when only the tasks of call \<open>i\<close> and its handler go on.\<close>

definition only_call :: "nat \<Rightarrow> ('e, 'z, 'w, 's) live \<Rightarrow> ('e, 'z, 'w, 's) live \<Rightarrow> bool" where
  "only_call i s v \<longleftrightarrow>
     pool_state (lv_pool v) = pool_state (lv_pool s) \<and> pool_world (lv_pool v) = pool_world (lv_pool s) \<and>
     length (pool_calls (lv_pool v)) = length (pool_calls (lv_pool s)) \<and>
     (\<forall>j. j \<noteq> i \<longrightarrow> pool_calls (lv_pool v) ! j = pool_calls (lv_pool s) ! j \<and> lv_media v j = lv_media s j) \<and>
     sc_env (pool_calls (lv_pool v) ! i) = sc_env (pool_calls (lv_pool s) ! i) \<and>
     sc_pc (pool_calls (lv_pool v) ! i) = sc_pc (pool_calls (lv_pool s) ! i) \<and>
     sc_open (pool_calls (lv_pool v) ! i) = sc_open (pool_calls (lv_pool s) ! i)"

lemma end_dialog_active:
  assumes "sc_pc (pool_calls p ! i) = SetUp (Active started guard)" and "i < length (pool_calls p)"
  shows "pool_state (end_dialog i p) = pool_state p" "pool_world (end_dialog i p) = pool_world p"
    "length (pool_calls (end_dialog i p)) = length (pool_calls p)"
    "j \<noteq> i \<Longrightarrow> pool_calls (end_dialog i p) ! j = pool_calls p ! j"
    "sc_env (pool_calls (end_dialog i p) ! i) = sc_env (pool_calls p ! i)"
    "sc_pc (pool_calls (end_dialog i p) ! i) = sc_pc (pool_calls p ! i)"
    "sc_open (pool_calls (end_dialog i p) ! i) = sc_open (pool_calls p ! i)"
  using assms by (auto simp: end_dialog_def Let_def)

lemma live_call_reach:
  assumes "call_reach (call_params_of (sc_env (pool_calls (lv_pool s) ! i)) lib q started) ext m m'"
    and "i < length (pool_calls (lv_pool s))" and "lv_media s i = Some m"
    and "sc_pc (pool_calls (lv_pool s) ! i) = SetUp (Active started guard)"
  shows "\<exists>v. live_reach lib q ext os s v \<and> only_call i s v \<and> lv_media v i = Some m'"
  using assms(1)
proof induction
  case refl
  show ?case using assms(3) by (intro exI [of _ s]) (simp add: only_call_def live_reach.refl)
next
  case (step u u')
  then obtain v where v: "live_reach lib q ext os s v" "only_call i s v" "lv_media v i = Some u" by blast
  have pc: "i < length (pool_calls (lv_pool v))" "sc_pc (pool_calls (lv_pool v) ! i) = SetUp (Active started guard)"
    using v(2) assms(2,4) by (simp_all add: only_call_def)
  have step': "call_step (call_params_of (sc_env (pool_calls (lv_pool v) ! i)) lib q started) ext u u'"
    using step.hyps(2) v(2) by (simp add: only_call_def)
  let ?v = "v\<lparr>lv_pool := (if cs_waiting u \<and> \<not> cs_waiting u' then end_dialog i (lv_pool v) else lv_pool v),
    lv_media := (lv_media v)(i \<mapsto> u')\<rparr>"
  have "live_reach lib q ext os s ?v"
    by (rule live_reach.step [OF v(1) live_step.media [OF pc v(3) step']])
  moreover have "only_call i s ?v"
    using v(2) end_dialog_active [OF pc(2,1)] by (simp add: only_call_def)
  ultimately show ?case by (intro exI [of _ ?v]) simp
qed

section \<open>Properties\<close>

lemma live_pool_inv:
  assumes "udp_laws os free addr" and "range_ok (port_range state)" and "first_rtp_port (port_range state) \<noteq> 0"
    and "live_reach lib q ext os (live_start state w) s"
  shows "pool_inv os free addr state w (lv_pool s)" "list_all log_ok (pool_calls (lv_pool s))"
  using live_reach_pool [OF assms(4)] pool_run_answers(1,2) [OF assms(1-3)]
  by (auto simp: live_start_def)

lemma live_waits:
  "live_ok lib q ext c media \<Longrightarrow>
   call_waits c \<longleftrightarrow> (\<exists>m. media = Some m \<and> cs_waiting m)"
  by (auto simp: live_ok_def call_waits_def split: option.splits)

text \<open>C5.
  The server with its calls and their tasks refines the pool.  In every reachable state, whatever the
  interleaving of set-ups, polls, sends, wake-ups and cancellations, the calls are in a state of a pool run,
  whose ends of sessions and dialogs are therefore all accounted for: the log of a call that has tasks is
  that of its waiting handler, with the teardown once this has woken; a call keeps the address of its RTP
  socket, a free address of the range that no other call has, until both tasks have ended; and the gauge
  of active calls is the number of the handlers that wait.\<close>

theorem live_calls_refine_pool:
  assumes "udp_laws os free addr" and "range_ok (port_range state)" and "first_rtp_port (port_range state) \<noteq> 0"
    and "live_reach lib q ext os (live_start state w) s"
  shows "(\<exists>evs. list_all (event_of os) evs \<and> pool_run evs (pool_start state w) = Some (lv_pool s)) \<and>
    (\<forall>i < length (pool_calls (lv_pool s)). \<forall>m. lv_media s i = Some m \<longrightarrow>
       sc_log (pool_calls (lv_pool s) ! i) = cs_effects m \<and>
       byes (cs_effects m) = (if cs_waiting m then 0 else 1) \<and>
       (rt_end (cs_recv m) = None \<or> sd_end (cs_send m) = None \<longrightarrow>
          (\<exists>p \<in> range_pairs (port_range state).
             held_addrs addr (pool_calls (lv_pool s) ! i) = [(local_ip_addr state, Ports.rtp_port p)]))) \<and>
    distinct (pool_held addr (lv_pool s)) \<and>
    free (pool_world (lv_pool s)) = free w - set (pool_held addr (lv_pool s)) \<and>
    active_gauge (lv_pool s) =
      int (length (filter (\<lambda>i. \<exists>m. lv_media s i = Some m \<and> cs_waiting m) [0..<length (pool_calls (lv_pool s))]))"
proof -
  let ?p = "lv_pool s"
  have inv: "live_inv lib q ext s" using live_inv_reach [OF assms(4) live_inv_start] .
  note pool = live_pool_inv [OF assms]
  have one: "sc_log c = cs_effects m \<and> byes (cs_effects m) = (if cs_waiting m then 0 else 1) \<and>
      (rt_end (cs_recv m) = None \<or> sd_end (cs_send m) = None \<longrightarrow>
        (\<exists>p \<in> range_pairs (port_range state). held_addrs addr c = [(local_ip_addr state, Ports.rtp_port p)]))"
    if "i < length (pool_calls ?p)" "lv_media s i = Some m" "c = pool_calls ?p ! i" for i m c
  proof -
    have ok: "live_ok lib q ext c (Some m)" using live_inv_nth [OF inv that(1)] that by simp
    have "call_ok os addr state c" "log_ok c"
      using that pool by (auto simp: pool_inv_def list_all_length)
    then show ?thesis
      using ok live_held [of os addr state c]
      by (auto simp: live_ok_def log_ok_def session_live_def tasks_ended_def)
  qed
  have "filter call_waits (pool_calls ?p) = map (\<lambda>i. pool_calls ?p ! i)
      (filter (\<lambda>i. call_waits (pool_calls ?p ! i)) [0..<length (pool_calls ?p)])"
    by (subst (1) map_nth [symmetric]) (simp add: filter_map comp_def)
  moreover have "filter (\<lambda>i. call_waits (pool_calls ?p ! i)) [0..<length (pool_calls ?p)] =
      filter (\<lambda>i. \<exists>m. lv_media s i = Some m \<and> cs_waiting m) [0..<length (pool_calls ?p)]"
    using live_waits [OF live_inv_nth [OF inv]] by (intro filter_cong) auto
  ultimately have "length (filter call_waits (pool_calls ?p)) =
      length (filter (\<lambda>i. \<exists>m. lv_media s i = Some m \<and> cs_waiting m) [0..<length (pool_calls ?p)])"
    by simp
  then have gauge: "active_gauge ?p =
      int (length (filter (\<lambda>i. \<exists>m. lv_media s i = Some m \<and> cs_waiting m) [0..<length (pool_calls ?p)]))"
    using active_gauge_counts [OF pool(2)] by simp
  have run: "\<exists>evs. list_all (event_of os) evs \<and> pool_run evs (pool_start state w) = Some ?p"
    using live_reach_pool [OF assms(4)] by (simp add: live_start_def)
  show ?thesis
    using one by (intro conjI run gauge pool_held_owned(1,3) [OF pool(1)] allI impI) blast+
qed

section \<open>The end of a dialog, in a server with other calls\<close>

text \<open>What a call that has tasks does in the server, its tasks and its handler do.\<close>

lemma live_step_projects:
  assumes "live_step lib q ext os s v" and "i < length (pool_calls (lv_pool s))" and "lv_media s i = Some m"
    and "sc_pc (pool_calls (lv_pool s) ! i) = SetUp (Active started guard)"
  shows "i < length (pool_calls (lv_pool v)) \<and>
    sc_pc (pool_calls (lv_pool v) ! i) = SetUp (Active started guard) \<and>
    sc_env (pool_calls (lv_pool v) ! i) = sc_env (pool_calls (lv_pool s) ! i) \<and>
    (\<exists>m'. lv_media v i = Some m' \<and>
       (m' = m \<or> call_step (call_params_of (sc_env (pool_calls (lv_pool s) ! i)) lib q started) ext m m'))"
  using assms(1)
proof (cases rule: live_step.cases)
  case (arrive env)
  then show ?thesis using assms(2-4) by (simp add: nth_append)
next
  case (advance j p)
  then have "j \<noteq> i" using assms(3) by auto
  then show ?thesis
    using advance assms(2-4) by (auto simp: advance_call_def Let_def split: option.splits)
next
  case (media j started' guard' n n')
  then show ?thesis
    using assms(2-4) by (cases "j = i") (auto simp: end_dialog_def Let_def)
next
  case (finish j n)
  then show ?thesis
    using assms(2-4) by (cases "j = i") (auto simp: end_session_def Let_def split: call_pc.split call_state.split)
qed

lemma live_reach_projects:
  assumes "live_reach lib q ext os s v" and "i < length (pool_calls (lv_pool s))" and "lv_media s i = Some m"
    and "sc_pc (pool_calls (lv_pool s) ! i) = SetUp (Active started guard)"
  shows "i < length (pool_calls (lv_pool v)) \<and>
    sc_pc (pool_calls (lv_pool v) ! i) = SetUp (Active started guard) \<and>
    sc_env (pool_calls (lv_pool v) ! i) = sc_env (pool_calls (lv_pool s) ! i) \<and>
    (\<exists>m'. lv_media v i = Some m' \<and>
       call_reach (call_params_of (sc_env (pool_calls (lv_pool s) ! i)) lib q started) ext m m')"
  using assms(1)
proof induction
  case refl
  then show ?case using assms(2-4) by (simp add: call_reach.refl)
next
  case (step u v)
  then obtain n where n: "i < length (pool_calls (lv_pool u))"
    "sc_pc (pool_calls (lv_pool u) ! i) = SetUp (Active started guard)"
    "sc_env (pool_calls (lv_pool u) ! i) = sc_env (pool_calls (lv_pool s) ! i)" "lv_media u i = Some n"
    "call_reach (call_params_of (sc_env (pool_calls (lv_pool s) ! i)) lib q started) ext m n"
    by blast
  from live_step_projects [OF step.hyps(2) n(1,4,2)] n(3,5) show ?case
    by (auto intro: call_reach.step)
qed

text \<open>The socket of a session whose tasks have ended is given up.\<close>

lemma live_finishes:
  assumes inv: "pool_inv os free addr state w (lv_pool u)" and laws: "udp_laws os free addr"
    and i: "i < length (pool_calls (lv_pool u))" and pc: "sc_pc (pool_calls (lv_pool u) ! i) = SetUp (Active started guard)"
    and media: "lv_media u i = Some m" "tasks_ended m"
  shows "\<exists>v. live_step lib q ext os u v \<and> lv_media v = lv_media u \<and>
    length (pool_calls (lv_pool v)) = length (pool_calls (lv_pool u)) \<and>
    pool_calls (lv_pool v) ! i = (pool_calls (lv_pool u) ! i)\<lparr>sc_open := False\<rparr> \<and>
    (\<forall>j. j \<noteq> i \<longrightarrow> pool_calls (lv_pool v) ! j = pool_calls (lv_pool u) ! j) \<and>
    free (pool_world (lv_pool v)) = free (pool_world (lv_pool u)) \<union> set (held_addrs addr (pool_calls (lv_pool u) ! i))"
proof -
  let ?v = "u\<lparr>lv_pool := end_session i (lv_pool u)\<rparr>"
  have "live_step lib q ext os u ?v"
    by (rule live_step.finish [OF i media(1)]) (use media(2) in \<open>simp_all add: tasks_ended_def\<close>)
  moreover have "ce_udp (sc_env (pool_calls (lv_pool u) ! i)) = os"
    using pool_inv_nth(1) [OF inv i] by (simp add: call_ok_def)
  then have "free (pool_world (end_session i (lv_pool u))) =
      free (pool_world (lv_pool u)) \<union> set (held_addrs addr (pool_calls (lv_pool u) ! i))"
    using pc by (cases "sc_open (pool_calls (lv_pool u) ! i)")
      (simp_all add: end_session_def held_addrs_def session_socket_drop_def udp_lawsD(3) [OF laws] Let_def)
  ultimately show ?thesis
    using i end_session_calls [OF pc] by (intro exI [of _ ?v]) simp
qed

lemma live_call_ends:
  assumes "udp_laws os free addr" and "range_ok (port_range state)" and "first_rtp_port (port_range state) \<noteq> 0"
    and "token_laws q" and "live_reach lib q ext os (live_start state w) s"
    and "i < length (pool_calls (lv_pool s))" and "lv_media s i = Some m"
    and "q (cs_calls m) (ce_dialog_token (sc_env (pool_calls (lv_pool s) ! i)))"
  shows "\<exists>v m'. live_reach lib q ext os s v \<and> lv_media v i = Some m' \<and>
    \<not> cs_waiting m' \<and> rt_end (cs_recv m') \<noteq> None \<and> sd_end (cs_send m') \<noteq> None \<and>
    sc_over (pool_calls (lv_pool v) ! i) \<and> byes (sc_log (pool_calls (lv_pool v) ! i)) = 1 \<and>
    held_addrs addr (pool_calls (lv_pool v) ! i) = [] \<and>
    free (pool_world (lv_pool v)) =
      free (pool_world (lv_pool s)) \<union> set (held_addrs addr (pool_calls (lv_pool s) ! i)) \<and>
    length (pool_calls (lv_pool v)) = length (pool_calls (lv_pool s)) \<and>
    (\<forall>j. j \<noteq> i \<longrightarrow> pool_calls (lv_pool v) ! j = pool_calls (lv_pool s) ! j \<and> lv_media v j = lv_media s j)"
proof -
  let ?c = "pool_calls (lv_pool s) ! i"
  have inv: "live_inv lib q ext s" using live_inv_reach [OF assms(5) live_inv_start] .
  have ok: "live_ok lib q ext ?c (Some m)" using live_inv_nth [OF inv assms(6)] assms(7) by simp
  then obtain started effs where pc: "sc_pc ?c = SetUp (Active started (ScopedGauge calls_active))"
    and r: "call_reach (call_params_of (sc_env ?c) lib q started) ext (call_begins effs started) m"
    unfolding live_ok_def by auto
  have made: "ss_token started = ChildToken (ce_dialog_token (sc_env ?c)) (ce_child (sc_env ?c))"
    using ok pc by (simp add: live_ok_def)
  obtain m' where m': "call_reach (call_params_of (sc_env ?c) lib q started) ext m m'"
    "\<not> cs_waiting m'" "tasks_ended m'"
    using call_comes_to_rest [OF assms(4) made r assms(8)] by (auto simp: tasks_ended_def)
  obtain u where u: "live_reach lib q ext os s u" "only_call i s u" "lv_media u i = Some m'"
    using live_call_reach [OF m'(1) assms(6,7) pc] by blast
  have fu: "i < length (pool_calls (lv_pool u))"
    "sc_pc (pool_calls (lv_pool u) ! i) = SetUp (Active started (ScopedGauge calls_active))"
    "held_addrs addr (pool_calls (lv_pool u) ! i) = held_addrs addr ?c"
    "free (pool_world (lv_pool u)) = free (pool_world (lv_pool s))"
    using u(2) assms(6) pc by (simp_all add: only_call_def held_addrs_def)
  note reach = live_reach_trans [OF u(1) assms(5)]
  obtain v where v: "live_step lib q ext os u v" "lv_media v = lv_media u"
    "length (pool_calls (lv_pool v)) = length (pool_calls (lv_pool u))"
    "pool_calls (lv_pool v) ! i = (pool_calls (lv_pool u) ! i)\<lparr>sc_open := False\<rparr>"
    "\<forall>j. j \<noteq> i \<longrightarrow> pool_calls (lv_pool v) ! j = pool_calls (lv_pool u) ! j"
    "free (pool_world (lv_pool v)) = free (pool_world (lv_pool u)) \<union> set (held_addrs addr (pool_calls (lv_pool u) ! i))"
    using live_finishes [OF live_pool_inv(1) [OF assms(1-3) reach] assms(1) fu(1,2) u(3) m'(3)] by blast
  note reach' = live_reach.step [OF reach v(1)]
  have "live_ok lib q ext (pool_calls (lv_pool v) ! i) (Some m')"
    using live_inv_nth [OF live_inv_reach [OF reach' live_inv_start], of i] v(2,3) fu(1) u(3) by simp
  then have over: "sc_over (pool_calls (lv_pool v) ! i)" using m'(2) by (simp add: live_ok_def)
  then have "byes (sc_log (pool_calls (lv_pool v) ! i)) = 1"
    using live_pool_inv(2) [OF assms(1-3) reach'] v(3) fu(1) by (simp add: list_all_length log_ok_def)
  then show ?thesis
    using over u v m'(2,3) fu(3,4) live_reach.step [OF u(1) v(1)]
    by (intro exI [of _ v] exI [of _ m']) (simp add: only_call_def tasks_ended_def held_addrs_def)
qed

lemma live_frames_frozen:
  assumes "token_laws q" and "live_inv lib q ext s"
    and i: "i < length (pool_calls (lv_pool s))" and m: "lv_media s i = Some m"
    and "q (cs_calls m) (ce_dialog_token (sc_env (pool_calls (lv_pool s) ! i)))" and "live_reach lib q ext os s v"
  shows "\<exists>m'. lv_media v i = Some m' \<and> rt_frames (cs_recv m') = rt_frames (cs_recv m)"
proof -
  let ?c = "pool_calls (lv_pool s) ! i"
  have ok: "live_ok lib q ext ?c (Some m)" using live_inv_nth [OF assms(2) i] m by simp
  then obtain started where pc: "sc_pc ?c = SetUp (Active started (ScopedGauge calls_active))"
    unfolding live_ok_def by auto
  then have "ss_token started = ChildToken (ce_dialog_token (sc_env ?c)) (ce_child (sc_env ?c))"
    using ok by (simp add: live_ok_def)
  then have seen: "q (cs_calls m) (ss_token started)"
    using token_parent [OF assms(1,5)] by simp
  obtain m' where "lv_media v i = Some m'" "call_reach (call_params_of (sc_env ?c) lib q started) ext m m'"
    using live_reach_projects [OF assms(6) i m pc] by blast
  then show ?thesis
    using frames_frozen [of "call_params_of (sc_env ?c) lib q started" ext m m'] assms(1) seen by simp
qed

text \<open>C6.
  The end of a dialog gives the port back.  In every reachable state of a server with any calls, a call
  that has tasks and whose dialog reads as cancelled can come to its end without a step of any other
  call: then its handler has woken and returned, its log has the one BYE, both tasks have ended, it
  holds no socket and the address it held is free again; the other calls, their tasks and the addresses
  they hold are as they were.  And from the first such state on, whatever
  happens to any call, no further frame of this call reaches its audio handler.\<close>

theorem ended_call_gives_port_back:
  assumes "udp_laws os free addr" and "range_ok (port_range state)" and "first_rtp_port (port_range state) \<noteq> 0"
    and "token_laws q" and "live_reach lib q ext os (live_start state w) s"
    and "i < length (pool_calls (lv_pool s))" and "lv_media s i = Some m"
    and "q (cs_calls m) (ce_dialog_token (sc_env (pool_calls (lv_pool s) ! i)))"
  shows "(\<exists>v m'. live_reach lib q ext os s v \<and> lv_media v i = Some m' \<and>
      \<not> cs_waiting m' \<and> rt_end (cs_recv m') \<noteq> None \<and> sd_end (cs_send m') \<noteq> None \<and>
      sc_over (pool_calls (lv_pool v) ! i) \<and> byes (sc_log (pool_calls (lv_pool v) ! i)) = 1 \<and>
      held_addrs addr (pool_calls (lv_pool v) ! i) = [] \<and>
      free (pool_world (lv_pool v)) =
        free (pool_world (lv_pool s)) \<union> set (held_addrs addr (pool_calls (lv_pool s) ! i)) \<and>
      length (pool_calls (lv_pool v)) = length (pool_calls (lv_pool s)) \<and>
      (\<forall>j. j \<noteq> i \<longrightarrow> pool_calls (lv_pool v) ! j = pool_calls (lv_pool s) ! j \<and> lv_media v j = lv_media s j)) \<and>
    (\<forall>v. live_reach lib q ext os s v \<longrightarrow>
       (\<exists>m'. lv_media v i = Some m' \<and> rt_frames (cs_recv m') = rt_frames (cs_recv m)))"
  using live_call_ends [OF assms] live_frames_frozen [OF assms(4) live_inv_reach [OF assms(5) live_inv_start] assms(6-8)]
  by (intro conjI allI impI) simp_all

section \<open>A concrete server\<close>

text \<open>A call that runs alone makes its steps, one after the other.\<close>

lemma setup_run_done: "pc_done pc \<Longrightarrow> setup_run env n pc st w = Some ([], pc, st, w)"
  by (induction n) (simp_all add: setup_step_done)

lemma solo_run:
  assumes "setup_run (sc_env c) n (sc_pc c) st w = Some (effs, pc', st', w')" and "\<not> pc_active (sc_pc c)"
  shows "live_reach lib q ext os
    \<lparr>lv_pool = \<lparr>pool_state = st, pool_world = w, pool_calls = [c]\<rparr>, lv_media = Map.empty\<rparr>
    \<lparr>lv_pool = \<lparr>pool_state = st', pool_world = w', pool_calls = [c\<lparr>sc_pc := pc', sc_log := sc_log c @ effs\<rparr>]\<rparr>,
     lv_media = Map.empty(0 := begin_media (c\<lparr>sc_pc := pc', sc_log := sc_log c @ effs\<rparr>))\<rparr>"
  using assms
proof (induction n arbitrary: c st w effs)
  case 0
  then have "pc' = sc_pc c" "effs = []" "begin_media c = None" by (simp_all add: begin_media_None)
  moreover have "c\<lparr>sc_pc := sc_pc c, sc_log := sc_log c @ []\<rparr> = c" by simp
  ultimately show ?case using 0 by (simp add: fun_upd_idem live_reach.refl del: fun_upd_apply)
next
  case (Suc n)
  obtain effs1 pc1 st1 w1 effs2 where s: "setup_step (sc_env c) (sc_pc c) st w = Some (effs1, pc1, st1, w1)"
    "setup_run (sc_env c) n pc1 st1 w1 = Some (effs2, pc', st', w')" "effs = effs1 @ effs2"
    using Suc.prems(1) by (auto split: option.splits)
  let ?c1 = "c\<lparr>sc_pc := pc1, sc_log := sc_log c @ effs1\<rparr>"
  let ?s = "\<lparr>lv_pool = \<lparr>pool_state = st, pool_world = w, pool_calls = [c]\<rparr>, lv_media = Map.empty\<rparr>"
  let ?v = "\<lparr>lv_pool = \<lparr>pool_state = st1, pool_world = w1, pool_calls = [?c1]\<rparr>, lv_media = Map.empty(0 := begin_media ?c1)\<rparr>"
  have "live_step lib q ext os ?s (?s\<lparr>lv_pool := lv_pool ?v, lv_media := (lv_media ?s)(0 := begin_media (pool_calls (lv_pool ?v) ! 0))\<rparr>)"
    by (rule live_step.advance) (simp_all add: advance_call_def s(1))
  then have step: "live_reach lib q ext os ?s ?v"
    by (intro live_reach.step [OF live_reach.refl]) simp
  show ?case
  proof (cases "pc_active pc1")
    case True
    have "setup_run (sc_env c) n pc1 st1 w1 = Some ([], pc1, st1, w1)"
      by (rule setup_run_done [OF pc_active_done [OF True]])
    then show ?thesis using step s(2,3) by (simp del: fun_upd_apply)
  next
    case False
    then have "begin_media ?c1 = None" by (simp add: begin_media_None)
    then have "Map.empty(0 :: nat := begin_media ?c1) = Map.empty" by simp
    with step have step: "live_reach lib q ext os ?s
        \<lparr>lv_pool = \<lparr>pool_state = st1, pool_world = w1, pool_calls = [?c1]\<rparr>, lv_media = Map.empty\<rparr>"
      by (simp only:)
    have "setup_run (sc_env ?c1) n (sc_pc ?c1) st1 w1 = Some (effs2, pc', st', w')" "\<not> pc_active (sc_pc ?c1)"
      using s(2) False by simp_all
    from live_reach_trans [OF Suc.IH [OF this] step] show ?thesis using s(3) by (simp del: fun_upd_apply)
  qed
qed

lemma sample_live:
  "\<exists>s m. live_reach lib q ext list_udp (live_start sample_state []) s \<and> length (pool_calls (lv_pool s)) = 1 \<and>
     sc_env (pool_calls (lv_pool s) ! 0) = sample_env \<and> lv_media s 0 = Some m \<and> cs_waiting m"
proof -
  obtain effs res st w where h: "handle_call sample_env False sample_state [] = Some (effs, res, st, w)"
    using sample_call by blast
  obtain started where "res = Active started (ScopedGauge calls_active)"
    using handle_call_answered [OF h sample_call_goes] by auto
  then have "call_setup sample_env sample_state [] = Some (effs, Active started (ScopedGauge calls_active), st, w)"
    using h by (auto simp: handle_call_def split: option.splits call_state.splits)
  moreover have "range_capacity (ce_chk sample_env) (port_range sample_state) = Some 2"
    by (simp add: two_pairs_cursor)
  ultimately have run: "setup_run (sc_env (spawn_call sample_env)) (pc_steps 2 Received) (sc_pc (spawn_call sample_env)) sample_state [] =
      Some (effs, SetUp (Active started (ScopedGauge calls_active)), st, w)"
    using setup_run_rest [of sample_env sample_state 2 Received "pc_steps 2 Received" "[]"] by (simp add: spawn_call_def)
  have "live_step lib q ext list_udp (live_start sample_state [])
      ((live_start sample_state [])\<lparr>lv_pool := (lv_pool (live_start sample_state []))\<lparr>
        pool_calls := pool_calls (lv_pool (live_start sample_state [])) @ [spawn_call sample_env]\<rparr>\<rparr>)"
    by (rule live_step.arrive) simp
  then have "live_step lib q ext list_udp (live_start sample_state [])
      \<lparr>lv_pool = \<lparr>pool_state = sample_state, pool_world = [], pool_calls = [spawn_call sample_env]\<rparr>, lv_media = Map.empty\<rparr>"
    by (simp add: live_start_def pool_start_def)
  moreover have "\<not> pc_active (sc_pc (spawn_call sample_env))" by (simp add: spawn_call_def)
  ultimately have "live_reach lib q ext list_udp (live_start sample_state [])
      \<lparr>lv_pool = \<lparr>pool_state = st, pool_world = w, pool_calls =
         [(spawn_call sample_env)\<lparr>sc_pc := SetUp (Active started (ScopedGauge calls_active)),
            sc_log := sc_log (spawn_call sample_env) @ effs\<rparr>]\<rparr>,
       lv_media = Map.empty(0 := begin_media ((spawn_call sample_env)\<lparr>
         sc_pc := SetUp (Active started (ScopedGauge calls_active)), sc_log := sc_log (spawn_call sample_env) @ effs\<rparr>))\<rparr>"
    by (intro live_reach_trans [OF solo_run [OF run] live_reach.step [OF live_reach.refl]])
  then show ?thesis
    by (intro exI conjI) (assumption, simp_all add: spawn_call_def begin_media_def, simp)
qed

theorem live_calls_refine_pool_witness:
  "\<exists>s :: (unit, nat, sock_addr list, sock_addr) live.
     live_reach plain_rtp_lib tree_query (\<lambda>_. False) list_udp (live_start sample_state []) s \<and>
     lv_media s 0 \<noteq> None \<and> active_gauge (lv_pool s) = 1 \<and> distinct (pool_held id (lv_pool s))"
proof -
  have udp: "udp_laws list_udp (\<lambda>w. - set w) id" by (rule list_udp_laws)
  obtain s :: "(unit, nat, sock_addr list, sock_addr) live" and m where
    s: "live_reach plain_rtp_lib tree_query (\<lambda>_. False) list_udp (live_start sample_state []) s"
    "length (pool_calls (lv_pool s)) = 1" "lv_media s 0 = Some m" "cs_waiting m"
    using sample_live by blast
  then show ?thesis
    using live_calls_refine_pool [OF udp sample_state_ok(2,3) s(1)] by (intro exI [of _ s]) simp
qed

theorem ended_call_gives_port_back_witness:
  "\<exists>v :: (unit, nat, sock_addr list, sock_addr) live.
     live_reach plain_rtp_lib tree_query (\<lambda>t. t = RootToken 0) list_udp (live_start sample_state []) v \<and>
     length (pool_calls (lv_pool v)) = 1 \<and> byes (sc_log (pool_calls (lv_pool v) ! 0)) = 1 \<and>
     held_addrs id (pool_calls (lv_pool v) ! 0) = []"
proof -
  let ?ext = "\<lambda>t. t = RootToken 0"
  have udp: "udp_laws list_udp (\<lambda>w. - set w) id" by (rule list_udp_laws)
  obtain s :: "(unit, nat, sock_addr list, sock_addr) live" and m where
    s: "live_reach plain_rtp_lib tree_query ?ext list_udp (live_start sample_state []) s"
    "length (pool_calls (lv_pool s)) = 1" "sc_env (pool_calls (lv_pool s) ! 0) = sample_env"
    "lv_media s 0 = Some m" "cs_waiting m"
    using sample_live by blast
  have i: "0 < length (pool_calls (lv_pool s))" using s(2) by simp
  obtain started where pc: "sc_pc (pool_calls (lv_pool s) ! 0) = SetUp (Active started (ScopedGauge calls_active))"
    using live_inv_nth [OF live_inv_reach [OF s(1) live_inv_start] i] s(4) by (auto simp: live_ok_def)
  let ?m = "m\<lparr>cs_calls := cs_calls m @ [RootToken 0]\<rparr>"
  have "call_reach (call_params_of (sc_env (pool_calls (lv_pool s) ! 0)) plain_rtp_lib tree_query started) ?ext m ?m"
    by (rule call_reach.step [OF call_reach.refl call_step.others]) simp
  then obtain u where u: "live_reach plain_rtp_lib tree_query ?ext list_udp s u" "only_call 0 s u" "lv_media u 0 = Some ?m"
    using live_call_reach [OF _ i s(4) pc] by blast
  have "tree_query (cs_calls ?m) (ce_dialog_token (sc_env (pool_calls (lv_pool u) ! 0)))"
    using u(2) s(3) by (simp add: only_call_def tree_query_def sample_env_def)
  moreover have "0 < length (pool_calls (lv_pool u))" "length (pool_calls (lv_pool u)) = 1"
    using u(2) s(2) by (simp_all add: only_call_def)
  ultimately show ?thesis
    using ended_call_gives_port_back [OF udp sample_state_ok(2,3) tree_query_laws live_reach_trans [OF u(1) s(1)] _ u(3),
        THEN conjunct1]
      live_reach_trans [OF _ live_reach_trans [OF u(1) s(1)]] by fastforce
qed

end
