(* ===== verification/SdpText.thy ===== *)
theory SdpText
  imports Sdp
begin

text \<open>
  The text of a session description (RFC 4566), as far as \<open>parse_sdp_offer\<close> looks at it: the lines
  before the first media line in their order, media lines, connection lines of the two address types,
  and attributes with the \<open>rtpmap\<close> (RFC 4566, section 6) taken apart.  This is what the library relies
  on of the grammar of the crate \<open>sdp-rs\<close>, its own reader being the parameter \<open>sdp_parse\<close>: a text that
  can be read here is read in the same way there (\<open>sdp_grammar_ok\<close>).  The reader here is narrow: it
  leaves out the line types and attributes that neither the source nor its tests write, and says
  nothing of texts that have them.  It does not know what an answer of this server looks like.
\<close>

section \<open>Fields\<close>

text \<open>A text up to a character, and what comes after that; and all the parts between such characters.\<close>

fun cut :: "char \<Rightarrow> string \<Rightarrow> string \<times> string" where
  "cut sep [] = ([], [])"
| "cut sep (c # cs) = (if c = sep then ([], cs) else let (a, b) = cut sep cs in (c # a, b))"

fun parts :: "char \<Rightarrow> string \<Rightarrow> string list" where
  "parts sep [] = [[]]"
| "parts sep (c # cs) =
     (if c = sep then [] # parts sep cs
      else (case parts sep cs of p # ps \<Rightarrow> (c # p) # ps | [] \<Rightarrow> [[c]]))"

definition read_unsigned :: "nat \<Rightarrow> string \<Rightarrow> nat option" where
  "read_unsigned bound s = (if s = [] then None else parse_digits bound 0 s)"

text \<open>The address is of the type that is named before it.\<close>

definition read_address :: "string \<Rightarrow> string \<Rightarrow> string \<Rightarrow> ip_addr option" where
  "read_address net kind addr =
     (if net \<noteq> ''IN'' then None
      else (case ip_from_str addr of
              Inr (IpV4 a b c d) \<Rightarrow> (if kind = ''IP4'' then Some (IpV4 a b c d) else None)
            | Inr (IpV6 segs) \<Rightarrow> (if kind = ''IP6'' then Some (IpV6 segs) else None)
            | Inl _ \<Rightarrow> None))"

section \<open>Lines\<close>

datatype sdp_line =
    VersionLine
  | OriginLine
  | NameLine
  | ConnectionLine ip_addr
  | TimingLine
  | MediaLine media_type u16 string
  | AttributeLine attribute

text \<open>\<open><user> <session id> <version> <network type> <address type> <address>\<close>\<close>

definition read_origin :: "string \<Rightarrow> sdp_line option" where
  "read_origin v =
     (case parts CHR '' '' v of
        [user, sid, version, net, kind, addr] \<Rightarrow>
          (if user \<noteq> [] \<and> read_unsigned (2 ^ 64) sid \<noteq> None \<and> read_unsigned (2 ^ 64) version \<noteq> None
              \<and> read_address net kind addr \<noteq> None then Some OriginLine else None)
      | _ \<Rightarrow> None)"

text \<open>\<open><network type> <address type> <address>\<close>\<close>

definition read_connection :: "string \<Rightarrow> sdp_line option" where
  "read_connection v =
     (case parts CHR '' '' v of
        [net, kind, addr] \<Rightarrow> map_option ConnectionLine (read_address net kind addr)
      | _ \<Rightarrow> None)"

text \<open>\<open><start> <stop>\<close>\<close>

definition read_timing :: "string \<Rightarrow> sdp_line option" where
  "read_timing v =
     (case parts CHR '' '' v of
        [start, stop] \<Rightarrow>
          (if read_unsigned (2 ^ 64) start \<noteq> None \<and> read_unsigned (2 ^ 64) stop \<noteq> None then Some TimingLine else None)
      | _ \<Rightarrow> None)"

text \<open>\<open><media> <port> <proto> <fmt> ...\<close>\<close>

definition read_media :: "string \<Rightarrow> sdp_line option" where
  "read_media v =
     (let (media, rest) = cut CHR '' '' v; (port, rest) = cut CHR '' '' rest; (proto, fmt) = cut CHR '' '' rest
      in if media \<in> {''audio'', ''video''} \<and> proto = ''RTP/AVP'' \<and> fmt \<noteq> []
         then map_option
                (\<lambda>p. MediaLine (if media = ''audio'' then Audio else OtherMedia media) (of_nat p) fmt)
                (read_unsigned (2 ^ 16) port)
         else None)"

text \<open>\<open><payload type> <encoding name>/<clock rate>[/<encoding parameters>]\<close>\<close>

definition read_rtpmap :: "string \<Rightarrow> rtpmap option" where
  "read_rtpmap v =
     (let (pt, encoding) = cut CHR '' '' v;
          (name, rest) = cut CHR ''/'' encoding;
          (rate, parameters) = cut CHR ''/'' rest
      in case (read_unsigned (2 ^ 32) pt, read_unsigned (2 ^ 32) rate) of
           (Some p, Some r) \<Rightarrow>
             (if name \<noteq> [] \<and> (CHR ''/'' \<in> set rest \<longrightarrow> read_unsigned (2 ^ 32) parameters \<noteq> None)
              then Some \<lparr>rm_payload_type = of_nat p, rm_encoding_name = name, rm_clock_rate = of_nat r\<rparr>
              else None)
         | _ \<Rightarrow> None)"

definition read_attribute :: "string \<Rightarrow> attribute option" where
  "read_attribute v =
     (let (name, val) = cut CHR '':'' v
      in if name = ''rtpmap'' then map_option Rtpmap (read_rtpmap val)
         else if name = ''ptime'' then map_option (\<lambda>_. OtherAttribute name) (read_unsigned (2 ^ 32) val)
         else if name = ''fmtp'' \<and> val \<noteq> [] then Some (OtherAttribute name)
         else if v \<in> {''sendrecv'', ''sendonly'', ''recvonly'', ''inactive''} then Some (OtherAttribute v)
         else None)"

definition read_line :: "string \<Rightarrow> sdp_line option" where
  "read_line l =
     (let (key, v) = cut CHR ''='' l
      in if key = ''v'' then (if v = ''0'' then Some VersionLine else None)
         else if key = ''o'' then read_origin v
         else if key = ''s'' then (if v \<noteq> [] then Some NameLine else None)
         else if key = ''c'' then read_connection v
         else if key = ''t'' then read_timing v
         else if key = ''m'' then read_media v
         else if key = ''a'' then map_option AttributeLine (read_attribute v)
         else None)"

section \<open>Sections\<close>

fun is_attribute :: "sdp_line \<Rightarrow> bool" where
  "is_attribute (AttributeLine _) = True" | "is_attribute _ = False"

fun is_connection :: "sdp_line \<Rightarrow> bool" where
  "is_connection (ConnectionLine _) = True" | "is_connection _ = False"

fun is_media :: "sdp_line \<Rightarrow> bool" where
  "is_media (MediaLine _ _ _) = True" | "is_media _ = False"

text \<open>In a media section, connection lines come before attributes.\<close>

definition media_order :: "sdp_line list \<Rightarrow> bool" where
  "media_order ls \<longleftrightarrow>
     list_all (\<lambda>l. is_media l \<or> is_connection l \<or> is_attribute l) ls \<and>
     successively (\<lambda>l m. \<not> (is_attribute l \<and> is_connection m)) ls \<and> (ls \<noteq> [] \<longrightarrow> is_media (hd ls))"

definition connections_of :: "sdp_line list \<Rightarrow> ip_addr list" where
  "connections_of ls = List.map_filter (\<lambda>l. case l of ConnectionLine ip \<Rightarrow> Some ip | _ \<Rightarrow> None) ls"

definition attributes_of :: "sdp_line list \<Rightarrow> attribute list" where
  "attributes_of ls = List.map_filter (\<lambda>l. case l of AttributeLine a \<Rightarrow> Some a | _ \<Rightarrow> None) ls"

text \<open>The lines before the first media line, and the media descriptions.\<close>

fun sdp_sections :: "sdp_line list \<Rightarrow> sdp_line list \<times> media_description list" where
  "sdp_sections [] = ([], [])"
| "sdp_sections (MediaLine media port fmt # ls) =
     (let (own, ms) = sdp_sections ls
      in ([], \<lparr>md_media = media, md_port = port, md_fmt = fmt, md_connections = connections_of own,
               md_attributes = attributes_of own\<rparr> # ms))"
| "sdp_sections (l # ls) = (let (own, ms) = sdp_sections ls in (l # own, ms))"

definition describe :: "ip_addr option \<Rightarrow> sdp_line list \<Rightarrow> session_description option" where
  "describe connection ls =
     (let media = dropWhile is_attribute ls
      in if media_order media
         then Some \<lparr>sd_connection = connection, sd_media_descriptions = snd (sdp_sections media)\<rparr>
         else None)"

text \<open>Version, origin, name, at most one connection, timing; then session attributes and media.\<close>

definition read_sdp :: "string \<Rightarrow> session_description option" where
  "read_sdp body =
     (let ls = crlf_lines body
      in if concat (map (\<lambda>l. l @ CRLF) ls) = body \<and> list_all (list_all printable) ls
         then (case those (map read_line ls) of
                 Some (VersionLine # OriginLine # NameLine # ConnectionLine ip # TimingLine # ls) \<Rightarrow> describe (Some ip) ls
               | Some (VersionLine # OriginLine # NameLine # TimingLine # ls) \<Rightarrow> describe None ls
               | _ \<Rightarrow> None)
         else None)"

text \<open>What is relied on of a grammar, and a grammar that is like that.\<close>

definition sdp_grammar_ok :: "sdp_parse \<Rightarrow> bool" where
  "sdp_grammar_ok parse \<longleftrightarrow> (\<forall>body d. read_sdp body = Some d \<longrightarrow> parse body = Inr d)"

definition text_grammar :: sdp_parse where
  "text_grammar body = (case read_sdp body of Some d \<Rightarrow> Inr d | None \<Rightarrow> Inl ''not a session description'')"

lemma text_grammar_ok: "sdp_grammar_ok text_grammar"
  by (simp add: sdp_grammar_ok_def text_grammar_def)

section \<open>Reading what is shown\<close>

lemma cut_at: "sep \<notin> set xs \<Longrightarrow> cut sep (xs @ sep # ys) = (xs, ys)"
  by (induction xs) auto

lemma cut_none: "sep \<notin> set xs \<Longrightarrow> cut sep xs = (xs, [])"
  by (induction xs) auto

lemma parts_none: "sep \<notin> set xs \<Longrightarrow> parts sep xs = [xs]"
  by (induction xs) auto

lemma parts_at: "sep \<notin> set xs \<Longrightarrow> parts sep (xs @ sep # ys) = xs # parts sep ys"
  by (induction xs) auto

lemma graphic_no_space: "list_all ascii_graphic s \<Longrightarrow> CHR '' '' \<notin> set s"
  by (auto simp: list_all_iff ascii_graphic_def)

lemma show_nat_no_sep [simp]:
  "CHR '' '' \<notin> set (show_nat n)" "CHR ''/'' \<notin> set (show_nat n)" "CHR '':'' \<notin> set (show_nat n)"
  by (auto dest!: show_nat_chars arg_cong [where f = "of_char :: char \<Rightarrow> nat"] simp: digit_char_props(1))

lemma read_show_unsigned: "n < bound \<Longrightarrow> read_unsigned bound (show_nat n) = Some n"
  by (simp add: read_unsigned_def parse_show_digits)

lemma read_constants:
  "0 < b \<Longrightarrow> read_unsigned b ''0'' = Some 0" "1 < b \<Longrightarrow> read_unsigned b ''1'' = Some 1"
  "2 < b \<Longrightarrow> read_unsigned b ''2'' = Some 2" "20 < b \<Longrightarrow> read_unsigned b ''20'' = Some 20"
  "8000 < b \<Longrightarrow> read_unsigned b ''8000'' = Some 8000" "16000 < b \<Longrightarrow> read_unsigned b ''16000'' = Some 16000"
  "48000 < b \<Longrightarrow> read_unsigned b ''48000'' = Some 48000"
  by (simp_all add: read_unsigned_def digit_value_def)

section \<open>Reading an answer\<close>

lemma read_address_ip4:
  "ip_ok ip \<Longrightarrow> read_address ''IN'' ''IP4'' (show_ip ip)
     = (case ip of IpV4 _ _ _ _ \<Rightarrow> Some ip | IpV6 _ \<Rightarrow> None)"
  by (simp add: read_address_def ip_from_str_show split: ip_addr.splits)

lemma read_connection_line:
  "ip_ok ip \<Longrightarrow> read_line (''c=IN IP4 '' @ show_ip ip)
     = (case ip of IpV4 _ _ _ _ \<Rightarrow> Some (ConnectionLine ip) | IpV6 _ \<Rightarrow> None)"
  by (simp add: read_line_def read_connection_def parts_none [OF graphic_no_space] read_address_ip4
      split: ip_addr.splits)

lemma read_origin_line:
  "read_line (''o=- '' @ show_nat (unat (sid :: u64)) @ '' 1 IN IP4 '' @ show_ip (IpV4 a b c d)) = Some OriginLine"
proof -
  have "unat sid < 2 ^ 64" using unsigned_less [of sid] by simp
  then show ?thesis
    using read_address_ip4 [of "IpV4 a b c d"] graphic_no_space [of "show_ipv4 a b c d"]
    by (simp add: read_line_def read_origin_def parts_at parts_none read_show_unsigned read_constants ip_ok_def)
qed

lemma read_media_line:
  "read_line (''m=audio '' @ show_nat (unat (port :: u16)) @ '' RTP/AVP '' @ show_nat n)
     = Some (MediaLine Audio port (show_nat n))"
proof -
  have "unat port < 2 ^ 16" using unsigned_less [of port] by simp
  then show ?thesis
    by (simp add: read_line_def read_media_def cut_at cut_none read_show_unsigned)
qed

definition answer_clock :: "codec_kind \<Rightarrow> u32" where
  "answer_clock k = (case k of Opus \<Rightarrow> 48000 | L16 \<Rightarrow> 16000 | _ \<Rightarrow> 8000)"

lemma read_codec_lines:
  "map read_line (codec_lines (show_nat (unat (pt :: u8))) k) =
     Some (AttributeLine (Rtpmap \<lparr>rm_payload_type = ucast pt, rm_encoding_name = kind_name k,
             rm_clock_rate = answer_clock k\<rparr>))
     # (if k = Opus then [Some (AttributeLine (OtherAttribute ''fmtp''))] else [])"
proof -
  have "unat pt < 2 ^ 8" using unsigned_less [of pt] by simp
  then have pt: "read_unsigned 4294967296 (show_nat (unat pt)) = Some (unat pt)"
    by (simp add: read_show_unsigned)
  have map_line: "read_line (''a=rtpmap:'' @ show_nat (unat pt) @ '' '' @ v) =
      map_option (\<lambda>r. AttributeLine (Rtpmap r)) (read_rtpmap (show_nat (unat pt) @ '' '' @ v))" for v
    by (simp add: read_line_def read_attribute_def option.map_comp o_def)
  have "(of_nat (unat pt) :: u32) = ucast pt" by simp
  then have "map_option (\<lambda>r. AttributeLine (Rtpmap r)) (read_rtpmap (show_nat (unat pt) @ '' '' @ kind_name k @
        (case k of Opus \<Rightarrow> ''/48000/2'' | L16 \<Rightarrow> ''/16000'' | _ \<Rightarrow> ''/8000''))) =
      Some (AttributeLine (Rtpmap \<lparr>rm_payload_type = ucast pt, rm_encoding_name = kind_name k,
             rm_clock_rate = answer_clock k\<rparr>))"
    by (cases k) (simp_all add: read_rtpmap_def cut_at pt read_constants answer_clock_def)
  moreover have "read_line (''a=fmtp:'' @ show_nat (unat pt) @ '' minptime=10;useinbandfec=1'')
      = Some (AttributeLine (OtherAttribute ''fmtp''))"
    by (simp add: read_line_def read_attribute_def)
  ultimately show ?thesis
    unfolding codec_lines_def map_line list.map by simp
qed

text \<open>What can be read of an answer: its address, and one audio section.\<close>

definition answer_description :: "ip_addr \<Rightarrow> u16 \<Rightarrow> offered_codec \<Rightarrow> session_description" where
  "answer_description ip port c =
     \<lparr>sd_connection = Some ip,
      sd_media_descriptions =
        [\<lparr>md_media = Audio, md_port = port, md_fmt = show_nat (unat (oc_payload_type c)), md_connections = [],
          md_attributes =
            Rtpmap \<lparr>rm_payload_type = ucast (oc_payload_type c), rm_encoding_name = kind_name (oc_kind c),
                    rm_clock_rate = answer_clock (oc_kind c)\<rparr>
            # (if oc_kind c = Opus then [OtherAttribute ''fmtp''] else [])
            @ [OtherAttribute ''ptime'', OtherAttribute ''sendrecv'']\<rparr>]\<rparr>"

lemma answer_text:
  "crlf_lines (generate_sdp_answer ip port sid c) = answer_lines ip port sid c"
  "concat (map (\<lambda>l. l @ CRLF) (answer_lines ip port sid c)) = generate_sdp_answer ip port sid c"
  using answer_is_its_lines [of ip port sid c] by simp_all

lemma read_fixed_lines:
  "read_line ''v=0'' = Some VersionLine" "read_line ''s=rsipstack-server'' = Some NameLine"
  "read_line ''t=0 0'' = Some TimingLine" "read_line ''a=ptime:20'' = Some (AttributeLine (OtherAttribute ''ptime''))"
  "read_line ''a=sendrecv'' = Some (AttributeLine (OtherAttribute ''sendrecv''))"
  by (simp_all add: read_line_def read_timing_def read_attribute_def read_constants)

lemma read_answer:
  assumes "ip = IpV4 i j k l"
  shows "read_sdp (generate_sdp_answer ip port sid c) = Some (answer_description ip port c)"
proof -
  have conn: "read_line (''c=IN IP4 '' @ show_ip ip) = Some (ConnectionLine ip)"
    using read_connection_line [of ip] assms by (simp add: ip_ok_def)
  have "those (map read_line (answer_lines ip port sid c)) = Some ([VersionLine, OriginLine, NameLine,
      ConnectionLine ip, TimingLine, MediaLine Audio port (show_nat (unat (oc_payload_type c))),
      AttributeLine (Rtpmap \<lparr>rm_payload_type = ucast (oc_payload_type c), rm_encoding_name = kind_name (oc_kind c),
             rm_clock_rate = answer_clock (oc_kind c)\<rparr>)]
      @ (if oc_kind c = Opus then [AttributeLine (OtherAttribute ''fmtp'')] else [])
      @ [AttributeLine (OtherAttribute ''ptime''), AttributeLine (OtherAttribute ''sendrecv'')])"
    unfolding answer_lines_def map_append read_codec_lines list.map conn read_media_line read_fixed_lines
      read_origin_line [of sid i j k l, folded assms]
    by simp
  then show ?thesis
    unfolding read_sdp_def Let_def answer_text
    by (simp add: answer_lines_printable describe_def media_order_def connections_of_def attributes_of_def
        List.map_filter_simps answer_description_def)
qed

lemma read_answer_ip6:
  assumes "length segs = 8"
  shows "read_sdp (generate_sdp_answer (IpV6 segs) port sid c) = None"
proof -
  have "read_line (''c=IN IP4 '' @ show_ip (IpV6 segs)) = None"
    using read_connection_line [of "IpV6 segs"] assms by (simp add: ip_ok_def)
  then have "those (map read_line (answer_lines (IpV6 segs) port sid c)) = None"
    by (simp add: answer_lines_def del: show_ip.simps split: option.splits)
  then show ?thesis
    unfolding read_sdp_def Let_def answer_text by simp
qed

end
