(* ===== verification/Spec2Isabelle.thy ===== *)
theory Spec2Isabelle
  imports EchoServer ServerCalls LiveCalls SdpText
begin

text \<open>
  A model of rsipstack-server: a library that answers SIP calls, negotiates a codec and moves audio
  between RTP and the application's audio handler, and the echo server that is its example.

  \<^bold>\<open>The program.\<close>  \<open>SipServer::new\<close> (\<open>src/src/server.rs\<close>) makes the tokens, the SIP socket and the
  range of RTP ports; \<open>run\<close> serves until one of three loops ends: the endpoint, the requests, and the
  dialog states; a drain monitor runs beside them.  A new dialog spawns \<open>CallHandler::handle_call\<close>
  (\<open>call_handler.rs\<close>), which reads the SDP offer (\<open>media/sdp.rs\<close>), binds and connects a pair of sockets
  (\<open>media/rtp.rs\<close>), makes a \<open>MediaSession\<close> (\<open>media/session.rs\<close>) with two codecs (\<open>codec/*.rs\<close>), answers,
  starts the session's receive and send tasks and the application's handler, and waits for the end
  of the dialog.  The parts share cancellation tokens (the server's, the dialog's and its child, the
  session's), the cursor of the port range, and the metrics (\<open>metrics.rs\<close>).

  \<^bold>\<open>Theories and sources.\<close>
  \<^item> \<open>Prelude\<close>: machine words, panics as \<open>None\<close> (\<open>outcome\<close>), checked and wrapping arithmetic,
    \<open>chunks\<close>, generators that go round, owners of a common stock.  \<open>RustStr\<close>, \<open>Utf8\<close>, \<open>NetAddr\<close>: what the source uses of the
    standard library's strings, \<open>from_utf8_lossy\<close> and the display of addresses.
  \<^item> \<open>Codec\<close>, \<open>Codecs\<close>: \<open>codec/mod.rs\<close>, \<open>opus.rs\<close>, \<open>g722.rs\<close>; the enum with its features and order, the
    names, the trait object as a datatype with one constructor for each implementation, and the
    contract of the trait as the locale \<open>codec_trait\<close>, interpreted on it.
  \<^item> \<open>G711\<close>, \<open>Pcmu\<close>, \<open>Pcma\<close>, \<open>CodecL16\<close>: \<open>pcmu.rs\<close>, \<open>pcma.rs\<close>, \<open>l16.rs\<close> on 8 and 16-bit words.  \<open>G711\<close> holds
    the locales \<open>g711_codec\<close> and \<open>g711_lossless\<close>, interpreted on the two companders.
  \<^item> \<open>Sdp\<close>: \<open>media/sdp.rs\<close>, reading an offer, choosing a codec, writing the answer, and reading an advertised
    address, with the standard library's parser of addresses in \<open>AddrParse\<close>.  \<open>SdpText\<close>: how RFC 4566 reads
    the text of a session description, which is what is relied on of the grammar when answers are read.
  \<^item> \<open>Rtp\<close>, \<open>Ports\<close>: \<open>media/rtp.rs\<close>; packets and headers, the range with its atomic cursor under
    contention (a step relation over threads), the sockets and their allocation.
  \<^item> \<open>Cancel\<close>, \<open>Drain\<close>, \<open>Deadline\<close>: the laws of cancellation tokens, \<open>drain.rs\<close>, \<open>media/deadline.rs\<close>.
  \<^item> \<open>Session\<close>: \<open>media/session.rs\<close>; each task is a function over the polls, or rounds, that the runtime
    gives it, with every branch of its \<open>select!\<close>.  \<open>MediaPath\<close> joins a sender and a receiver.
  \<^item> \<open>Metrics\<close>: \<open>metrics.rs\<close>; an operation on a metric is an element of a log.
  \<^item> \<open>ServerState\<close>, \<open>Server\<close>: \<open>server.rs\<close>; \<open>run\<close> is a run over events.
  \<^item> \<open>CallHandler\<close>, \<open>ActiveCall\<close>: \<open>call_handler.rs\<close>; \<open>handle_call\<close> as a function that lists its effects, and
    the waiting call with its two tasks as a step relation under any interleaving.  \<open>CallSteps\<close>: the same
    \<open>handle_call\<close> up to its wait, one system call at a time, with the place it has reached as a datatype.
    \<open>PortPool\<close>: the calls of one server over its port range, in any interleaving of these steps.
    \<open>LiveCalls\<close>: these calls with their media tasks, \<open>PortPool\<close> and \<open>ActiveCall\<close> in one step relation.
    \<open>ServerCalls\<close>: the running server together with the calls it spawns.
  \<^item> \<open>EchoServer\<close>: \<open>examples/echo_server.rs\<close>; the handler, the configuration, the signals and \<open>main\<close>.
  \<^item> this theory: the properties that span offer and answer, and handler and tasks.

  \<^bold>\<open>What the lemmas show.\<close>  \<open>CallHandler\<close> and \<open>ActiveCall\<close>: a call gets one final response, leaks no socket,
  answers with what it negotiated and bound, keeps its metrics balanced, and stops when its dialog
  ends; below, that the running call is the call of its handler.  \<open>CallSteps\<close>: its steps, taken without
  interruption, are \<open>handle_call\<close>, and a bound on them.  \<open>PortPool\<close>: with any number of calls at once, no
  two hold the same port, none is lost, every call gets its one answer within the bound, and the gauge
  of active calls counts them.  \<open>LiveCalls\<close>: the calls with their tasks refine that pool, a call keeps its
  port until both its tasks have ended, and the end of its dialog lets it give the port back among any
  other calls.  \<open>ServerCalls\<close>: the same for a server from its configuration on, whose calls
  are the ones it spawned.
  \<open>Session\<close>, \<open>MediaPath\<close> and \<open>EchoServer\<close>: both tasks for every sequence of polls, the audio from handler
  to handler, and the call that gives the caller its packets back.  \<open>Sdp\<close>, and below: offers and answers
  on every branch, that they fit together, and that the address of an answer reads back.  \<open>Ports\<close>: the cursor is linearizable, fair and lock-free,
  and allocation is first-fit and complete.  \<open>Server\<close>: every request is served once, draining turns
  \<open>OPTIONS\<close> off and ends an idle server, terminations are counted.  \<open>Codecs\<close> and below it: sizes,
  round trips and error bounds of the codecs, and G.711 against its reference decoders.  \<open>Metrics\<close>, \<open>Rtp\<close>, \<open>Deadline\<close>: registration and samples, packets, idle time.
  Some theorems state behaviour that is a defect: every port range that ends at 65535 or that begins with
  the odd port below its end, in any usable range a search for ports that misses a pair free all the
  time when another call overtakes it, a count of terminations that takes in calls that were never
  accepted, a media timeout that leaves the call waiting, a failed
  reply that ends the server, a payload type that makes the sender panic, A-law with its polarity
  reversed, IPv6 addresses that an answer calls \<open>IP4\<close>.

  \<^bold>\<open>Parameters.\<close>  Code outside the repository is an argument, with what the code relies on as a named
  predicate that a concrete instance in the same theory satisfies: the SDP grammar (\<open>sdp_parse\<close>,
  \<open>sdp_grammar_ok\<close>), the RTP packet format (\<open>rtp_lib\<close>, \<open>rtp_lib_ok\<close>), the Opus and G.722 engines (\<open>codec_libs\<close>), UDP sockets
  (\<open>udp_ops\<close>, \<open>udp_laws\<close>), timers (\<open>sleep_ops\<close>, \<open>sleep_laws\<close>), cancellation tokens (\<open>token_query\<close>,
  \<open>token_laws\<close>), the dialog layer (\<open>dialog_layer\<close>), the results of its calls and the random numbers
  (fields of \<open>call_env\<close>, \<open>new_env\<close>).  The flag \<open>chk\<close> says whether the build checks overflow.

  \<^bold>\<open>Bounds.\<close>  No definition needs fuel: loops over lists and ranges are structural, the A-law segment
  loop and the chunking of slices have termination proofs, the compare-and-exchange loop is a step
  relation with a bound on its retries.  A call takes at most three steps for every pair of its range
  and six more (\<open>pc_steps\<close>), whatever other calls do.  Instants end at \<open>INSTANT_LIMIT\<close>, beyond which the source
  panics; the properties about tasks assume their instants stay below it.

  \<^bold>\<open>Not modelled.\<close>  \<open>audio/handler.rs\<close> is a trait without code and \<open>lib.rs\<close> re-exports; logging, and the
  counters of packets and frames that only the log shows; descriptions and units of metrics; the
  command line parser; the tests.  The SIP stack and the operating system are parameters.
\<close>

section \<open>The answer as the peer reads it\<close>

lemma parse_answer_description:
  assumes "parse body = Inr (answer_description ip port c)" and "kind_enabled fs (oc_kind c)"
    and static: "if oc_payload_type c = 0 then oc_kind c = Pcmu else if oc_payload_type c = 8 then oc_kind c = Pcma
      else oc_payload_type c = 9 \<longrightarrow> oc_kind c = G722"
  shows "parse_sdp_offer fs parse body =
    Inr \<lparr>peer_addr = ip, peer_port = port, payload_type = oc_payload_type c, offer_codec_kind = oc_kind c\<rparr>"
proof -
  let ?m = "hd (sd_media_descriptions (answer_description ip port c))"
  have "from_name fs (codec_name_of (md_attributes ?m) (oc_payload_type c)) = Some (oc_kind c)"
  proof (cases "oc_payload_type c \<in> {0, 8, 9}")
    case True
    then have "codec_name_of (md_attributes ?m) (oc_payload_type c) = kind_name (oc_kind c)"
      using static by (auto simp: codec_name_of_def split: if_splits)
    then show ?thesis using assms(2) by (simp add: from_name_kind_name)
  next
    case False
    then have "codec_name_of (md_attributes ?m) (oc_payload_type c) = kind_name (oc_kind c)"
      by (cases "oc_kind c") (simp_all add: codec_name_of_def answer_description_def answer_clock_def
          eq_ignore_ascii_case_def)
    then show ?thesis using assms(2) by (simp add: from_name_kind_name)
  qed
  then have "offered_codecs fs ?m = [\<lparr>oc_payload_type = oc_payload_type c, oc_kind = oc_kind c\<rparr>]"
    by (simp add: offered_codecs_def answer_description_def answer_payload_types List.map_filter_simps)
  then show ?thesis
    by (simp add: parse_sdp_offer_def assms(1) select_preferred_def) (simp add: answer_description_def select_preferred_def)
qed

text \<open>C16.
  Offer and answer agree.  When an offer is accepted and the text of the answer for it is read by the
  same code on the other side, with any grammar that reads session descriptions as RFC 4566 writes
  them (\<open>sdp_grammar_ok\<close>: its lines, fields and \<open>rtpmap\<close> attributes, and nothing about answers), the reader
  gets the advertised IPv4 address and the port of the answer and exactly the payload type and codec
  that were selected, whichever codec it was and whatever else the reader's build supports; so the two
  sides decode what the other one encodes.  The same answer with an IPv6 address cannot be read so,
  for it is announced as \<open>IP4\<close>.\<close>

theorem peer_reads_answer:
  assumes "parse_sdp_offer fs parse body = Inr off" and "sdp_grammar_ok peer_parse"
    and "kind_enabled peer_fs (offer_codec_kind off)" and "ip_ok ip"
  shows "let answer = generate_sdp_answer ip port sid
           \<lparr>oc_payload_type = payload_type off, oc_kind = offer_codec_kind off\<rparr>
    in case ip of
         IpV4 _ _ _ _ \<Rightarrow> parse_sdp_offer peer_fs peer_parse answer =
           Inr \<lparr>peer_addr = ip, peer_port = port, payload_type = payload_type off, offer_codec_kind = offer_codec_kind off\<rparr>
       | IpV6 _ \<Rightarrow> read_sdp answer = None"
proof (cases ip)
  case (IpV4 i j k l)
  obtain m :: media_description where name: "from_name fs (codec_name_of (md_attributes m) (payload_type off)) = Some (offer_codec_kind off)"
    using parse_offer_codec [OF assms(1)] by blast
  let ?c = "\<lparr>oc_payload_type = payload_type off, oc_kind = offer_codec_kind off\<rparr>"
  have "peer_parse (generate_sdp_answer ip port sid ?c) = Inr (answer_description ip port ?c)"
    using read_answer [OF IpV4] assms(2) by (simp add: sdp_grammar_ok_def)
  then show ?thesis
    using parse_answer_description [of peer_parse "generate_sdp_answer ip port sid ?c" ip port ?c peer_fs] IpV4 assms(3) codec_name_agrees [OF name] by (simp split: if_splits)
next
  case (IpV6 segs)
  then show ?thesis using read_answer_ip6 [of segs] assms(4) by (simp add: ip_ok_def)
qed

theorem peer_reads_answer_witness:
  "parse_sdp_offer \<lparr>feat_opus = True, feat_g722 = True\<rparr> text_grammar
     (generate_sdp_answer (IpV4 10 0 0 9) 10000 7 \<lparr>oc_payload_type = 111, oc_kind = Opus\<rparr>)
   = Inr \<lparr>peer_addr = IpV4 10 0 0 9, peer_port = 10000, payload_type = 111, offer_codec_kind = Opus\<rparr>"
  using peer_reads_answer [OF sample_offer [of "[]"] text_grammar_ok, of "\<lparr>feat_opus = True, feat_g722 = True\<rparr>"
      "IpV4 10 0 0 9" 10000 7]
  by (simp add: kind_enabled_def ip_ok_def)

section \<open>A call from its INVITE to its end\<close>

lemma handle_call_active:
  assumes "handle_call env False state w = Some (effs, Active started guard, state', w')"
  shows "handle_call env True state w = Some (effs @ call_teardown guard, Finished None, state', w')"
  using assms by (auto simp: handle_call_def split: option.splits call_state.splits)

lemma finals_of_way:
  assumes "handle_call env ends state w = Some (effs, Active started guard, state', w')"
  shows "length (filter is_final effs) = 1 \<and> filter (\<lambda>e. e = Bye) effs = [] \<and> guard = ScopedGauge calls_active \<and>
    gauge_delta calls_active (effect_metrics effs) = 1"
proof -
  obtain way where way: "call_goes env state w = Some way" using handle_call_goes [OF assms] by blast
  have "way_response way = None"
    using handle_call_rejected [OF assms way] by fastforce
  from handle_call_answered [OF assms way this] show ?thesis
    by (auto simp: filter_empty_conv split: if_splits)
qed

text \<open>C8.
  The running call is the call of the handler.  From the moment \<open>handle_call\<close> waits, whatever the
  tasks of the session do and whoever cancels which token, the effects of the call so far are those
  of \<open>handle_call\<close> as a whole: of one whose dialog goes on as long as the handler waits, and of one
  whose dialog has ended afterwards, which takes a cancelled dialog token.  Throughout, exactly one
  final response has been sent, and the gauge of active calls is up by one while the handler waits
  and balanced after that.\<close>

theorem running_call_refines_handle_call:
  assumes "token_laws q"
    and "handle_call env False state w = Some (effs, Active started guard, state', w')"
    and "call_reach (call_params_of env lib q started) ext (call_begins effs started) s"
  shows "handle_call env (\<not> cs_waiting s) state w =
      Some (cs_effects s, if cs_waiting s then Active started guard else Finished None, state', w') \<and>
    (\<not> cs_waiting s \<longrightarrow> q (cs_calls s) (ce_dialog_token env)) \<and>
    length (filter is_final (cs_effects s)) = 1 \<and>
    gauge_delta calls_active (effect_metrics (cs_effects s)) = (if cs_waiting s then 1 else 0)"
proof -
  have "call_inv (call_params_of env lib q started) effs (call_begins effs started)"
    by (simp add: call_inv_def)
  then have inv: "call_inv (call_params_of env lib q started) effs s"
    using call_inv_reach [OF assms(3)] assms(1) by simp
  show ?thesis
    using inv assms(2) handle_call_active [OF assms(2)] finals_of_way [OF assms(2)]
    by (auto simp: call_inv_def call_teardown_def split: if_splits)
qed

lemma sample_call_runs:
  "\<exists>effs started guard state' w'. handle_call sample_env False sample_state [] =
     Some (effs, Active started guard, state', w')"
proof -
  obtain effs res state' w' where r: "handle_call sample_env False sample_state [] = Some (effs, res, state', w')"
    using sample_call by blast
  then show ?thesis
    using handle_call_answered [OF r sample_call_goes] by auto
qed

theorem running_call_refines_handle_call_witness:
  "\<exists>effs started guard state' w' s.
     handle_call sample_env False sample_state [] = Some (effs, Active started guard, state', w') \<and>
     call_reach (call_params_of sample_env plain_rtp_lib tree_query started) (\<lambda>t. t = RootToken 0)
       (call_begins effs started) s \<and> \<not> cs_waiting s \<and>
     handle_call sample_env True sample_state [] = Some (cs_effects s, Finished None, state', w')"
proof -
  obtain effs started guard state' w'
    where r: "handle_call sample_env False sample_state [] = Some (effs, Active started guard, state', w')"
    using sample_call_runs by blast
  let ?cp = "call_params_of sample_env plain_rtp_lib tree_query started" and ?ext = "\<lambda>t. t = RootToken 0"
  let ?u = "(call_begins effs started)\<lparr>cs_calls := cs_calls (call_begins effs started) @ [RootToken 0]\<rparr>"
  have u: "call_reach ?cp ?ext (call_begins effs started) ?u"
    by (rule call_reach.step [OF call_reach.refl call_step.others]) simp
  let ?v = "?u\<lparr>cs_waiting := False, cs_effects := cs_effects ?u @ call_teardown (cp_guard ?cp)\<rparr>"
  have "ce_dialog_token sample_env = RootToken 0" by (simp add: sample_env_def)
  then have "call_step ?cp ?ext ?u ?v"
    by (intro call_step.wake) (simp_all add: tree_query_def)
  then have v: "call_reach ?cp ?ext (call_begins effs started) ?v" by (rule call_reach.step [OF u])
  then show ?thesis
    using running_call_refines_handle_call [OF tree_query_laws r v] r
    by (intro exI [of _ effs] exI [of _ started] exI [of _ guard] exI [of _ state'] exI [of _ w'] exI [of _ ?v])
      simp
qed

end
